(* ===== verification/Prelude.thy ===== *)
theory Prelude
  imports Main "HOL-Library.Sublist" "HOL-Library.AList" "HOL-Library.Word"
begin

text \<open>
  Shared vocabulary of the development.

  \<^item> Rust values: a \<open>Result<T, E>\<close> is \<open>'e + 'a\<close> with \<open>Inl\<close> for \<open>Err\<close>; the question mark
    operator is \<open>and_then\<close>; a \<open>String\<close> or \<open>&str\<close> is its UTF-8 byte sequence, a HOL
    \<^typ>\<open>string\<close> (HOL characters are bytes), so \<open>len()\<close> is \<^const>\<open>length\<close>.
  \<^item> Text functions of the Rust standard library that the sources use: the ASCII classes,
    \<open>char::is_control\<close>, \<open>split\<close>, \<open>split_once\<close>, \<open>strip_prefix\<close>, integer parsing.
  \<^item> The two interfaces many components share: a bounded log that keeps its newest entries
    (locale \<open>bounded_log\<close>) and a transition system with an invariant (locale
    \<open>invariant_system\<close>).
\<close>

named_theorems text_defs \<open>definitions of the text classes, for evaluation\<close>
named_theorems preserve \<open>facts that an operation keeps an invariant\<close>

section \<open>Machine integers\<close>

type_synonym u8 = "8 word"
type_synonym u16 = "16 word"
type_synonym u32 = "32 word"
type_synonym u64 = "64 word"

section \<open>Results\<close>

definition and_then :: "'e + 'a \<Rightarrow> ('a \<Rightarrow> 'e + 'b) \<Rightarrow> 'e + 'b" where
  "and_then x f = (case x of Inl e \<Rightarrow> Inl e | Inr a \<Rightarrow> f a)"

lemma and_then_simps [simp]:
  "and_then (Inl e) f = Inl e"
  "and_then (Inr a) f = f a"
  by (simp_all add: and_then_def)

lemma and_then_eq_Inr [simp]:
  "and_then x f = Inr b \<longleftrightarrow> (\<exists>a. x = Inr a \<and> f a = Inr b)"
  by (cases x) simp_all

lemma and_then_eq_Inl:
  "and_then x f = Inl e \<longleftrightarrow> x = Inl e \<or> (\<exists>a. x = Inr a \<and> f a = Inl e)"
  by (cases x) simp_all

definition err_when :: "bool \<Rightarrow> 'e \<Rightarrow> 'e + unit" where
  "err_when b e = (if b then Inl e else Inr ())"

lemma err_when_eq [simp]:
  "err_when b e = Inr u \<longleftrightarrow> \<not> b"
  "err_when b e = Inl e' \<longleftrightarrow> b \<and> e' = e"
  by (auto simp: err_when_def)

lemma err_when_simps [simp]:
  "err_when True e = Inl e"
  "err_when False e = Inr ()"
  by (simp_all add: err_when_def)

text \<open>\<open>Iterator::try_for_each\<close>: the first error ends the loop.\<close>

fun try_each :: "('a \<Rightarrow> 'e + unit) \<Rightarrow> 'a list \<Rightarrow> 'e + unit" where
  "try_each f [] = Inr ()"
| "try_each f (x # xs) = and_then (f x) (\<lambda>_. try_each f xs)"

lemma try_each_eq_Inr [simp]: "try_each f xs = Inr u \<longleftrightarrow> (\<forall>x \<in> set xs. f x = Inr ())"
  by (induction xs) auto

text \<open>\<open>collect::<Result<Vec<_>, _>>()\<close>.\<close>

fun collect_results :: "('a \<Rightarrow> 'e + 'b) \<Rightarrow> 'a list \<Rightarrow> 'e + 'b list" where
  "collect_results f [] = Inr []"
| "collect_results f (x # xs) =
     and_then (f x) (\<lambda>y. and_then (collect_results f xs) (\<lambda>ys. Inr (y # ys)))"

lemma collect_results_eq_Inr:
  "collect_results f xs = Inr ys \<longleftrightarrow> list_all2 (\<lambda>x y. f x = Inr y) xs ys"
  by (induction xs arbitrary: ys) (auto simp: list_all2_Cons1)

lemma collect_results_length: "collect_results f xs = Inr ys \<Longrightarrow> length ys = length xs"
  by (auto simp: collect_results_eq_Inr dest: list_all2_lengthD)

section \<open>Bytes and text\<close>

type_synonym bytes = string

definition byte :: "char \<Rightarrow> nat" where
  "byte c = of_char c"

lemma byte_less: "byte c < 256"
  by (simp add: byte_def)

definition is_ascii_digit :: "char \<Rightarrow> bool" where
  "is_ascii_digit c \<longleftrightarrow> 48 \<le> byte c \<and> byte c \<le> 57"

definition is_ascii_uppercase :: "char \<Rightarrow> bool" where
  "is_ascii_uppercase c \<longleftrightarrow> 65 \<le> byte c \<and> byte c \<le> 90"

definition is_ascii_lowercase :: "char \<Rightarrow> bool" where
  "is_ascii_lowercase c \<longleftrightarrow> 97 \<le> byte c \<and> byte c \<le> 122"

definition is_ascii_alphanumeric :: "char \<Rightarrow> bool" where
  "is_ascii_alphanumeric c \<longleftrightarrow>
     is_ascii_digit c \<or> is_ascii_uppercase c \<or> is_ascii_lowercase c"

definition to_ascii_lowercase_char :: "char \<Rightarrow> char" where
  "to_ascii_lowercase_char c = (if is_ascii_uppercase c then char_of (byte c + 32) else c)"

definition to_ascii_uppercase_char :: "char \<Rightarrow> char" where
  "to_ascii_uppercase_char c = (if is_ascii_lowercase c then char_of (byte c - 32) else c)"

definition to_ascii_lowercase :: "string \<Rightarrow> string" where
  "to_ascii_lowercase s = map to_ascii_lowercase_char s"

definition to_ascii_uppercase :: "string \<Rightarrow> string" where
  "to_ascii_uppercase s = map to_ascii_uppercase_char s"

definition eq_ignore_ascii_case :: "string \<Rightarrow> string \<Rightarrow> bool" where
  "eq_ignore_ascii_case a b \<longleftrightarrow> to_ascii_lowercase a = to_ascii_lowercase b"

text \<open>
  \<open>char::is_control\<close> holds of U+0000..U+001F, U+007F and U+0080..U+009F. In UTF-8 the last
  range is the byte 0xC2 followed by a byte 0x80..0x9F, and 0xC2 only ever starts a character.
\<close>

fun has_control :: "string \<Rightarrow> bool" where
  "has_control [] = False"
| "has_control (c # cs) =
     (byte c < 32 \<or> byte c = 127 \<or>
      (byte c = 194 \<and> (case cs of [] \<Rightarrow> False | d # _ \<Rightarrow> 128 \<le> byte d \<and> byte d \<le> 159)) \<or>
      has_control cs)"

declare byte_def [text_defs] is_ascii_digit_def [text_defs] is_ascii_uppercase_def [text_defs]
  is_ascii_lowercase_def [text_defs] is_ascii_alphanumeric_def [text_defs]
  to_ascii_lowercase_char_def [text_defs] to_ascii_uppercase_char_def [text_defs]
  to_ascii_lowercase_def [text_defs] to_ascii_uppercase_def [text_defs] char_of_def [text_defs]
  eq_ignore_ascii_case_def [text_defs]

lemma length_to_ascii_lowercase [simp]: "length (to_ascii_lowercase s) = length s"
  by (simp add: to_ascii_lowercase_def)

lemma byte_char_of [simp]: "n < 256 \<Longrightarrow> byte (char_of n) = n"
  by (simp add: byte_def)

lemma to_ascii_lowercase_char_idem [simp]:
  "to_ascii_lowercase_char (to_ascii_lowercase_char c) = to_ascii_lowercase_char c"
proof (cases "is_ascii_uppercase c")
  case True
  then have "byte c + 32 < 256" and "\<not> byte c + 32 \<le> 90"
    by (simp_all add: is_ascii_uppercase_def)
  then show ?thesis
    by (simp add: to_ascii_lowercase_char_def is_ascii_uppercase_def)
next
  case False
  then show ?thesis by (simp add: to_ascii_lowercase_char_def)
qed

lemma to_ascii_lowercase_idem [simp]:
  "to_ascii_lowercase (to_ascii_lowercase s) = to_ascii_lowercase s"
  by (simp add: to_ascii_lowercase_def)

subsection \<open>Splitting\<close>

text \<open>\<open>str::split(c)\<close>: always at least one piece.\<close>

fun split_on :: "'a \<Rightarrow> 'a list \<Rightarrow> 'a list list" where
  "split_on d [] = [[]]"
| "split_on d (x # xs) =
     (if x = d then [] # split_on d xs
      else (case split_on d xs of [] \<Rightarrow> [[x]] | y # ys \<Rightarrow> (x # y) # ys))"

lemma split_on_not_Nil [simp]: "split_on d xs \<noteq> []"
  by (cases xs) (auto split: list.splits)

lemma split_on_no_delim: "p \<in> set (split_on d xs) \<Longrightarrow> d \<notin> set p"
proof (induction xs arbitrary: p)
  case (Cons x xs)
  then show ?case by (cases "split_on d xs") (auto split: if_splits)
qed simp

lemma set_split_on: "p \<in> set (split_on d xs) \<Longrightarrow> set p \<subseteq> set xs"
proof (induction xs arbitrary: p)
  case (Cons x xs)
  then show ?case by (cases "split_on d xs") (fastforce split: if_splits)+
qed simp

lemma split_on_single: "d \<notin> set xs \<Longrightarrow> split_on d xs = [xs]"
  by (induction xs) auto

lemma split_on_append:
  "d \<notin> set xs \<Longrightarrow> split_on d (xs @ d # ys) = xs # split_on d ys"
  by (induction xs) auto

lemma split_on_join_tail: "split_on d (xs @ d # ys) = split_on d xs @ split_on d ys"
  by (induction xs) (auto split: list.splits)

lemma split_on_hd: "hd (split_on d xs) = [] \<longleftrightarrow> xs = [] \<or> prefix [d] xs"
  by (cases xs) (auto split: list.splits)

lemma set_split_on_hd_tl: "set (split_on d xs) = insert (hd (split_on d xs)) (set (tl (split_on d xs)))"
  by (cases "split_on d xs") simp_all

lemma split_on_tl: "[] \<in> set (tl (split_on d xs)) \<longleftrightarrow> suffix [d] xs \<or> sublist [d, d] xs"
proof (induction xs)
  case (Cons x xs)
  show ?case
  proof (cases "x = d")
    case True
    have tl: "[] \<in> set (tl (split_on d (x # xs))) \<longleftrightarrow>
        hd (split_on d xs) = [] \<or> [] \<in> set (tl (split_on d xs))"
      using True by (simp, subst set_split_on_hd_tl, simp add: eq_commute)
    show ?thesis
      unfolding tl Cons.IH split_on_hd using True by (auto simp: sublist_Cons_right suffix_Cons)
  next
    case False
    then have tl: "tl (split_on d (x # xs)) = tl (split_on d xs)"
      using split_on_not_Nil [of d xs] by (simp split: list.split del: split_on_not_Nil)
    show ?thesis
      unfolding tl Cons.IH using False by (auto simp: sublist_Cons_right suffix_Cons)
  qed
qed simp

lemma split_on_all_nonempty:
  "(\<forall>p \<in> set (split_on d xs). p \<noteq> []) \<longleftrightarrow>
     xs \<noteq> [] \<and> \<not> prefix [d] xs \<and> \<not> suffix [d] xs \<and> \<not> sublist [d, d] xs"
proof -
  have "(\<forall>p \<in> set (split_on d xs). p \<noteq> []) \<longleftrightarrow>
      hd (split_on d xs) \<noteq> [] \<and> [] \<notin> set (tl (split_on d xs))"
    by (subst set_split_on_hd_tl) auto
  then show ?thesis
    by (simp add: split_on_hd split_on_tl)
qed

text \<open>\<open>slice::join\<close> with a one-character separator puts the pieces back.\<close>

fun join_with :: "'a \<Rightarrow> 'a list list \<Rightarrow> 'a list" where
  "join_with d [] = []"
| "join_with d [x] = x"
| "join_with d (x # y # ys) = x @ d # join_with d (y # ys)"

lemma join_split_on: "join_with d (split_on d xs) = xs"
proof (induction xs)
  case (Cons x xs)
  then show ?case
    by (cases "split_on d xs") (auto, (cases "tl (split_on d xs)"; simp)+)
qed simp

lemma split_on_join:
  "ps \<noteq> [] \<Longrightarrow> \<forall>p \<in> set ps. d \<notin> set p \<Longrightarrow> split_on d (join_with d ps) = ps"
proof (induction d ps rule: join_with.induct)
  case (3 d x y ys)
  then show ?case by (simp add: split_on_append)
qed (auto simp: split_on_single)

lemma join_with_prefix:
  assumes "prefix ps qs" "ps \<noteq> []"
  shows "join_with d qs = join_with d ps \<or> prefix (join_with d ps @ [d]) (join_with d qs)"
  using assms
proof (induction d ps arbitrary: qs rule: join_with.induct)
  case (2 d x)
  then show ?case
    by (cases qs; cases "tl qs") auto
next
  case (3 d x y ys)
  then obtain zs where qs: "qs = x # y # zs" and "prefix (y # ys) (y # zs)"
    by (cases qs; cases "tl qs") auto
  with 3(1) [of "y # zs"] show ?case by auto
qed simp

text \<open>\<open>str::split_once(c)\<close> and \<open>str::rsplit_once(c)\<close>.\<close>

fun split_once :: "'a \<Rightarrow> 'a list \<Rightarrow> ('a list \<times> 'a list) option" where
  "split_once d [] = None"
| "split_once d (x # xs) =
     (if x = d then Some ([], xs)
      else map_option (\<lambda>(a, b). (x # a, b)) (split_once d xs))"

definition rsplit_once :: "'a \<Rightarrow> 'a list \<Rightarrow> ('a list \<times> 'a list) option" where
  "rsplit_once d xs = map_option (\<lambda>(a, b). (rev b, rev a)) (split_once d (rev xs))"

lemma split_once_Some:
  "split_once d xs = Some (a, b) \<longleftrightarrow> xs = a @ d # b \<and> d \<notin> set a"
proof (induction xs arbitrary: a b)
  case (Cons x xs)
  then show ?case by (cases a) auto
qed simp

lemma split_once_None: "split_once d xs = None \<longleftrightarrow> d \<notin> set xs"
  by (induction xs) auto

lemma rsplit_once_Some:
  "rsplit_once d xs = Some (a, b) \<longleftrightarrow> xs = a @ d # b \<and> d \<notin> set b"
proof -
  have "rsplit_once d xs = Some (a, b) \<longleftrightarrow> split_once d (rev xs) = Some (rev b, rev a)"
    by (auto simp: rsplit_once_def)
  also have "\<dots> \<longleftrightarrow> xs = a @ d # b \<and> d \<notin> set b"
    unfolding split_once_Some by (auto simp: rev_eq_append_conv)
  finally show ?thesis .
qed

definition strip_prefix :: "'a list \<Rightarrow> 'a list \<Rightarrow> 'a list option" where
  "strip_prefix p s = (if take (length p) s = p then Some (drop (length p) s) else None)"

lemma strip_prefix_Some: "strip_prefix p s = Some r \<longleftrightarrow> s = p @ r"
  by (auto simp: strip_prefix_def) (metis append_take_drop_id)

lemma strip_prefix_None: "strip_prefix p s = None \<longleftrightarrow> \<not> prefix p s"
  by (auto simp: strip_prefix_def prefix_def) (metis append_take_drop_id)

text \<open>Executable reading of \<open>starts_with\<close>, \<open>ends_with\<close> and \<open>contains\<close> on strings.\<close>

definition starts_with :: "'a list \<Rightarrow> 'a list \<Rightarrow> bool" where
  "starts_with s p \<longleftrightarrow> take (length p) s = p"

definition ends_with :: "'a list \<Rightarrow> 'a list \<Rightarrow> bool" where
  "ends_with s p \<longleftrightarrow> length p \<le> length s \<and> drop (length s - length p) s = p"

fun contains_str :: "'a list \<Rightarrow> 'a list \<Rightarrow> bool" where
  "contains_str [] p = (p = [])"
| "contains_str (x # xs) p = (take (length p) (x # xs) = p \<or> contains_str xs p)"

lemma starts_with_iff: "starts_with s p \<longleftrightarrow> prefix p s"
  by (auto simp: starts_with_def prefix_def) (metis append_take_drop_id)

lemma ends_with_iff: "ends_with s p \<longleftrightarrow> suffix p s"
  by (auto simp: ends_with_def suffix_def) (metis append_take_drop_id)

lemma take_eq_prefix: "take (length p) s = p \<longleftrightarrow> prefix p s"
  using starts_with_iff [of s p] by (simp add: starts_with_def)

lemma contains_str_iff: "contains_str s p \<longleftrightarrow> sublist p s"
  by (induction s) (simp_all add: take_eq_prefix sublist_Cons_right del: take_Cons_numeral)

declare starts_with_def [text_defs] ends_with_def [text_defs] strip_prefix_def [text_defs]

text \<open>
  The Unicode white space characters as UTF-8: the number of bytes of the one a text starts with,
  0 if it starts with none.
\<close>

definition ws_len :: "string \<Rightarrow> nat" where
  "ws_len s =
     (case s of
        [] \<Rightarrow> 0
      | a # r \<Rightarrow>
          if (9 \<le> byte a \<and> byte a \<le> 13) \<or> byte a = 32 then 1
          else (case r of
                  [] \<Rightarrow> 0
                | b # q \<Rightarrow>
                    if byte a = 194 \<and> (byte b = 133 \<or> byte b = 160) then 2
                    else (case q of
                            [] \<Rightarrow> 0
                          | c # _ \<Rightarrow>
                              if (byte a = 225 \<and> byte b = 154 \<and> byte c = 128) \<or>
                                 (byte a = 226 \<and> byte b = 128 \<and>
                                  ((128 \<le> byte c \<and> byte c \<le> 138) \<or> byte c \<in> {168, 169, 175})) \<or>
                                 (byte a = 226 \<and> byte b = 129 \<and> byte c = 159) \<or>
                                 (byte a = 227 \<and> byte b = 128 \<and> byte c = 128)
                              then 3 else 0)))"

text \<open>\<open>str::split_whitespace\<close>; the first argument is the word read so far.\<close>

fun split_ws :: "string \<Rightarrow> string \<Rightarrow> string list" where
  "split_ws w [] = (if w = [] then [] else [w])"
| "split_ws w (c # cs) =
     (let n = ws_len (c # cs)
      in if n = 0 then split_ws (w @ [c]) cs
         else (if w = [] then [] else [w]) @ split_ws [] (drop (n - 1) cs))"

definition split_whitespace :: "string \<Rightarrow> string list" where
  "split_whitespace s = split_ws [] s"

lemma split_ws_nonempty: "x \<in> set (split_ws w s) \<Longrightarrow> x \<noteq> []"
  by (induction w s rule: split_ws.induct) (auto simp: Let_def split: if_splits)

declare ws_len_def [text_defs] split_whitespace_def [text_defs]

subsection \<open>Numbers in text\<close>

definition digit_val :: "char \<Rightarrow> nat" where
  "digit_val c = byte c - 48"

definition dec_val :: "string \<Rightarrow> nat" where
  "dec_val s = foldl (\<lambda>n c. 10 * n + digit_val c) 0 s"

text \<open>
  \<open>str::parse\<close> for an unsigned integer with maximum \<open>hi\<close>: an optional \<open>+\<close>, at least one
  digit, no overflow.
\<close>

definition parse_unsigned :: "nat \<Rightarrow> string \<Rightarrow> nat option" where
  "parse_unsigned hi s =
     (let ds = (case s of c # cs \<Rightarrow> if c = CHR ''+'' \<and> cs \<noteq> [] then cs else s | [] \<Rightarrow> [])
      in if ds = [] \<or> \<not> list_all is_ascii_digit ds \<or> dec_val ds > hi then None
         else Some (dec_val ds))"

text \<open>\<open>str::parse::<i32>()\<close>: an optional sign, at least one digit, within range.\<close>

definition parse_i32 :: "string \<Rightarrow> int option" where
  "parse_i32 s =
     (case s of
        c # cs \<Rightarrow>
          if c = CHR ''-'' \<and> cs \<noteq> [] then
            (if list_all is_ascii_digit cs \<and> dec_val cs \<le> 2147483648
             then Some (- int (dec_val cs)) else None)
          else map_option int (parse_unsigned 2147483647 s)
      | [] \<Rightarrow> None)"

declare digit_val_def [text_defs] dec_val_def [text_defs] parse_unsigned_def [text_defs]
  parse_i32_def [text_defs]

lemma parse_unsigned_le: "parse_unsigned hi s = Some n \<Longrightarrow> n \<le> hi"
  by (auto simp: parse_unsigned_def Let_def split: if_splits list.splits)

section \<open>Keeping the newest entries\<close>

definition last_n :: "nat \<Rightarrow> 'a list \<Rightarrow> 'a list" where
  "last_n n xs = drop (length xs - n) xs"

lemma length_last_n [simp]: "length (last_n n xs) = min n (length xs)"
  by (simp add: last_n_def min_def)

lemma last_n_all: "length xs \<le> n \<Longrightarrow> last_n n xs = xs"
  by (simp add: last_n_def)

lemma last_n_Nil [simp]: "last_n n [] = []"
  by (simp add: last_n_def)

lemma suffix_last_n: "suffix (last_n n xs) xs"
  by (simp add: last_n_def suffix_drop)

lemma last_n_snoc_last_n: "last_n n (last_n n xs @ [x]) = last_n n (xs @ [x])"
  by (cases "length xs \<le> n") (auto simp: last_n_def Suc_diff_le)

text \<open>\<open>while q.len() > cap { q.pop_front(); }\<close> on a \<open>VecDeque\<close>.\<close>

fun trim_front :: "nat \<Rightarrow> 'a list \<Rightarrow> 'a list" where
  "trim_front cap [] = []"
| "trim_front cap (x # xs) = (if length (x # xs) > cap then trim_front cap xs else x # xs)"

lemma trim_front_last_n: "trim_front cap q = last_n cap q"
proof (induction q)
  case (Cons x q)
  then show ?case by (auto simp: last_n_def Suc_diff_le not_less)
qed simp

text \<open>
  A log that keeps its newest \<open>cap\<close> entries: whatever the component does to make room, a
  push on a log within its bound is the newest \<open>cap\<close> of the entries so far.
\<close>

locale bounded_log =
  fixes push :: "'a list \<Rightarrow> 'a \<Rightarrow> 'a list"
    and cap :: nat
  assumes push_newest: "length q \<le> cap \<Longrightarrow> push q e = last_n cap (q @ [e])"
begin

lemma push_bound: "length q \<le> cap \<Longrightarrow> length (push q e) \<le> cap"
  by (simp add: push_newest)

lemma push_all_newest:
  "length q \<le> cap \<Longrightarrow> foldl push q es = last_n cap (q @ es)"
proof (induction es arbitrary: q rule: rev_induct)
  case Nil
  then show ?case by (simp add: last_n_all)
next
  case (snoc e es)
  then show ?case
    by (simp add: push_newest last_n_snoc_last_n flip: append_assoc)
qed

lemma history: "foldl push [] es = last_n cap es"
  using push_all_newest [of "[]" es] by simp

lemma pushed_kept: "0 < cap \<Longrightarrow> length q \<le> cap \<Longrightarrow> last (push q e) = e \<and> push q e \<noteq> []"
  by (simp add: push_newest last_n_def)

end

section \<open>Transition systems\<close>

locale invariant_system =
  fixes step :: "'s \<Rightarrow> 's \<Rightarrow> bool"
    and inv :: "'s \<Rightarrow> bool"
  assumes step_keeps: "step s t \<Longrightarrow> inv s \<Longrightarrow> inv t"
begin

lemma run_keeps: "step\<^sup>*\<^sup>* s t \<Longrightarrow> inv s \<Longrightarrow> inv t"
  by (induction rule: rtranclp_induct) (auto intro: step_keeps)

end

section \<open>Association lists\<close>

text \<open>
  A Rust \<open>HashMap\<close> the code iterates over is an association list with distinct keys; its
  order stands for the unspecified iteration order.
\<close>

definition keys_ok :: "('k \<times> 'v) list \<Rightarrow> bool" where
  "keys_ok m \<longleftrightarrow> distinct (map fst m)"

lemma keys_ok_Nil [simp]: "keys_ok []"
  by (simp add: keys_ok_def)

lemma keys_ok_update [simp]: "keys_ok m \<Longrightarrow> keys_ok (AList.update k v m)"
  by (simp add: keys_ok_def distinct_update)

lemma keys_ok_delete [simp]: "keys_ok m \<Longrightarrow> keys_ok (AList.delete k m)"
  by (simp add: keys_ok_def distinct_delete)

lemma keys_ok_filter: "keys_ok m \<Longrightarrow> keys_ok (filter P m)"
  by (simp add: keys_ok_def distinct_map_filter)

lemma keys_ok_map_of: "keys_ok m \<Longrightarrow> (k, v) \<in> set m \<longleftrightarrow> map_of m k = Some v"
  by (simp add: keys_ok_def)

lemma length_delete_less:
  "map_of m k = Some v \<Longrightarrow> length (AList.delete k m) < length m"
proof (induction m)
  case (Cons p m)
  then show ?case by (cases p) (auto intro: le_imp_less_Suc length_delete_le)
qed simp

lemma length_update:
  "length (AList.update k v m) = (if map_of m k = None then Suc (length m) else length m)"
  by (induction m) auto

end
