(* ===== verification/Protocol.thy ===== *)
theory Protocol
  imports Prelude
begin

text \<open>
  The protocol types of \<open>ward-core/src/protocol.rs\<close> and \<open>ward-core/src/signal.rs\<close>: sandbox
  options and their enums, restart policies, resource and cgroup limits with their updates, the
  API errors, and Linux signal names.

  An error text is kept as the format string of the source together with the values the source
  puts into it (\<open>Msg\<close>); the rendered text is never compared by the code.
\<close>

section \<open>Errors\<close>

datatype msg_arg = S string | N nat | Z int

datatype message = Msg string "msg_arg list"

datatype api_error =
    SandboxNotFound string
  | VolumeNotFound string
  | VolumeInUse message
  | SnapshotNotFound string
  | ProcessNotFound string
  | ImageNotFound message
  | Unavailable message
  | PathNotFound message
  | InvalidRequest message
  | GuestIo message
  | Backend message
  | Internal message
  | NameInUse string "string option"
  | PermissionDenied message
  | AmbiguousReference message
  | ResourceExhausted message
  | AddressInUse message

type_synonym 'a result = "api_error + 'a"

text \<open>The kinds of \<open>std::io::Error\<close> the sources tell apart.\<close>

datatype io_kind = StorageFull | AccessDenied | NoEntry | InvalidInput | OtherKind | Elsewhere string

definition from_io :: "string \<Rightarrow> io_kind \<Rightarrow> api_error" where
  "from_io context e =
     (case e of
        StorageFull \<Rightarrow> ResourceExhausted
          (Msg ''no space left on device, free disk space and retry'' [])
      | AccessDenied \<Rightarrow> PermissionDenied
          (Msg ''the daemon cannot write to its data directory, check its ownership and permissions'' [])
      | _ \<Rightarrow> Internal (Msg ''{context}: {e}'' [S context]))"

section \<open>Enums\<close>

datatype sandbox_status = Creating | Running | Stopped | Failed | Exited | Stopping

datatype end_reason = REndExited | REndSignal | REndOom | REndTimeout | REndEgressPolicy

datatype egress_mode = EgressDeny | EgressAllowlist | EgressOpen

record egress_policy =
  ep_mode :: egress_mode
  ep_domains :: "string list"

datatype communication_mode = CommDeny | CommGroup

record communication_policy =
  cp_mode :: communication_mode
  cp_group :: "string option"

definition default_egress_policy :: egress_policy where
  "default_egress_policy = \<lparr>ep_mode = EgressDeny, ep_domains = []\<rparr>"

definition default_communication_policy :: communication_policy where
  "default_communication_policy = \<lparr>cp_mode = CommDeny, cp_group = None\<rparr>"

section \<open>Restart policy\<close>

datatype restart_kind = RestartNo | OnFailure | Always | UnlessStopped

fun restart_kind_as_str :: "restart_kind \<Rightarrow> string" where
  "restart_kind_as_str RestartNo = ''no''"
| "restart_kind_as_str OnFailure = ''on-failure''"
| "restart_kind_as_str Always = ''always''"
| "restart_kind_as_str UnlessStopped = ''unless-stopped''"

record restart_policy =
  rp_kind :: restart_kind
  rp_max_retries :: u32

definition default_restart_policy :: restart_policy where
  "default_restart_policy = \<lparr>rp_kind = RestartNo, rp_max_retries = 0\<rparr>"

definition restart_from_parts :: "string \<Rightarrow> u32 \<Rightarrow> message + restart_policy" where
  "restart_from_parts name max_retries =
     and_then
       (if name = '''' \<or> name = ''no'' then Inr RestartNo
        else if name = ''on-failure'' then Inr OnFailure
        else if name = ''always'' then Inr Always
        else if name = ''unless-stopped'' then Inr UnlessStopped
        else Inl (Msg ''invalid restart policy {other}'' [S name]))
       (\<lambda>kind. if max_retries > 0 \<and> kind \<noteq> OnFailure
          then Inl (Msg ''maximum retry count cannot be used with restart policy {}''
                 [S (restart_kind_as_str kind)])
          else Inr \<lparr>rp_kind = kind, rp_max_retries = max_retries\<rparr>)"

definition restart_parse :: "string \<Rightarrow> message + restart_policy" where
  "restart_parse text =
     (case split_once (CHR '':'') text of
        None \<Rightarrow> restart_from_parts text 0
      | Some (name, count) \<Rightarrow>
          (case parse_unsigned 4294967295 count of
             None \<Rightarrow> Inl (Msg ''invalid restart policy {text}: the retry count is not a number''
                        [S text])
           | Some n \<Rightarrow> restart_from_parts name (of_nat n)))"

lemma restart_from_parts_ok:
  "restart_from_parts name n = Inr p \<Longrightarrow>
     rp_max_retries p = n \<and> (n > 0 \<longrightarrow> rp_kind p = OnFailure) \<and>
     (name = restart_kind_as_str (rp_kind p) \<or> name = '''' \<and> rp_kind p = RestartNo)"
  by (auto simp: restart_from_parts_def split: if_splits)

lemma restart_from_parts_as_str:
  assumes "rp_max_retries p > 0 \<longrightarrow> rp_kind p = OnFailure"
  shows "restart_from_parts (restart_kind_as_str (rp_kind p)) (rp_max_retries p) = Inr p"
  using assms by (cases "rp_kind p"; cases p) (auto simp: restart_from_parts_def)

section \<open>Guest options\<close>

record tmpfs_mount =
  tm_path :: string
  tm_options :: string

record ulimit =
  ul_name :: string
  ul_soft :: int
  ul_hard :: int

record healthcheck =
  hc_test :: "string list"
  hc_interval_ns :: nat
  hc_timeout_ns :: nat
  hc_start_period_ns :: nat
  hc_retries :: nat

record cgroup_limits =
  cg_memory_swap_bytes :: int
  cg_memory_reservation_bytes :: u64
  cg_cpu_shares :: u32
  cg_cpuset_cpus :: string
  cg_cpu_period :: u64
  cg_cpu_quota :: int

record cgroup_update =
  cu_memory_swap_bytes :: "int option"
  cu_memory_reservation_bytes :: "u64 option"
  cu_cpu_shares :: "u32 option"
  cu_cpuset_cpus :: "string option"
  cu_cpu_period :: "u64 option"
  cu_cpu_quota :: "int option"

definition default_cgroup_limits :: cgroup_limits where
  "default_cgroup_limits =
     \<lparr>cg_memory_swap_bytes = 0, cg_memory_reservation_bytes = 0, cg_cpu_shares = 0,
      cg_cpuset_cpus = '''', cg_cpu_period = 0, cg_cpu_quota = 0\<rparr>"

definition default_cgroup_update :: cgroup_update where
  "default_cgroup_update =
     \<lparr>cu_memory_swap_bytes = None, cu_memory_reservation_bytes = None, cu_cpu_shares = None,
      cu_cpuset_cpus = None, cu_cpu_period = None, cu_cpu_quota = None\<rparr>"

definition unwrap_or :: "'a option \<Rightarrow> 'a \<Rightarrow> 'a" where
  "unwrap_or u d = (case u of None \<Rightarrow> d | Some x \<Rightarrow> x)"

lemma unwrap_or_simps [simp]: "unwrap_or None d = d" "unwrap_or (Some x) d = x"
  by (simp_all add: unwrap_or_def)

definition cgroup_updated :: "cgroup_limits \<Rightarrow> cgroup_update \<Rightarrow> cgroup_limits" where
  "cgroup_updated self update =
     \<lparr>cg_memory_swap_bytes = unwrap_or (cu_memory_swap_bytes update) (cg_memory_swap_bytes self),
      cg_memory_reservation_bytes =
        unwrap_or (cu_memory_reservation_bytes update) (cg_memory_reservation_bytes self),
      cg_cpu_shares = unwrap_or (cu_cpu_shares update) (cg_cpu_shares self),
      cg_cpuset_cpus = unwrap_or (cu_cpuset_cpus update) (cg_cpuset_cpus self),
      cg_cpu_period = unwrap_or (cu_cpu_period update) (cg_cpu_period self),
      cg_cpu_quota = unwrap_or (cu_cpu_quota update) (cg_cpu_quota self)\<rparr>"

definition cgroup_undoing :: "cgroup_update \<Rightarrow> cgroup_limits \<Rightarrow> cgroup_update" where
  "cgroup_undoing self previous =
     \<lparr>cu_memory_swap_bytes =
        map_option (\<lambda>_. cg_memory_swap_bytes previous) (cu_memory_swap_bytes self),
      cu_memory_reservation_bytes =
        map_option (\<lambda>_. cg_memory_reservation_bytes previous) (cu_memory_reservation_bytes self),
      cu_cpu_shares = map_option (\<lambda>_. cg_cpu_shares previous) (cu_cpu_shares self),
      cu_cpuset_cpus = map_option (\<lambda>_. cg_cpuset_cpus previous) (cu_cpuset_cpus self),
      cu_cpu_period = map_option (\<lambda>_. cg_cpu_period previous) (cu_cpu_period self),
      cu_cpu_quota = map_option (\<lambda>_. cg_cpu_quota previous) (cu_cpu_quota self)\<rparr>"

lemma unwrap_or_undo [simp]:
  "unwrap_or (map_option (\<lambda>_. x) u) (unwrap_or u x) = x"
  by (cases u) simp_all

lemma cgroup_undo [simp]:
  "cgroup_updated (cgroup_updated c u) (cgroup_undoing u c) = c"
  by (simp add: cgroup_updated_def cgroup_undoing_def)

record guest_options =
  go_read_only_rootfs :: bool
  go_tmpfs :: "tmpfs_mount list"
  go_shm_size_bytes :: u64
  go_extra_hosts :: "string list"
  go_dns_search :: "string list"
  go_dns_options :: "string list"
  go_ulimits :: "ulimit list"
  go_group_add :: "string list"
  go_cgroup :: cgroup_limits
  go_healthcheck :: "healthcheck option"

definition default_guest_options :: guest_options where
  "default_guest_options =
     \<lparr>go_read_only_rootfs = False, go_tmpfs = [], go_shm_size_bytes = 0, go_extra_hosts = [],
      go_dns_search = [], go_dns_options = [], go_ulimits = [], go_group_add = [],
      go_cgroup = default_cgroup_limits, go_healthcheck = None\<rparr>"

definition DEFAULT_SHM_SIZE_BYTES :: u64 where
  "DEFAULT_SHM_SIZE_BYTES = 64 * 1024 * 1024"

definition shm_size :: "guest_options \<Rightarrow> u64" where
  "shm_size g = (if go_shm_size_bytes g = 0 then DEFAULT_SHM_SIZE_BYTES else go_shm_size_bytes g)"

section \<open>Addresses and ports\<close>

text \<open>\<open>std::net::IpAddr\<close>: four octets, or eight 16-bit segments.\<close>

datatype ip_addr =
    V4 u8 u8 u8 u8
  | V6 u16 u16 u16 u16 u16 u16 u16 u16

datatype port_protocol = Tcp | Udp

fun port_protocol_as_str :: "port_protocol \<Rightarrow> string" where
  "port_protocol_as_str Tcp = ''tcp''"
| "port_protocol_as_str Udp = ''udp''"

record published_port =
  pp_host_ip :: ip_addr
  pp_host_port :: u16
  pp_host_port_end :: u16
  pp_container_port :: u16
  pp_protocol :: port_protocol

record mount =
  mnt_source :: string
  mnt_target :: string
  mnt_readonly :: bool
  mnt_volume :: "string option"
  mnt_anonymous :: bool

section \<open>Sandbox specification\<close>

record sandbox_spec =
  sp_name :: string
  sp_command :: "string list"
  sp_entrypoint_len :: nat
  sp_workdir :: string
  sp_user :: string
  sp_tty :: bool
  sp_auto_remove :: bool
  sp_published_ports :: "published_port list"
  sp_image_digest :: string
  sp_labels :: "(string \<times> string) list"
  sp_hostname :: string
  sp_stop_signal :: string
  sp_stop_timeout :: "int option"
  sp_restart :: restart_policy
  sp_guest :: guest_options

definition DEFAULT_HOSTNAME_LEN :: nat where
  "DEFAULT_HOSTNAME_LEN = 12"

definition hostname_for :: "sandbox_spec \<Rightarrow> string \<Rightarrow> string" where
  "hostname_for spec sid =
     (if sp_hostname spec = '''' then take DEFAULT_HOSTNAME_LEN sid else sp_hostname spec)"

section \<open>Resource limits\<close>

record resource_limits =
  rl_cpus :: u32
  rl_memory_mb :: u32
  rl_pids_max :: u32
  rl_timeout_seconds :: u64
  rl_exited_ttl_seconds :: u64
  rl_nano_cpus :: u64

record default_limits =
  dl_cpus :: u32
  dl_memory_mb :: u32
  dl_pids_max :: u32

definition default_resource_limits :: resource_limits where
  "default_resource_limits =
     \<lparr>rl_cpus = 0, rl_memory_mb = 0, rl_pids_max = 0, rl_timeout_seconds = 0,
      rl_exited_ttl_seconds = 0, rl_nano_cpus = 0\<rparr>"

record limits_update =
  lu_memory_mb :: "u32 option"
  lu_nano_cpus :: "u64 option"
  lu_pids_max :: "u32 option"
  lu_cgroup :: cgroup_update

definition default_limits_update :: limits_update where
  "default_limits_update =
     \<lparr>lu_memory_mb = None, lu_nano_cpus = None, lu_pids_max = None,
      lu_cgroup = default_cgroup_update\<rparr>"

definition limits_update_is_empty :: "limits_update \<Rightarrow> bool" where
  "limits_update_is_empty u \<longleftrightarrow> u = default_limits_update"

definition BYTES_PER_MIB :: u64 where
  "BYTES_PER_MIB = 1024 * 1024"

definition NANOS_PER_CPU :: nat where
  "NANOS_PER_CPU = 1000000000"

text \<open>\<open>u64::div_ceil\<close>, then \<open>u32::try_from(..).unwrap_or(u32::MAX)\<close>.\<close>

definition whole_cpus :: "u64 \<Rightarrow> u32" where
  "whole_cpus nano_cpus =
     (let q = unat nano_cpus div NANOS_PER_CPU;
          c = (if unat nano_cpus mod NANOS_PER_CPU > 0 then q + 1 else q)
      in if c \<le> 4294967295 then of_nat c else 4294967295)"

definition limits_updated :: "resource_limits \<Rightarrow> limits_update \<Rightarrow> resource_limits" where
  "limits_updated self update =
     (let next1 = (case lu_memory_mb update of
                     Some memory_mb \<Rightarrow> self\<lparr>rl_memory_mb := memory_mb\<rparr> | None \<Rightarrow> self);
          next2 = (case lu_nano_cpus update of
                     Some nano_cpus \<Rightarrow>
                       (let n = next1\<lparr>rl_nano_cpus := nano_cpus\<rparr>
                        in if nano_cpus > 0 then n\<lparr>rl_cpus := whole_cpus nano_cpus\<rparr> else n)
                   | None \<Rightarrow> next1)
      in (case lu_pids_max update of
            Some pids_max \<Rightarrow> next2\<lparr>rl_pids_max := pids_max\<rparr> | None \<Rightarrow> next2))"

definition with_defaults :: "resource_limits \<Rightarrow> default_limits \<Rightarrow> resource_limits" where
  "with_defaults self defaults =
     (let or_default = (\<lambda>requested default. if requested = 0 then default else requested)
      in self\<lparr>rl_cpus := or_default (rl_cpus self) (dl_cpus defaults),
              rl_memory_mb := or_default (rl_memory_mb self) (dl_memory_mb defaults),
              rl_pids_max := or_default (rl_pids_max self) (dl_pids_max defaults)\<rparr>)"

text \<open>The CPU count of the next boot is the least that covers the CPU limit.\<close>

lemma whole_cpus_least:
  assumes "unat n \<le> 4294967295 * NANOS_PER_CPU"
  shows "unat n \<le> unat (whole_cpus n) * NANOS_PER_CPU"
    and "0 < n \<Longrightarrow> (unat (whole_cpus n) - 1) * NANOS_PER_CPU < unat n"
proof -
  define q r where "q = unat n div NANOS_PER_CPU" and "r = unat n mod NANOS_PER_CPU"
  let ?c = "if r > 0 then q + 1 else q"
  have n: "unat n = q * 1000000000 + r"
    using div_mult_mod_eq [of "unat n" NANOS_PER_CPU] unfolding q_def r_def
    by (simp add: NANOS_PER_CPU_def)
  have r: "r < 1000000000" by (simp add: r_def NANOS_PER_CPU_def)
  have c: "?c \<le> 4294967295"
    using assms n r by (auto simp: NANOS_PER_CPU_def)
  then have u: "unat (whole_cpus n) = ?c"
    by (auto simp: whole_cpus_def Let_def unat_of_nat take_bit_eq_mod q_def [symmetric]
        r_def [symmetric])
  show "unat n \<le> unat (whole_cpus n) * NANOS_PER_CPU"
    unfolding u using n r by (simp add: NANOS_PER_CPU_def)
  show "(unat (whole_cpus n) - 1) * NANOS_PER_CPU < unat n" if "0 < n"
    using that n r unfolding u by (cases q) (auto simp: NANOS_PER_CPU_def word_less_nat_alt)
qed

section \<open>Create options\<close>

record create_opts =
  co_image :: string
  co_mounts :: "mount list"
  co_volume_ids :: "string list"
  co_egress :: egress_policy
  co_resources :: resource_limits
  co_env :: "(string \<times> string) list"
  co_from_snapshot :: "string option"
  co_comms :: communication_policy
  co_spec :: sandbox_spec

section \<open>Signals\<close>

definition SIGKILL :: int where "SIGKILL = 9"

definition SIGTERM :: int where "SIGTERM = 15"

definition MAX_SIGNAL :: int where "MAX_SIGNAL = 64"

definition SIGNALS :: "(string \<times> int) list" where
  "SIGNALS =
     [(''HUP'', 1), (''INT'', 2), (''QUIT'', 3), (''ILL'', 4), (''TRAP'', 5), (''ABRT'', 6),
      (''BUS'', 7), (''FPE'', 8), (''KILL'', 9), (''USR1'', 10), (''SEGV'', 11), (''USR2'', 12),
      (''PIPE'', 13), (''ALRM'', 14), (''TERM'', 15), (''CHLD'', 17), (''CONT'', 18),
      (''STOP'', 19), (''TSTP'', 20), (''TTIN'', 21), (''TTOU'', 22), (''URG'', 23),
      (''XCPU'', 24), (''XFSZ'', 25), (''VTALRM'', 26), (''PROF'', 27), (''WINCH'', 28),
      (''IO'', 29), (''PWR'', 30), (''SYS'', 31)]"

definition signal_parse :: "string \<Rightarrow> int option" where
  "signal_parse text =
     (case parse_i32 text of
        Some number \<Rightarrow> if 1 \<le> number \<and> number \<le> MAX_SIGNAL then Some number else None
      | None \<Rightarrow>
          (let upper = to_ascii_uppercase text;
               name = unwrap_or (strip_prefix ''SIG'' upper) upper
           in map_option snd (find (\<lambda>(known, _). known = name) SIGNALS)))"

lemma find_snd_in:
  "map_option snd (find P xs) = Some y \<Longrightarrow> y \<in> snd ` set xs"
  by (induction xs) (auto split: if_splits)

lemma SIGNALS_range: "y \<in> snd ` set SIGNALS \<Longrightarrow> 1 \<le> y \<and> y \<le> 31"
  by (auto simp: SIGNALS_def)

lemma signal_parse_range: "signal_parse text = Some n \<Longrightarrow> 1 \<le> n \<and> n \<le> MAX_SIGNAL"
  using find_snd_in [THEN SIGNALS_range]
  by (fastforce simp: signal_parse_def Let_def MAX_SIGNAL_def split: option.splits if_splits)

end
