(* ===== verification/Addr.thy ===== *)
theory Addr
  imports Protocol
begin

unbundle bit_operations_syntax

text \<open>
  IP addresses as the Rust standard library reads them (\<open>"..".parse::<IpAddr>()\<close>), for the
  host addresses of published ports, \<open>--add-host\<close> entries and CONNECT targets, and the
  classification of addresses (\<open>Ipv4Addr::is_private\<close> and its kin) the egress proxy uses.
  The reader keeps the library's order: an IPv4 address first, then IPv6 groups up to \<open>::\<close>,
  an embedded IPv4 tail where two groups are left, and no text after the address.
\<close>

section \<open>Reading addresses\<close>

definition hex_val :: "char \<Rightarrow> nat option" where
  "hex_val c =
     (if is_ascii_digit c then Some (byte c - 48)
      else if 97 \<le> byte c \<and> byte c \<le> 102 then Some (byte c - 87)
      else if 65 \<le> byte c \<and> byte c \<le> 70 then Some (byte c - 55)
      else None)"

text \<open>At most \<open>max_digits\<close> digits of a group: the value, the count and the rest.\<close>

fun read_hex :: "nat \<Rightarrow> string \<Rightarrow> nat \<Rightarrow> nat \<Rightarrow> nat \<times> nat \<times> string" where
  "read_hex 0 s n v = (v, n, s)"
| "read_hex (Suc k) [] n v = (v, n, [])"
| "read_hex (Suc k) (c # cs) n v =
     (case hex_val c of None \<Rightarrow> (v, n, c # cs) | Some d \<Rightarrow> read_hex k cs (Suc n) (16 * v + d))"

text \<open>\<open>read_number(16, Some(4), true)\<close>: a fifth digit makes the number fail.\<close>

definition read_group :: "string \<Rightarrow> (nat \<times> string) option" where
  "read_group s =
     (let (v, n, r) = read_hex 4 s 0 0
      in if n = 0 then None
         else case r of
                c # _ \<Rightarrow> if hex_val c \<noteq> None then None else Some (v, r)
              | [] \<Rightarrow> Some (v, r))"

fun take_digits :: "string \<Rightarrow> string \<times> string" where
  "take_digits [] = ([], [])"
| "take_digits (c # cs) =
     (if is_ascii_digit c then (let (a, b) = take_digits cs in (c # a, b)) else ([], c # cs))"

text \<open>\<open>read_number(10, Some(3), false)\<close> into a \<open>u8\<close>: no leading zero, at most three digits.\<close>

definition read_octet :: "string \<Rightarrow> (nat \<times> string) option" where
  "read_octet s =
     (let (ds, r) = take_digits s
      in if ds = [] \<or> length ds > 3 \<or> (length ds > 1 \<and> hd ds = CHR ''0'') \<or> dec_val ds > 255
         then None else Some (dec_val ds, r))"

definition read_char :: "char \<Rightarrow> string \<Rightarrow> string option" where
  "read_char c s = (case s of x # xs \<Rightarrow> if x = c then Some xs else None | [] \<Rightarrow> None)"

text \<open>\<open>read_separator\<close>: every item but the first follows a separator.\<close>

definition read_separated :: "char \<Rightarrow> nat \<Rightarrow> (string \<Rightarrow> ('a \<times> string) option) \<Rightarrow> string \<Rightarrow> ('a \<times> string) option"
  where
  "read_separated c i f s = (if i > 0 then Option.bind (read_char c s) f else f s)"

definition read_ipv4 :: "string \<Rightarrow> ((nat \<times> nat \<times> nat \<times> nat) \<times> string) option" where
  "read_ipv4 s =
     Option.bind (read_octet s) (\<lambda>(a, s).
     Option.bind (read_separated (CHR ''.'') 1 read_octet s) (\<lambda>(b, s).
     Option.bind (read_separated (CHR ''.'') 2 read_octet s) (\<lambda>(c, s).
     Option.bind (read_separated (CHR ''.'') 3 read_octet s) (\<lambda>(d, s).
       Some ((a, b, c, d), s)))))"

text \<open>
  \<open>read_groups\<close> over a slice of \<open>limit\<close> groups, from index \<open>i\<close>: the groups read, whether an
  embedded IPv4 address ended them, and the rest. \<open>k\<close> is the number of slots left.
\<close>

fun read_groups :: "nat \<Rightarrow> nat \<Rightarrow> string \<Rightarrow> nat list \<times> bool \<times> string" where
  "read_groups 0 i s = ([], False, s)"
| "read_groups (Suc k) i s =
     (case (if k > 0 then read_separated (CHR '':'') i read_ipv4 s else None) of
        Some ((a, b, c, d), r) \<Rightarrow> ([256 * a + b, 256 * c + d], True, r)
      | None \<Rightarrow>
          (case read_separated (CHR '':'') i read_group s of
             None \<Rightarrow> ([], False, s)
           | Some (g, r) \<Rightarrow>
               (let (gs, v4, r') = read_groups k (Suc i) r in (g # gs, v4, r'))))"

definition read_ipv6 :: "string \<Rightarrow> (nat list \<times> string) option" where
  "read_ipv6 s =
     (let (head, head_v4, r) = read_groups 8 0 s
      in if length head = 8 then Some (head, r)
         else if head_v4 then None
         else Option.bind (read_char (CHR '':'') r) (\<lambda>r.
              Option.bind (read_char (CHR '':'') r) (\<lambda>r.
                let (tail, _, r') = read_groups (8 - (length head + 1)) 0 r
                in Some (head @ replicate (8 - length head - length tail) 0 @ tail, r'))))"

definition v6_of_groups :: "nat list \<Rightarrow> ip_addr" where
  "v6_of_groups gs =
     V6 (of_nat (gs ! 0)) (of_nat (gs ! 1)) (of_nat (gs ! 2)) (of_nat (gs ! 3))
        (of_nat (gs ! 4)) (of_nat (gs ! 5)) (of_nat (gs ! 6)) (of_nat (gs ! 7))"

definition parse_ip :: "string \<Rightarrow> ip_addr option" where
  "parse_ip s =
     (case (case read_ipv4 s of
              Some ((a, b, c, d), r) \<Rightarrow> Some (V4 (of_nat a) (of_nat b) (of_nat c) (of_nat d), r)
            | None \<Rightarrow> map_option (\<lambda>(gs, r). (v6_of_groups gs, r)) (read_ipv6 s)) of
        Some (ip, []) \<Rightarrow> Some ip
      | _ \<Rightarrow> None)"

lemma read_groups_length: "length (fst (read_groups k i s)) \<le> k"
proof (induction k i s rule: read_groups.induct)
  case (2 k i s)
  show ?case
  proof (cases "if k > 0 then read_separated (CHR '':'') i read_ipv4 s else None")
    case None
    then show ?thesis
      using 2 by (cases "read_separated (CHR '':'') i read_group s")
        (auto simp: Let_def split: prod.splits)
  next
    case (Some v)
    then show ?thesis by (cases v) (auto split: if_splits prod.splits)
  qed
qed simp

text \<open>The reader fills exactly the eight segments of an IPv6 address.\<close>

lemma read_ipv6_length:
  assumes "read_ipv6 s = Some (gs, r)"
  shows "length gs = 8"
proof -
  obtain head v4 r1 where h: "read_groups 8 0 s = (head, v4, r1)"
    by (metis prod_cases3)
  have "length head \<le> 8"
    using read_groups_length [of 8 0 s] by (simp add: h)
  show ?thesis
  proof (cases "length head = 8")
    case True
    then show ?thesis using assms by (simp add: read_ipv6_def h)
  next
    case False
    define k where "k = 7 - length head"
    obtain r2 tail v r3 where t: "read_groups k 0 r2 = (tail, v, r3)"
      and "gs = head @ replicate (8 - length head - length tail) 0 @ tail"
      using assms False unfolding read_ipv6_def h Let_def k_def
      by (auto split: if_splits prod.splits bind_splits)
    moreover have "length tail \<le> k"
      using read_groups_length [of k 0 r2] by (simp add: t)
    ultimately show ?thesis
      using \<open>length head \<le> 8\<close> False by (auto simp: k_def)
  qed
qed

section \<open>Classes of addresses\<close>

definition v4_is_private :: "u8 \<Rightarrow> u8 \<Rightarrow> bool" where
  "v4_is_private a b \<longleftrightarrow> a = 10 \<or> (a = 172 \<and> 16 \<le> b \<and> b \<le> 31) \<or> (a = 192 \<and> b = 168)"

definition v4_is_loopback :: "u8 \<Rightarrow> bool" where
  "v4_is_loopback a \<longleftrightarrow> a = 127"

definition v4_is_link_local :: "u8 \<Rightarrow> u8 \<Rightarrow> bool" where
  "v4_is_link_local a b \<longleftrightarrow> a = 169 \<and> b = 254"

definition v4_is_multicast :: "u8 \<Rightarrow> bool" where
  "v4_is_multicast a \<longleftrightarrow> 224 \<le> a \<and> a \<le> 239"

definition v4_is_unspecified :: "u8 \<Rightarrow> u8 \<Rightarrow> u8 \<Rightarrow> u8 \<Rightarrow> bool" where
  "v4_is_unspecified a b c d \<longleftrightarrow> a = 0 \<and> b = 0 \<and> c = 0 \<and> d = 0"

definition v4_is_broadcast :: "u8 \<Rightarrow> u8 \<Rightarrow> u8 \<Rightarrow> u8 \<Rightarrow> bool" where
  "v4_is_broadcast a b c d \<longleftrightarrow> a = 255 \<and> b = 255 \<and> c = 255 \<and> d = 255"

text \<open>\<open>Ipv6Addr::to_ipv4_mapped\<close>: the address of \<open>::ffff:a.b.c.d\<close>.\<close>

fun to_ipv4_mapped :: "ip_addr \<Rightarrow> ip_addr option" where
  "to_ipv4_mapped (V6 s0 s1 s2 s3 s4 s5 s6 s7) =
     (if s0 = 0 \<and> s1 = 0 \<and> s2 = 0 \<and> s3 = 0 \<and> s4 = 0 \<and> s5 = 0xFFFF
      then Some (V4 (ucast (drop_bit 8 s6)) (ucast s6) (ucast (drop_bit 8 s7)) (ucast s7))
      else None)"
| "to_ipv4_mapped (V4 _ _ _ _) = None"

definition v6_is_unspecified :: "u16 list \<Rightarrow> bool" where
  "v6_is_unspecified seg \<longleftrightarrow> seg = [0, 0, 0, 0, 0, 0, 0, 0]"

definition v6_is_loopback :: "u16 list \<Rightarrow> bool" where
  "v6_is_loopback seg \<longleftrightarrow> seg = [0, 0, 0, 0, 0, 0, 0, 1]"

definition LOCALHOST :: ip_addr where
  "LOCALHOST = V4 127 0 0 1"

fun ip_is_unspecified :: "ip_addr \<Rightarrow> bool" where
  "ip_is_unspecified (V4 a b c d) = v4_is_unspecified a b c d"
| "ip_is_unspecified (V6 a b c d e f g h) = v6_is_unspecified [a, b, c, d, e, f, g, h]"

end
