(* ===== verification/Validate.thy ===== *)
theory Validate
  imports Addr
begin

text \<open>
  Input validation of request fields, \<open>ward-core/src/validate.rs\<close>: every validator of the file in
  its order, with the source's limits, checks and error texts. The lemmas after them give what an
  accepted value may contain, which the manager, the broker and the volume store rely on.
\<close>

section \<open>Request types\<close>

record secret_file =
  sf_name :: string
  sf_content :: bytes

record port_mapping =
  pm_host_ip :: string
  pm_host_port :: u32
  pm_container_port :: u32
  pm_protocol :: string
  pm_host_port_end :: u32

record pb_restart_policy =
  prp_name :: string
  prp_maximum_retry_count :: u32

definition invalid :: "string \<Rightarrow> msg_arg list \<Rightarrow> api_error" where
  "invalid fmt args = InvalidRequest (Msg fmt args)"

section \<open>Limits\<close>

definition MAX_CPUS :: u32 where "MAX_CPUS = 64"
definition MAX_MEMORY_MB :: u32 where "MAX_MEMORY_MB = 65536"
definition MAX_PIDS :: u32 where "MAX_PIDS = 65536"
definition MAX_TIMEOUT_SECONDS :: u64 where "MAX_TIMEOUT_SECONDS = 2592000"
definition MAX_VOLUME_SIZE_MB :: u32 where "MAX_VOLUME_SIZE_MB = 1048576"
definition MAX_TOPIC_LEN :: nat where "MAX_TOPIC_LEN = 128"
definition MAX_GUEST_PATH_LEN :: nat where "MAX_GUEST_PATH_LEN = 4096"
definition MAX_GROUP_LEN :: nat where "MAX_GROUP_LEN = 64"
definition MAX_USER_SPEC_LEN :: nat where "MAX_USER_SPEC_LEN = 256"
definition MAX_EGRESS_DOMAINS :: nat where "MAX_EGRESS_DOMAINS = 256"
definition MAX_DOMAIN_LEN :: nat where "MAX_DOMAIN_LEN = 253"
definition MAX_DOMAIN_LABEL_LEN :: nat where "MAX_DOMAIN_LABEL_LEN = 63"
definition MAX_SANDBOX_NAME_LEN :: nat where "MAX_SANDBOX_NAME_LEN = 64"
definition MAX_PUBLISH_PAYLOAD_BYTES :: nat where "MAX_PUBLISH_PAYLOAD_BYTES = 1048576"
definition MAX_LABELS :: nat where "MAX_LABELS = 128"
definition MAX_LABEL_KEY_LEN :: nat where "MAX_LABEL_KEY_LEN = 256"
definition MAX_LABEL_VALUE_LEN :: nat where "MAX_LABEL_VALUE_LEN = 4096"
definition MAX_HOSTNAME_LEN :: nat where "MAX_HOSTNAME_LEN = 64"
definition ANONYMOUS_VOLUME_NAME_LEN :: nat where "ANONYMOUS_VOLUME_NAME_LEN = 64"
definition MAX_SECRETS :: nat where "MAX_SECRETS = 16"
definition MAX_SECRET_BYTES :: nat where "MAX_SECRET_BYTES = 64 * 1024"
definition MAX_SECRET_NAME_LEN :: nat where "MAX_SECRET_NAME_LEN = 255"
definition MAX_PUBLISHED_PORTS :: nat where "MAX_PUBLISHED_PORTS = 64"

lemmas validate_limits =
  MAX_CPUS_def MAX_MEMORY_MB_def MAX_PIDS_def MAX_TIMEOUT_SECONDS_def MAX_VOLUME_SIZE_MB_def
  MAX_TOPIC_LEN_def MAX_GUEST_PATH_LEN_def MAX_GROUP_LEN_def MAX_USER_SPEC_LEN_def
  MAX_EGRESS_DOMAINS_def MAX_DOMAIN_LEN_def MAX_DOMAIN_LABEL_LEN_def MAX_SANDBOX_NAME_LEN_def
  MAX_PUBLISH_PAYLOAD_BYTES_def MAX_LABELS_def MAX_LABEL_KEY_LEN_def MAX_LABEL_VALUE_LEN_def
  MAX_HOSTNAME_LEN_def ANONYMOUS_VOLUME_NAME_LEN_def MAX_SECRETS_def MAX_SECRET_BYTES_def
  MAX_SECRET_NAME_LEN_def MAX_PUBLISHED_PORTS_def

section \<open>Images, limits and labels\<close>

definition image_ref :: "string \<Rightarrow> unit result" where
  "image_ref img =
     and_then (err_when (img = '''') (invalid ''image reference must not be empty'' [])) (\<lambda>_.
     and_then (err_when (length img > 255)
                 (invalid ''image reference exceeds 255 characters'' [])) (\<lambda>_.
     and_then (err_when (contains_str img ''..'')
                 (invalid ''image reference must not contain '..' '' [])) (\<lambda>_.
     err_when (\<not> list_all (\<lambda>c. is_ascii_alphanumeric c \<or> c \<in> set '':/._-@'') img)
       (invalid ''image reference contains characters outside the OCI grammar (allowed: alphanumerics, ':', '/', '.', '_', '-', '@')'' []))))"

definition resource_limits_ok :: "u32 \<Rightarrow> u32 \<Rightarrow> u32 \<Rightarrow> u64 \<Rightarrow> unit result" where
  "resource_limits_ok cpus memory_mb pids_max timeout_seconds =
     and_then (err_when (cpus > MAX_CPUS) (invalid ''cpus must be <= {MAX_CPUS}'' [])) (\<lambda>_.
     and_then (err_when (memory_mb > MAX_MEMORY_MB)
                 (invalid ''memory_mb must be <= {MAX_MEMORY_MB}'' [])) (\<lambda>_.
     and_then (err_when (pids_max > MAX_PIDS)
                 (invalid ''pids_max must be <= {MAX_PIDS}'' [])) (\<lambda>_.
     err_when (timeout_seconds > MAX_TIMEOUT_SECONDS)
       (invalid ''timeout_seconds must be <= {MAX_TIMEOUT_SECONDS}'' []))))"

definition exited_ttl :: "u64 \<Rightarrow> unit result" where
  "exited_ttl seconds =
     err_when (seconds > MAX_TIMEOUT_SECONDS)
       (invalid ''exited_ttl_seconds must be <= {MAX_TIMEOUT_SECONDS}'' [])"

definition label_ok :: "string \<times> string \<Rightarrow> unit result" where
  "label_ok kv =
     (case kv of (key, val) \<Rightarrow>
       and_then (err_when (key = '''' \<or> length key > MAX_LABEL_KEY_LEN \<or> has_control key)
                   (invalid ''label key must be 1 to {MAX_LABEL_KEY_LEN} bytes without control characters'' [])) (\<lambda>_.
       err_when (length val > MAX_LABEL_VALUE_LEN)
         (invalid ''label value for '{key}' exceeds {MAX_LABEL_VALUE_LEN} bytes'' [S key])))"

definition labels :: "(string \<times> string) list \<Rightarrow> unit result" where
  "labels ls =
     and_then (err_when (length ls > MAX_LABELS)
                 (invalid ''at most {MAX_LABELS} labels are allowed'' [])) (\<lambda>_.
     try_each label_ok ls)"

definition hostname :: "string \<Rightarrow> unit result" where
  "hostname name =
     (let first_ok = (case name of [] \<Rightarrow> True | c # _ \<Rightarrow> is_ascii_alphanumeric c);
          chars_ok = list_all (\<lambda>c. is_ascii_alphanumeric c \<or> c \<in> set ''-._'') name
      in err_when (length name > MAX_HOSTNAME_LEN \<or> \<not> first_ok \<or> \<not> chars_ok)
           (invalid ''hostname must be at most {MAX_HOSTNAME_LEN} characters of letters, digits, '-', '.' and '_', starting with a letter or digit'' []))"

definition stop_signal :: "string \<Rightarrow> unit result" where
  "stop_signal sig =
     err_when (sig \<noteq> '''' \<and> signal_parse sig = None) (invalid ''invalid stop signal: {signal}'' [S sig])"

definition stop_timeout :: "int option \<Rightarrow> unit result" where
  "stop_timeout seconds =
     (let in_range = (\<lambda>s. s = -1 \<or> (0 \<le> s \<and> s \<le> uint MAX_TIMEOUT_SECONDS))
      in err_when (case seconds of None \<Rightarrow> False | Some s \<Rightarrow> \<not> in_range s)
           (invalid ''stop_timeout must be -1 or from 0 to {MAX_TIMEOUT_SECONDS}'' []))"

definition restart_policy_ok :: "pb_restart_policy option \<Rightarrow> bool \<Rightarrow> restart_policy result" where
  "restart_policy_ok policy auto_remove =
     and_then
       (case (case policy of
                None \<Rightarrow> Inr default_restart_policy
              | Some p \<Rightarrow> restart_from_parts (prp_name p) (prp_maximum_retry_count p)) of
          Inl m \<Rightarrow> Inl (InvalidRequest m) | Inr p \<Rightarrow> Inr p)
       (\<lambda>policy. and_then
          (err_when (auto_remove \<and> rp_kind policy \<noteq> RestartNo)
             (invalid ''conflicting options: a restart policy and auto_remove'' []))
          (\<lambda>_. Inr policy))"

section \<open>Volumes and mounts\<close>

definition volume_name :: "string \<Rightarrow> unit result" where
  "volume_name name =
     and_then (err_when (name = '''') (invalid ''volume name must not be empty'' [])) (\<lambda>_.
     and_then (err_when (length name > 64) (invalid ''volume name exceeds 64 characters'' [])) (\<lambda>_.
     let starts_ok = (case name of c # _ \<Rightarrow> is_ascii_alphanumeric c | [] \<Rightarrow> False)
     in err_when (\<not> starts_ok \<or> \<not> list_all (\<lambda>c. is_ascii_alphanumeric c \<or> c \<in> set ''-_.'') name)
          (invalid ''invalid volume name {name}: it must start with a letter or digit and contain only letters, digits, '-', '_' and '.' '' [S name])))"

definition is_lower_hex :: "char \<Rightarrow> bool" where
  "is_lower_hex b \<longleftrightarrow> is_ascii_digit b \<or> (97 \<le> byte b \<and> byte b \<le> 102)"

definition anonymous_volume_name :: "string \<Rightarrow> unit result" where
  "anonymous_volume_name name =
     (let hex = (length name = ANONYMOUS_VOLUME_NAME_LEN \<and> list_all is_lower_hex name)
      in if hex then Inr ()
         else Inl (invalid ''an anonymous volume needs a name of {ANONYMOUS_VOLUME_NAME_LEN} lowercase hex characters'' []))"

definition volume_size :: "u32 \<Rightarrow> unit result" where
  "volume_size size_mb =
     and_then (err_when (size_mb = 0) (invalid ''volume size_mb must be greater than 0'' [])) (\<lambda>_.
     err_when (size_mb > MAX_VOLUME_SIZE_MB)
       (invalid ''volume size_mb {size_mb} exceeds maximum {MAX_VOLUME_SIZE_MB} MiB (1 TiB)'' [N (unat size_mb)]))"

definition mount_path_shape :: "string \<Rightarrow> string \<Rightarrow> unit result" where
  "mount_path_shape label path =
     and_then (err_when (path = '''') (invalid ''mount {label} must not be empty'' [S label])) (\<lambda>_.
     and_then (err_when (\<not> starts_with path ''/'')
                 (invalid ''mount {label} must be an absolute path: {path}'' [S label, S path])) (\<lambda>_.
     err_when (list_ex (\<lambda>c. c = ''..'') (split_on (CHR ''/'') path))
       (invalid ''mount {label} must not contain '..': {path}'' [S label, S path])))"

definition volume_mount :: "string \<Rightarrow> string \<Rightarrow> unit result" where
  "volume_mount name target = and_then (volume_name name) (\<lambda>_. mount_path_shape ''target'' target)"

definition ALLOWED :: "string list" where
  "ALLOWED = [''/home/'', ''/tmp/'', ''/var/lib/ward/'']"

definition is_default_allowed_source :: "string \<Rightarrow> bool" where
  "is_default_allowed_source path \<longleftrightarrow>
     path = ''/tmp'' \<or> path = ''/var/lib/ward'' \<or> list_ex (starts_with path) ALLOWED"

definition SENSITIVE :: "string list" where
  "SENSITIVE = [''/proc'', ''/sys'', ''/dev'', ''/etc'', ''/root'', ''/boot'', ''/usr'', ''/run'',
     ''/var/run'', ''/lib'', ''/bin'', ''/sbin'']"

definition is_sensitive_host_path :: "string \<Rightarrow> bool" where
  "is_sensitive_host_path path \<longleftrightarrow>
     list_ex (\<lambda>root. path = root \<or> starts_with path (root @ ''/'')) SENSITIVE"

definition mount_ok :: "string \<Rightarrow> string \<Rightarrow> bool \<Rightarrow> bool \<Rightarrow> unit result" where
  "mount_ok source target readonly allow_host =
     and_then (mount_path_shape ''source'' source) (\<lambda>_.
     and_then (mount_path_shape ''target'' target) (\<lambda>_.
     and_then (err_when (\<not> allow_host \<and> \<not> is_default_allowed_source source)
                 (invalid ''mount source {source} is outside the default allowlist (/home/, /tmp/, /var/lib/ward/); set WARD_ALLOW_HOST_MOUNTS=1 on the daemon to permit arbitrary host paths'' [S source])) (\<lambda>_.
     err_when (is_sensitive_host_path source \<and> \<not> readonly)
       (invalid ''mount source {source} is a sensitive system path (/proc, /sys, /dev, /etc, /root, /boot, /usr, /run, /var/run, /lib, /bin, /sbin); readonly: true is required for these roots'' [S source]))))"

section \<open>Identifiers\<close>

definition is_reference_char :: "char \<Rightarrow> bool" where
  "is_reference_char c \<longleftrightarrow> is_ascii_alphanumeric c \<or> c \<in> set ''_.-''"

definition is_id_char :: "char \<Rightarrow> bool" where
  "is_id_char c \<longleftrightarrow> is_lower_hex c \<or> c = CHR ''-''"

definition entity_id :: "string \<Rightarrow> string \<Rightarrow> unit result" where
  "entity_id i entity =
     and_then (err_when (i = '''') (invalid ''{entity} ID must not be empty'' [S entity])) (\<lambda>_.
     and_then (err_when (length i > 36)
                 (invalid ''{entity} ID exceeds 36 characters'' [S entity])) (\<lambda>_.
     err_when (\<not> list_all is_id_char i)
       (invalid ''{entity} ID contains invalid characters (allowed: lowercase hex digits and '-')'' [S entity])))"

definition sandbox_name :: "string \<Rightarrow> unit result" where
  "sandbox_name name =
     and_then (err_when (name = '''') (invalid ''sandbox name must not be empty'' [])) (\<lambda>_.
     and_then (err_when (length name > MAX_SANDBOX_NAME_LEN)
                 (invalid ''sandbox name exceeds {MAX_SANDBOX_NAME_LEN} characters'' [])) (\<lambda>_.
     and_then (err_when (\<not> (case name of c # _ \<Rightarrow> is_ascii_alphanumeric c | [] \<Rightarrow> False) \<or>
                         \<not> list_all is_reference_char name)
                 (invalid ''sandbox name must start with a letter or digit and contain only letters, digits, '_', '.' and '-' '' [])) (\<lambda>_.
     err_when (list_all is_id_char name)
       (invalid ''sandbox name must not be made only of lowercase hex digits and '-', because it could be an id or an id prefix'' []))))"

definition sandbox_reference :: "string \<Rightarrow> unit result" where
  "sandbox_reference reference =
     and_then (err_when (reference = '''') (invalid ''sandbox name or ID must not be empty'' [])) (\<lambda>_.
     and_then (err_when (length reference > MAX_SANDBOX_NAME_LEN)
                 (invalid ''sandbox name or ID exceeds {MAX_SANDBOX_NAME_LEN} characters'' [])) (\<lambda>_.
     err_when (\<not> list_all is_reference_char reference)
       (invalid ''sandbox name or ID contains invalid characters'' [])))"

definition guest_path :: "string \<Rightarrow> unit result" where
  "guest_path path =
     and_then (err_when (\<not> starts_with path ''/'') (invalid ''sandbox path must be absolute'' [])) (\<lambda>_.
     err_when (length path > MAX_GUEST_PATH_LEN \<or> CHR 0x00 \<in> set path)
       (invalid ''sandbox path must be at most {MAX_GUEST_PATH_LEN} bytes with no NUL'' []))"

definition exec_command :: "string list \<Rightarrow> unit result" where
  "exec_command command =
     (case command of
        [] \<Rightarrow> Inl (invalid ''command must not be empty'' [])
      | exe # _ \<Rightarrow> err_when (exe = '''') (invalid ''command executable must not be empty'' []))"

definition user_spec :: "string \<Rightarrow> unit result" where
  "user_spec spec =
     err_when (length spec > MAX_USER_SPEC_LEN \<or> has_control spec)
       (invalid ''user must be at most {MAX_USER_SPEC_LEN} bytes with no control characters'' [])"

section \<open>Secrets\<close>

definition secret_name :: "string \<Rightarrow> unit result" where
  "secret_name name =
     err_when (name = '''' \<or> length name > MAX_SECRET_NAME_LEN \<or>
               list_all (\<lambda>c. c = CHR ''.'') name \<or>
               CHR ''/'' \<in> set name \<or> CHR 0x00 \<in> set name \<or> has_control name)
       (invalid ''secret name must be 1 to {MAX_SECRET_NAME_LEN} bytes with no slash, control character, or only dots: {name:?}'' [S name])"

fun secrets_from :: "string list \<Rightarrow> secret_file list \<Rightarrow> unit result" where
  "secrets_from seen [] = Inr ()"
| "secrets_from seen (file # files) =
     and_then (secret_name (sf_name file)) (\<lambda>_.
     and_then (err_when (length (sf_content file) > MAX_SECRET_BYTES)
                 (invalid ''secret {:?} is over {MAX_SECRET_BYTES} bytes'' [S (sf_name file)])) (\<lambda>_.
     and_then (err_when (sf_name file \<in> set seen)
                 (invalid ''secret {:?} is given more than once'' [S (sf_name file)])) (\<lambda>_.
     secrets_from (sf_name file # seen) files)))"

definition secrets :: "secret_file list \<Rightarrow> unit result" where
  "secrets files =
     and_then (err_when (length files > MAX_SECRETS)
                 (invalid ''at most {MAX_SECRETS} secrets can be given'' [])) (\<lambda>_.
     secrets_from [] files)"

section \<open>Published ports\<close>

text \<open>\<open>u16::try_from(u32)\<close>.\<close>

definition u16_of_u32 :: "u32 \<Rightarrow> u16 option" where
  "u16_of_u32 n = (if n \<le> 65535 then Some (ucast n) else None)"

definition published_port_of :: "port_mapping \<Rightarrow> published_port result" where
  "published_port_of m =
     and_then (if pm_protocol m = '''' \<or> pm_protocol m = ''tcp'' then Inr Tcp
               else if pm_protocol m = ''udp'' then Inr Udp
               else Inl (invalid ''unsupported protocol {other}: only tcp and udp ports can be published'' [S (pm_protocol m)])) (\<lambda>protocol.
     and_then (if pm_host_ip m = '''' then Inr LOCALHOST
               else case parse_ip (pm_host_ip m) of
                      Some ip \<Rightarrow> Inr ip
                    | None \<Rightarrow> Inl (invalid ''invalid host address {}'' [S (pm_host_ip m)])) (\<lambda>host_ip.
     and_then (case u16_of_u32 (pm_host_port m) of
                 Some p \<Rightarrow> Inr p
               | None \<Rightarrow> Inl (invalid ''host port {} is out of range'' [N (unat (pm_host_port m))])) (\<lambda>host_port.
     and_then (case u16_of_u32 (pm_container_port m) of
                 Some p \<Rightarrow> if p \<noteq> 0 then Inr p
                           else Inl (invalid ''container port {} must be between 1 and 65535'' [N (unat (pm_container_port m))])
               | None \<Rightarrow> Inl (invalid ''container port {} must be between 1 and 65535'' [N (unat (pm_container_port m))])) (\<lambda>container_port.
     and_then (case u16_of_u32 (pm_host_port_end m) of
                 Some p \<Rightarrow> Inr p
               | None \<Rightarrow> Inl (invalid ''host port {} is out of range'' [N (unat (pm_host_port_end m))])) (\<lambda>host_port_end.
     if host_port_end \<noteq> 0 \<and> (host_port = 0 \<or> host_port_end < host_port)
     then Inl (invalid ''invalid host port range {host_port}-{host_port_end}'' [N (unat host_port), N (unat host_port_end)])
     else Inr \<lparr>pp_host_ip = host_ip, pp_host_port = host_port, pp_host_port_end = host_port_end,
               pp_container_port = container_port, pp_protocol = protocol\<rparr>)))))"

text \<open>An address as message arguments: its octets or segments.\<close>

fun ip_args :: "ip_addr \<Rightarrow> msg_arg list" where
  "ip_args (V4 a b c d) = map (\<lambda>w. N (unat w)) [a, b, c, d]"
| "ip_args (V6 a b c d e f g h) = map (\<lambda>w. N (unat w)) [a, b, c, d, e, f, g, h]"

definition is_fixed_port :: "published_port \<Rightarrow> bool" where
  "is_fixed_port port \<longleftrightarrow> pp_host_port port \<noteq> 0 \<and> pp_host_port_end port = 0"

definition port_key :: "published_port \<Rightarrow> ip_addr \<times> u16 \<times> port_protocol" where
  "port_key port = (pp_host_ip port, pp_host_port port, pp_protocol port)"

fun claim_ports :: "(ip_addr \<times> u16 \<times> port_protocol) list \<Rightarrow> published_port list \<Rightarrow> unit result" where
  "claim_ports claimed [] = Inr ()"
| "claim_ports claimed (port # ports) =
     and_then (err_when (port_key port \<in> set claimed)
                 (invalid ''host port {}:{}/{} is published more than once''
                    (ip_args (pp_host_ip port) @
                     [N (unat (pp_host_port port)), S (port_protocol_as_str (pp_protocol port))]))) (\<lambda>_.
     claim_ports (port_key port # claimed) ports)"

definition published_ports :: "port_mapping list \<Rightarrow> published_port list result" where
  "published_ports mappings =
     and_then (err_when (length mappings > MAX_PUBLISHED_PORTS)
                 (invalid ''at most {MAX_PUBLISHED_PORTS} ports can be published'' [])) (\<lambda>_.
     and_then (collect_results published_port_of mappings) (\<lambda>ports.
     and_then (claim_ports [] (filter is_fixed_port ports)) (\<lambda>_. Inr ports)))"

section \<open>Languages, topics, groups, domains\<close>

definition language_name :: "string \<Rightarrow> unit result" where
  "language_name language =
     and_then (err_when (language = '''') (invalid ''language must not be empty'' [])) (\<lambda>_.
     err_when (\<not> list_all (\<lambda>c. is_ascii_alphanumeric c \<or> c = CHR ''_'') language)
       (invalid ''language name contains invalid characters'' []))"

definition topic_name :: "string \<Rightarrow> unit result" where
  "topic_name topic =
     and_then (err_when (topic = '''') (invalid ''topic must not be empty'' [])) (\<lambda>_.
     and_then (err_when (length topic > MAX_TOPIC_LEN)
                 (invalid ''topic exceeds {MAX_TOPIC_LEN} characters'' [])) (\<lambda>_.
     and_then (err_when (\<not> list_all (\<lambda>c. is_ascii_alphanumeric c \<or> c = CHR ''-'' \<or> c = CHR ''_'' \<or> c = CHR ''.'') topic)
                 (invalid ''topic must contain only alphanumeric characters, dashes, underscores, and dots'' [])) (\<lambda>_.
     err_when (starts_with topic ''.'' \<or> ends_with topic ''.'' \<or> contains_str topic ''..'')
       (invalid ''topic must not have leading, trailing, or consecutive dots'' []))))"

definition group_name :: "string \<Rightarrow> unit result" where
  "group_name grp =
     and_then (err_when (grp = '''') (invalid ''communication group must not be empty when mode is GROUP'' [])) (\<lambda>_.
     and_then (err_when (length grp > MAX_GROUP_LEN)
                 (invalid ''communication group exceeds {MAX_GROUP_LEN} characters'' [])) (\<lambda>_.
     err_when (\<not> list_all (\<lambda>c. is_ascii_alphanumeric c \<or> c = CHR ''-'' \<or> c = CHR ''_'') grp)
       (invalid ''communication group must contain only alphanumeric characters, dashes, and underscores'' [])))"

definition publish_payload :: "bytes \<Rightarrow> unit result" where
  "publish_payload payload =
     err_when (length payload > MAX_PUBLISH_PAYLOAD_BYTES)
       (invalid ''publish payload exceeds {MAX_PUBLISH_PAYLOAD_BYTES} bytes'' [])"

definition domain_label_ok :: "string \<Rightarrow> bool" where
  "domain_label_ok label \<longleftrightarrow>
     1 \<le> length label \<and> length label \<le> MAX_DOMAIN_LABEL_LEN \<and>
     \<not> starts_with label ''-'' \<and> \<not> ends_with label ''-'' \<and>
     list_all (\<lambda>c. is_ascii_alphanumeric c \<or> c = CHR ''-'' \<or> c = CHR ''_'') label"

definition egress_domain :: "string \<Rightarrow> unit result" where
  "egress_domain domain =
     (let name = unwrap_or (strip_prefix ''*.'' domain) domain
      in err_when (length domain > MAX_DOMAIN_LEN \<or> \<not> list_all domain_label_ok (split_on (CHR ''.'') name))
           (invalid ''{domain:?} is not a valid domain (use a DNS name such as api.example.com or *.example.com)'' [S domain]))"

definition egress_domains :: "string list \<Rightarrow> unit result" where
  "egress_domains domains =
     and_then (err_when (domains = []) (invalid ''at least one domain is required'' [])) (\<lambda>_.
     and_then (err_when (length domains > MAX_EGRESS_DOMAINS)
                 (invalid ''at most {MAX_EGRESS_DOMAINS} domains can be added at once'' [])) (\<lambda>_.
     try_each egress_domain domains))"

section \<open>Paths by their components\<close>

text \<open>
  What a path names lexically: its components, without the empty and the \<open>.\<close> ones, which the
  operating system skips.
\<close>

definition path_parts :: "string \<Rightarrow> string list" where
  "path_parts p = filter (\<lambda>c. c \<noteq> '''' \<and> c \<noteq> ''.'') (split_on (CHR ''/'') p)"

definition canonical_path :: "string \<Rightarrow> bool" where
  "canonical_path p \<longleftrightarrow> p = CHR ''/'' # join_with (CHR ''/'') (path_parts p)"

lemma path_parts_sub: "set (path_parts p) \<subseteq> set (split_on (CHR ''/'') p)"
  by (auto simp: path_parts_def)

lemma allowed_source_parts:
  assumes "is_default_allowed_source s"
  shows "\<exists>r \<in> {[''home''], [''tmp''], [''var'', ''lib'', ''ward'']}. prefix r (path_parts s)"
proof -
  from assms consider "s = ''/tmp''" | "s = ''/var/lib/ward''"
    | r where "s = ''/home/'' @ r" | r where "s = ''/tmp/'' @ r" | r where "s = ''/var/lib/ward/'' @ r"
    by (auto simp: is_default_allowed_source_def ALLOWED_def starts_with_iff prefix_def)
  then show ?thesis
    by cases (simp_all add: path_parts_def)
qed

lemma sensitive_parts:
  assumes "d \<in> set SENSITIVE"
  shows "canonical_path d \<and> path_parts d \<noteq> [] \<and>
    (\<forall>r \<in> {[''home''], [''tmp''], [''var'', ''lib'', ''ward'']}.
       \<forall>ps. prefix r ps \<longrightarrow> \<not> prefix (path_parts d) ps)"
  using assms unfolding SENSITIVE_def
  by (auto simp: canonical_path_def path_parts_def prefix_def)

lemma sensitive_if_parts:
  assumes "canonical_path s" "d \<in> set SENSITIVE" "prefix (path_parts d) (path_parts s)"
  shows "is_sensitive_host_path s"
proof -
  let ?j = "join_with (CHR ''/'')"
  have d: "d = CHR ''/'' # ?j (path_parts d)" and "path_parts d \<noteq> []"
    using sensitive_parts [OF assms(2)] by (simp_all add: canonical_path_def)
  have s: "s = CHR ''/'' # ?j (path_parts s)"
    using assms(1) by (simp add: canonical_path_def)
  have "?j (path_parts s) = ?j (path_parts d) \<or> prefix (?j (path_parts d) @ ''/'') (?j (path_parts s))"
    using join_with_prefix [OF assms(3) \<open>path_parts d \<noteq> []\<close>] .
  then have "CHR ''/'' # ?j (path_parts s) = CHR ''/'' # ?j (path_parts d) \<or>
    prefix ((CHR ''/'' # ?j (path_parts d)) @ ''/'') (CHR ''/'' # ?j (path_parts s))"
    by simp
  then have "s = d \<or> starts_with s (d @ ''/'')"
    unfolding starts_with_iff s [symmetric] d [symmetric] .
  with assms(2) show ?thesis
    by (auto simp: is_sensitive_host_path_def list_ex_iff)
qed

lemma mount_path_shape_ok:
  "mount_path_shape l p = Inr () \<longleftrightarrow> starts_with p ''/'' \<and> ''..'' \<notin> set (split_on (CHR ''/'') p)"
  by (auto simp: mount_path_shape_def starts_with_def list_ex_iff)

text \<open>
  C22: Without the host-mount opt-in an accepted bind mount stays, by its path components, under
  \<open>/home\<close>, \<open>/tmp\<close> or \<open>/var/lib/ward\<close>, has no \<open>..\<close> on either side, and never lies under a
  sensitive system root, however the source path is spelled.
\<close>

theorem mount_contained:
  assumes "mount_ok src tgt ro False = Inr ()"
  shows "(\<exists>r \<in> {[''home''], [''tmp''], [''var'', ''lib'', ''ward'']}. prefix r (path_parts src)) \<and>
    ''..'' \<notin> set (path_parts src) \<and> ''..'' \<notin> set (path_parts tgt) \<and>
    (\<forall>d \<in> set SENSITIVE. \<not> prefix (path_parts d) (path_parts src))"
proof -
  from assms have "is_default_allowed_source src"
    and "''..'' \<notin> set (path_parts src)" and "''..'' \<notin> set (path_parts tgt)"
    using path_parts_sub by (auto simp: mount_ok_def mount_path_shape_ok)
  then show ?thesis
    using allowed_source_parts sensitive_parts by blast
qed

theorem mount_contained_witness:
  "mount_ok ''/home//alice'' ''/data'' False False = Inr () \<and>
   \<not> prefix (path_parts ''/etc'') (path_parts ''/home//alice'')"
proof -
  have ok: "mount_ok ''/home//alice'' ''/data'' False False = Inr ()"
    by (simp add: mount_ok_def mount_path_shape_def is_default_allowed_source_def ALLOWED_def
        is_sensitive_host_path_def SENSITIVE_def text_defs)
  have "''/etc'' \<in> set SENSITIVE"
    by (simp add: SENSITIVE_def)
  with mount_contained [OF ok] ok show ?thesis
    by simp
qed

lemma doubled_slash_parts:
  assumes "mount_path_shape l src = Inr ()"
  shows "path_parts (CHR ''/'' # src) = path_parts src" "mount_path_shape l (CHR ''/'' # src) = Inr ()"
    "\<not> is_sensitive_host_path (CHR ''/'' # src)"
proof -
  obtain rest where src: "src = CHR ''/'' # rest"
    using assms by (auto simp: mount_path_shape_ok starts_with_iff prefix_def)
  show "path_parts (CHR ''/'' # src) = path_parts src" "mount_path_shape l (CHR ''/'' # src) = Inr ()"
    using assms by (simp_all add: path_parts_def mount_path_shape_ok starts_with_def)
  show "\<not> is_sensitive_host_path (CHR ''/'' # src)"
    by (simp add: src is_sensitive_host_path_def SENSITIVE_def starts_with_def)
qed

text \<open>
  C23: A sensitive system root is protected in one spelling only. A well-formed source written without empty
  and \<open>.\<close> components that lies in or below one is never accepted writable, with or without the host-mount
  opt-in. But the check compares the spelling of the path: the same directory with one more slash in front
  is accepted writable under the opt-in, for every sensitive root and everything below it.
\<close>

theorem mount_sensitive_spelling:
  assumes "d \<in> set SENSITIVE" "canonical_path src" "prefix (path_parts d) (path_parts src)"
    and "mount_path_shape ''source'' src = Inr ()" "mount_path_shape ''target'' tgt = Inr ()"
  shows "mount_ok src tgt False allow_host \<noteq> Inr () \<and>
    path_parts (CHR ''/'' # src) = path_parts src \<and> mount_ok (CHR ''/'' # src) tgt False True = Inr ()"
  using sensitive_if_parts [OF assms(2,1,3)] doubled_slash_parts [OF assms(4)] assms(5)
  by (simp add: mount_ok_def)

theorem mount_sensitive_spelling_witness:
  "mount_ok ''/etc/ssh'' ''/x'' False True \<noteq> Inr () \<and> path_parts ''//etc/ssh'' = path_parts ''/etc/ssh'' \<and>
   mount_ok ''//etc/ssh'' ''/x'' False True = Inr ()"
proof -
  have "''/etc'' \<in> set SENSITIVE" "canonical_path ''/etc/ssh''" "prefix (path_parts ''/etc'') (path_parts ''/etc/ssh'')"
      "mount_path_shape ''source'' ''/etc/ssh'' = Inr ()" "mount_path_shape ''target'' ''/x'' = Inr ()"
    by (simp_all add: SENSITIVE_def canonical_path_def path_parts_def mount_path_shape_def text_defs)
  from mount_sensitive_spelling [OF this, of True] show ?thesis by simp
qed

section \<open>Names, ids and secrets\<close>

lemma sandbox_name_ok:
  "sandbox_name n = Inr () \<Longrightarrow>
     n \<noteq> [] \<and> length n \<le> MAX_SANDBOX_NAME_LEN \<and> list_all is_reference_char n \<and>
     \<not> list_all is_id_char n"
  by (auto simp: sandbox_name_def)

lemma entity_id_ok:
  "entity_id i e = Inr () \<longleftrightarrow> i \<noteq> [] \<and> length i \<le> 36 \<and> list_all is_id_char i"
  by (auto simp: entity_id_def)

lemma name_not_id_prefix:
  "sandbox_name n = Inr () \<Longrightarrow> list_all is_id_char i \<Longrightarrow> \<not> prefix n i"
  by (auto dest!: sandbox_name_ok simp: prefix_def)

lemma secret_name_ok:
  "secret_name n = Inr () \<Longrightarrow>
     n \<noteq> '''' \<and> n \<noteq> ''.'' \<and> n \<noteq> ''..'' \<and> CHR ''/'' \<notin> set n \<and> length n \<le> MAX_SECRET_NAME_LEN"
  by (auto simp: secret_name_def)

lemma secrets_from_ok:
  "secrets_from seen files = Inr () \<longleftrightarrow>
     (\<forall>f \<in> set files. secret_name (sf_name f) = Inr () \<and> length (sf_content f) \<le> MAX_SECRET_BYTES) \<and>
     distinct (map sf_name files) \<and> set (map sf_name files) \<inter> set seen = {}"
  by (induction files arbitrary: seen) auto

lemma sum_list_bound: "(\<And>x. x \<in> set xs \<Longrightarrow> f x \<le> (b :: nat)) \<Longrightarrow> sum_list (map f xs) \<le> length xs * b"
  by (induction xs) (auto simp: add_mono)

text \<open>
  An accepted sandbox name is never an id or a prefix of an id, so a reference that is a
  name cannot also select a sandbox by id prefix; and it passes the looser check of references.
\<close>

lemma name_never_id_prefix:
  assumes "sandbox_name n = Inr ()" "entity_id i e = Inr ()"
  shows "\<not> prefix n i \<and> sandbox_reference n = Inr ()"
  using name_not_id_prefix [OF assms(1)] sandbox_name_ok [OF assms(1)] assms(2)
  by (simp add: entity_id_ok sandbox_reference_def)

text \<open>
  Accepted secret files each name exactly one file directly under \<open>/run/secrets\<close>, no two the
  same one, and their contents stay within 16 times 64 KiB together.
\<close>

lemma secrets_contained:
  assumes "secrets files = Inr ()"
  shows "(\<forall>f \<in> set files. path_parts (''/run/secrets/'' @ sf_name f) = [''run'', ''secrets'', sf_name f] \<and>
            sf_name f \<noteq> ''..'') \<and>
    distinct (map sf_name files) \<and>
    sum_list (map (\<lambda>f. length (sf_content f)) files) \<le> 16 * (64 * 1024)"
proof -
  from assms have len: "length files \<le> 16" and ok: "secrets_from [] files = Inr ()"
    by (simp_all add: secrets_def MAX_SECRETS_def)
  have "sum_list (map (\<lambda>f. length (sf_content f)) files) \<le> length files * (64 * 1024)"
    using ok by (intro sum_list_bound) (simp add: secrets_from_ok MAX_SECRET_BYTES_def)
  also have "\<dots> \<le> 16 * (64 * 1024)"
    using len by (intro mult_le_mono1)
  finally show ?thesis
    using ok by (auto simp: secrets_from_ok path_parts_def split_on_single dest!: secret_name_ok bspec)
qed

section \<open>Published ports\<close>

lemma claim_ports_ok:
  "claim_ports cl ps = Inr () \<longleftrightarrow> distinct (map port_key ps) \<and> set (map port_key ps) \<inter> set cl = {}"
  by (induction ps arbitrary: cl) auto

lemma u16_of_u32_Some:
  assumes "u16_of_u32 n = Some p"
  shows "unat p = unat n"
proof -
  from assms have "n \<le> 65535" and p: "p = ucast n"
    by (auto simp: u16_of_u32_def split: if_splits)
  then have "unat n < 2 ^ 16"
    by (simp add: word_le_nat_alt)
  then show ?thesis
    unfolding p by (simp add: unsigned_ucast_eq take_bit_nat_eq_self take_bit_eq_mod)
qed

definition port_agrees :: "port_mapping \<Rightarrow> published_port \<Rightarrow> bool" where
  "port_agrees m p \<longleftrightarrow>
     unat (pp_host_port p) = unat (pm_host_port m) \<and>
     unat (pp_host_port_end p) = unat (pm_host_port_end m) \<and>
     unat (pp_container_port p) = unat (pm_container_port m) \<and> pp_container_port p \<noteq> 0 \<and>
     (pm_host_ip m = '''' \<longrightarrow> pp_host_ip p = LOCALHOST) \<and>
     (pm_host_ip m \<noteq> '''' \<longrightarrow> parse_ip (pm_host_ip m) = Some (pp_host_ip p)) \<and>
     (pp_host_port_end p \<noteq> 0 \<longrightarrow> 0 < pp_host_port p \<and> pp_host_port p \<le> pp_host_port_end p)"

lemma published_port_of_ok: "published_port_of m = Inr p \<Longrightarrow> port_agrees m p"
  by (auto simp: published_port_of_def port_agrees_def word_gt_0 not_less
      dest!: u16_of_u32_Some split: if_splits option.splits)

text \<open>
  C24: Accepted port mappings keep their numbers (no truncation to 16 bits), default to
  127.0.0.1, have a non-zero guest port and ordered ranges, are at most 64, and no two of them
  fix the same host address, port and protocol.
\<close>

theorem published_ports_sound:
  assumes "published_ports ms = Inr ps"
  shows "length ps \<le> 64 \<and> list_all2 port_agrees ms ps \<and>
    distinct (map port_key (filter is_fixed_port ps))"
proof -
  from assms have "length ms \<le> 64" and ps: "collect_results published_port_of ms = Inr ps"
    and "claim_ports [] (filter is_fixed_port ps) = Inr ()"
    by (auto simp: published_ports_def MAX_PUBLISHED_PORTS_def)
  moreover have "list_all2 port_agrees ms ps"
    using ps unfolding collect_results_eq_Inr
    by (rule list_all2_mono) (rule published_port_of_ok)
  ultimately show ?thesis
    using collect_results_length [OF ps] by (simp add: claim_ports_ok)
qed

theorem published_ports_sound_witness:
  "\<exists>ps. published_ports [\<lparr>pm_host_ip = '''', pm_host_port = 8080, pm_container_port = 80,
       pm_protocol = '''', pm_host_port_end = 0\<rparr>] = Inr ps \<and> length ps \<le> 64"
proof -
  let ?m = "\<lparr>pm_host_ip = '''', pm_host_port = 8080, pm_container_port = 80,
       pm_protocol = '''', pm_host_port_end = 0\<rparr>"
  have "published_ports [?m] = Inr [\<lparr>pp_host_ip = LOCALHOST, pp_host_port = 8080,
       pp_host_port_end = 0, pp_container_port = 80, pp_protocol = Tcp\<rparr>]"
    by (simp add: published_ports_def published_port_of_def u16_of_u32_def MAX_PUBLISHED_PORTS_def
        is_fixed_port_def)
  with published_ports_sound [OF this] show ?thesis by blast
qed

section \<open>Topics\<close>

text \<open>
  A topic is accepted exactly when it has at most 128 bytes and is a sequence of non-empty
  segments of letters, digits, dashes and underscores joined by single dots.
\<close>

theorem topic_name_segments:
  "topic_name t = Inr () \<longleftrightarrow>
     length t \<le> 128 \<and>
     list_all (\<lambda>p. p \<noteq> [] \<and> list_all (\<lambda>c. is_ascii_alphanumeric c \<or> c = CHR ''-'' \<or> c = CHR ''_'') p)
       (split_on (CHR ''.'') t)"
proof -
  have "(\<forall>c \<in> set t. P c \<or> c = CHR ''.'') \<longleftrightarrow> (\<forall>p \<in> set (split_on (CHR ''.'') t). \<forall>c \<in> set p. P c)"
    for P
    by (induction t) (auto split: list.splits)
  from this [of "\<lambda>c. is_ascii_alphanumeric c \<or> c = CHR ''-'' \<or> c = CHR ''_''"]
  show ?thesis
    using split_on_all_nonempty [of "CHR ''.''" t]
    by (auto simp: topic_name_def MAX_TOPIC_LEN_def list_all_iff starts_with_iff ends_with_iff
        contains_str_iff)
qed

end
