(* ===== verification/Broker.thy ===== *)
theory Broker
  imports Protocol
begin

text \<open>
  The pub/sub broker, \<open>ward-core/src/comms/broker.rs\<close>. The broker's state is the one behind its
  \<open>RwLock\<close>; every operation holds the lock from start to end, so operations are atomic steps.

  The bounded channels come from tokio: \<open>mpsc\<close> collects the calls the broker makes
  (\<open>channel\<close>, \<open>is_closed\<close>, \<open>try_send\<close>) over a type of channel worlds, with the queues
  and the capacity as observations, and \<open>mpsc_ok\<close> states tokio's documented behaviour: a fresh
  channel is open and empty, and \<open>try_send\<close> succeeds exactly when the channel is open and has
  room, and then adds the message to that channel and to no other.
\<close>

section \<open>Messages, channels and state\<close>

definition MAX_LOG_ENTRIES_PER_SANDBOX :: nat where
  "MAX_LOG_ENTRIES_PER_SANDBOX = 256"

definition SUBSCRIBER_CHANNEL_BUFFER :: nat where
  "SUBSCRIBER_CHANNEL_BUFFER = 32"

record delivered_message =
  dm_from_sandbox :: string
  dm_topic :: string
  dm_payload :: bytes
  dm_timestamp :: nat

record log_entry =
  le_from_sandbox :: string
  le_topic :: string
  le_allowed :: bool
  le_subscriber_count :: u32
  le_timestamp :: nat

record ('w, 'c) mpsc =
  mpsc_channel :: "'w \<Rightarrow> nat \<Rightarrow> 'w \<times> 'c"
  mpsc_is_closed :: "'w \<Rightarrow> 'c \<Rightarrow> bool"
  mpsc_try_send :: "'w \<Rightarrow> 'c \<Rightarrow> delivered_message \<Rightarrow> 'w option"
  mpsc_queue :: "'w \<Rightarrow> 'c \<Rightarrow> delivered_message list"
  mpsc_capacity :: "'w \<Rightarrow> 'c \<Rightarrow> nat"
  mpsc_made :: "'w \<Rightarrow> 'c set"

definition mpsc_room :: "('w, 'c) mpsc \<Rightarrow> 'w \<Rightarrow> 'c \<Rightarrow> bool" where
  "mpsc_room ch w c \<longleftrightarrow>
     \<not> mpsc_is_closed ch w c \<and> length (mpsc_queue ch w c) < mpsc_capacity ch w c"

definition mpsc_ok :: "('w, 'c) mpsc \<Rightarrow> bool" where
  "mpsc_ok ch \<longleftrightarrow>
     (\<forall>w n w' c. mpsc_channel ch w n = (w', c) \<longrightarrow>
        c \<notin> mpsc_made ch w \<and> mpsc_made ch w' = insert c (mpsc_made ch w) \<and>
        \<not> mpsc_is_closed ch w' c \<and> mpsc_queue ch w' c = [] \<and> mpsc_capacity ch w' c = n \<and>
        (\<forall>d. d \<noteq> c \<longrightarrow> mpsc_queue ch w' d = mpsc_queue ch w d)) \<and>
     (\<forall>w c m. mpsc_try_send ch w c m = None \<longleftrightarrow> \<not> mpsc_room ch w c) \<and>
     (\<forall>w c m w'. mpsc_try_send ch w c m = Some w' \<longrightarrow>
        mpsc_made ch w' = mpsc_made ch w \<and>
        mpsc_queue ch w' c = mpsc_queue ch w c @ [m] \<and>
        (\<forall>d. d \<noteq> c \<longrightarrow> mpsc_queue ch w' d = mpsc_queue ch w d) \<and>
        (\<forall>d. mpsc_is_closed ch w' d = mpsc_is_closed ch w d \<and>
             mpsc_capacity ch w' d = mpsc_capacity ch w d))"

record 'c subscription =
  sub_sandbox_id :: string
  sub_tx :: 'c

record 'c broker_state =
  bs_policies :: "string \<rightharpoonup> communication_policy"
  bs_subscriptions :: "string \<rightharpoonup> 'c subscription list"
  bs_log :: "string \<rightharpoonup> log_entry list"

text \<open>The counters \<open>wardd_broker_*_total\<close>.\<close>

record broker_metrics =
  bm_publish :: nat
  bm_deliver :: nat
  bm_drop :: nat

definition broker_new :: "'c broker_state" where
  "broker_new = \<lparr>bs_policies = Map.empty, bs_subscriptions = Map.empty, bs_log = Map.empty\<rparr>"

section \<open>Operations\<close>

fun can_communicate :: "communication_policy \<Rightarrow> communication_policy \<Rightarrow> bool" where
  "can_communicate a b =
     (case (cp_mode a, cp_mode b) of
        (CommDeny, _) \<Rightarrow> False
      | (_, CommDeny) \<Rightarrow> False
      | (CommGroup, CommGroup) \<Rightarrow>
          (case (cp_group a, cp_group b) of
             (Some g1, Some g2) \<Rightarrow> g1 \<noteq> '''' \<and> g1 = g2
           | _ \<Rightarrow> False))"

definition push_log_row :: "log_entry list \<Rightarrow> log_entry \<Rightarrow> log_entry list" where
  "push_log_row q entry = trim_front MAX_LOG_ENTRIES_PER_SANDBOX (q @ [entry])"

definition push_log_entry ::
  "(string \<rightharpoonup> log_entry list) \<Rightarrow> string \<Rightarrow> log_entry \<Rightarrow> string \<rightharpoonup> log_entry list" where
  "push_log_entry log sandbox_id entry =
     log(sandbox_id \<mapsto> push_log_row (unwrap_or (log sandbox_id) []) entry)"

definition register_sandbox :: "string \<Rightarrow> communication_policy \<Rightarrow> 'c broker_state \<Rightarrow> 'c broker_state" where
  "register_sandbox sandbox_id policy st =
     st\<lparr>bs_policies := (bs_policies st)(sandbox_id \<mapsto> policy)\<rparr>"

definition deregister_sandbox :: "string \<Rightarrow> 'c broker_state \<Rightarrow> 'c broker_state" where
  "deregister_sandbox sandbox_id st =
     st\<lparr>bs_policies := (bs_policies st)(sandbox_id := None),
        bs_log := (bs_log st)(sandbox_id := None),
        bs_subscriptions :=
          (\<lambda>t. map_option (filter (\<lambda>s. sub_sandbox_id s \<noteq> sandbox_id)) (bs_subscriptions st t))\<rparr>"

text \<open>The loop of \<open>publish\<close> over the candidates, with its four mutable locals.\<close>

record 'w fan_out =
  fo_world :: 'w
  fo_delivered :: u32
  fo_dropped :: u32
  fo_entries :: "(string \<times> log_entry) list"

fun publish_loop ::
  "('w, 'c) mpsc \<Rightarrow> (string \<rightharpoonup> communication_policy) \<Rightarrow> communication_policy \<Rightarrow>
   delivered_message \<Rightarrow> 'c subscription list \<Rightarrow> 'w fan_out \<Rightarrow> 'w fan_out" where
  "publish_loop ch policies publisher_policy msg [] fo = fo"
| "publish_loop ch policies publisher_policy msg (s # candidates) fo =
     publish_loop ch policies publisher_policy msg candidates
       (case policies (sub_sandbox_id s) of
          None \<Rightarrow> fo
        | Some sub_policy \<Rightarrow>
            if \<not> can_communicate publisher_policy sub_policy then fo
            else (case mpsc_try_send ch (fo_world fo) (sub_tx s) msg of
                    Some w' \<Rightarrow>
                      fo\<lparr>fo_world := w',
                         fo_delivered := fo_delivered fo + 1,
                         fo_entries := fo_entries fo @
                           [(sub_sandbox_id s,
                             \<lparr>le_from_sandbox = dm_from_sandbox msg, le_topic = dm_topic msg,
                              le_allowed = True, le_subscriber_count = 1,
                              le_timestamp = dm_timestamp msg\<rparr>)]\<rparr>
                  | None \<Rightarrow> fo\<lparr>fo_dropped := fo_dropped fo + 1\<rparr>))"

definition publish ::
  "('w, 'c) mpsc \<Rightarrow> nat \<Rightarrow> string \<Rightarrow> string \<Rightarrow> bytes \<Rightarrow>
   'w \<times> broker_metrics \<times> 'c broker_state \<Rightarrow> ('w \<times> broker_metrics \<times> 'c broker_state) \<times> u32 result" where
  "publish ch now from_sandbox topic payload wst =
     (case wst of (w, m, st) \<Rightarrow>
      case bs_policies st from_sandbox of
        None \<Rightarrow> ((w, m, st), Inl (SandboxNotFound from_sandbox))
      | Some publisher_policy \<Rightarrow>
          if cp_mode publisher_policy = CommDeny then
            ((w, m, st\<lparr>bs_log := push_log_entry (bs_log st) from_sandbox
                 \<lparr>le_from_sandbox = from_sandbox, le_topic = topic, le_allowed = False,
                  le_subscriber_count = 0, le_timestamp = now\<rparr>\<rparr>),
             Inl (InvalidRequest (Msg ''sandbox {from_sandbox} is in Deny mode and cannot publish''
                    [S from_sandbox])))
          else
            (let reaped = (bs_subscriptions st)
                   (topic := map_option (filter (\<lambda>s. \<not> mpsc_is_closed ch w (sub_tx s)))
                               (bs_subscriptions st topic));
                 candidates = unwrap_or (reaped topic) [];
                 msg = \<lparr>dm_from_sandbox = from_sandbox, dm_topic = topic, dm_payload = payload,
                        dm_timestamp = now\<rparr>;
                 fo = publish_loop ch (bs_policies st) publisher_policy msg candidates
                        \<lparr>fo_world = w, fo_delivered = 0, fo_dropped = 0, fo_entries = []\<rparr>;
                 m' = m\<lparr>bm_publish := bm_publish m + 1,
                        bm_deliver := bm_deliver m + unat (fo_delivered fo),
                        bm_drop := bm_drop m + unat (fo_dropped fo)\<rparr>;
                 log1 = foldl (\<lambda>l (sub_id, entry). push_log_entry l sub_id entry)
                          (bs_log st) (fo_entries fo);
                 log2 = push_log_entry log1 from_sandbox
                          \<lparr>le_from_sandbox = from_sandbox, le_topic = topic, le_allowed = True,
                           le_subscriber_count = fo_delivered fo, le_timestamp = now\<rparr>
             in ((fo_world fo, m', st\<lparr>bs_subscriptions := reaped, bs_log := log2\<rparr>),
                 Inr (fo_delivered fo))))"

definition subscribe ::
  "('w, 'c) mpsc \<Rightarrow> string \<Rightarrow> string \<Rightarrow> 'w \<times> 'c broker_state \<Rightarrow> ('w \<times> 'c broker_state) \<times> 'c result" where
  "subscribe ch sandbox_id topic wst =
     (case wst of (w, st) \<Rightarrow>
      case bs_policies st sandbox_id of
        None \<Rightarrow> ((w, st), Inl (SandboxNotFound sandbox_id))
      | Some policy \<Rightarrow>
          if cp_mode policy = CommDeny then
            ((w, st), Inl (InvalidRequest
               (Msg ''sandbox {sandbox_id} is in Deny mode and cannot subscribe'' [S sandbox_id])))
          else
            (case mpsc_channel ch w SUBSCRIBER_CHANNEL_BUFFER of
               (w', c) \<Rightarrow>
                 ((w', st\<lparr>bs_subscriptions := (bs_subscriptions st)
                     (topic \<mapsto> unwrap_or (bs_subscriptions st topic) [] @
                        [\<lparr>sub_sandbox_id = sandbox_id, sub_tx = c\<rparr>])\<rparr>),
                  Inr c)))"

definition broker_log :: "string \<Rightarrow> 'c broker_state \<Rightarrow> log_entry list" where
  "broker_log sandbox_id st = unwrap_or (bs_log st sandbox_id) []"

section \<open>Audit rows\<close>

interpretation audit: bounded_log push_log_row MAX_LOG_ENTRIES_PER_SANDBOX
  by unfold_locales (simp add: push_log_row_def trim_front_last_n)

definition log_bounded :: "(string \<rightharpoonup> log_entry list) \<Rightarrow> bool" where
  "log_bounded log \<longleftrightarrow> (\<forall>i q. log i = Some q \<longrightarrow> length q \<le> MAX_LOG_ENTRIES_PER_SANDBOX)"

lemma log_bounded_row: "log_bounded log \<Longrightarrow> length (unwrap_or (log i) []) \<le> MAX_LOG_ENTRIES_PER_SANDBOX"
  by (cases "log i") (auto simp: log_bounded_def)

lemma push_log_entry_bounded [preserve]: "log_bounded log \<Longrightarrow> log_bounded (push_log_entry log i e)"
  using audit.push_bound [OF log_bounded_row [of log i]]
  by (auto simp: log_bounded_def push_log_entry_def)

lemma push_log_entries_bounded [preserve]:
  "log_bounded log \<Longrightarrow> log_bounded (foldl (\<lambda>l (i, e). push_log_entry l i e) log es)"
  by (induction es arbitrary: log) (auto intro: push_log_entry_bounded)

lemma push_log_entry_last: "last (unwrap_or (push_log_entry log i e i) []) = e"
  by (simp add: push_log_entry_def push_log_row_def trim_front_last_n last_n_def
      MAX_LOG_ENTRIES_PER_SANDBOX_def)

section \<open>Fan-out\<close>

lemma mpsc_send_None: "mpsc_ok ch \<Longrightarrow> mpsc_try_send ch w c m = None \<longleftrightarrow> \<not> mpsc_room ch w c"
  unfolding mpsc_ok_def by blast

lemma mpsc_send_Some:
  assumes "mpsc_ok ch" "mpsc_try_send ch w c m = Some w'"
  shows "mpsc_room ch w c" "mpsc_made ch w' = mpsc_made ch w"
    "mpsc_queue ch w' d = mpsc_queue ch w d @ (if d = c then [m] else [])"
    "d \<noteq> c \<Longrightarrow> mpsc_room ch w' d = mpsc_room ch w d"
  using assms mpsc_send_None [OF assms(1), of w c m]
  unfolding mpsc_ok_def mpsc_room_def by (force, blast, force, force)

definition eligible :: "(string \<rightharpoonup> communication_policy) \<Rightarrow> communication_policy \<Rightarrow> 'c subscription \<Rightarrow> bool" where
  "eligible policies pub s \<longleftrightarrow>
     (case policies (sub_sandbox_id s) of None \<Rightarrow> False | Some p \<Rightarrow> can_communicate pub p)"

definition receivers ::
  "('w, 'c) mpsc \<Rightarrow> (string \<rightharpoonup> communication_policy) \<Rightarrow> communication_policy \<Rightarrow> 'w \<Rightarrow>
   'c subscription list \<Rightarrow> 'c subscription list" where
  "receivers ch policies pub w subs =
     filter (\<lambda>s. eligible policies pub s \<and> mpsc_room ch w (sub_tx s)) subs"

lemma receivers_Cons:
  "receivers ch ps pub w (s # cs) =
     (if eligible ps pub s \<and> mpsc_room ch w (sub_tx s) then [s] else []) @ receivers ch ps pub w cs"
  by (simp add: receivers_def)

lemma receivers_cong:
  "(\<And>c. c \<in> sub_tx ` set cs \<Longrightarrow> mpsc_room ch w' c = mpsc_room ch w c) \<Longrightarrow>
   receivers ch ps pub w' cs = receivers ch ps pub w cs"
  by (auto simp: receivers_def intro: filter_cong)

definition audit_row :: "delivered_message \<Rightarrow> u32 \<Rightarrow> log_entry" where
  "audit_row msg n =
     \<lparr>le_from_sandbox = dm_from_sandbox msg, le_topic = dm_topic msg, le_allowed = True,
      le_subscriber_count = n, le_timestamp = dm_timestamp msg\<rparr>"

definition publish_one ::
  "('w, 'c) mpsc \<Rightarrow> (string \<rightharpoonup> communication_policy) \<Rightarrow> communication_policy \<Rightarrow>
   delivered_message \<Rightarrow> 'c subscription \<Rightarrow> 'w fan_out \<Rightarrow> 'w fan_out" where
  "publish_one ch ps pub msg s fo =
     (if eligible ps pub s
      then (case mpsc_try_send ch (fo_world fo) (sub_tx s) msg of
              Some w' \<Rightarrow> fo\<lparr>fo_world := w', fo_delivered := fo_delivered fo + 1,
                 fo_entries := fo_entries fo @ [(sub_sandbox_id s, audit_row msg 1)]\<rparr>
            | None \<Rightarrow> fo\<lparr>fo_dropped := fo_dropped fo + 1\<rparr>)
      else fo)"

lemma publish_loop_Cons:
  "publish_loop ch ps pub msg (s # cs) fo = publish_loop ch ps pub msg cs (publish_one ch ps pub msg s fo)"
  by (simp add: publish_one_def eligible_def audit_row_def split: option.split)

declare publish_loop.simps(2) [simp del]

lemma publish_one_spec:
  fixes ch :: "('w, 'c) mpsc" and s :: "'c subscription" and ps pub msg
  assumes "mpsc_ok ch"
  defines "fo' \<equiv> publish_one ch ps pub msg s"
    and "r \<equiv> \<lambda>w. eligible ps pub s \<and> mpsc_room ch w (sub_tx s)"
  shows "fo_delivered (fo' fo) = fo_delivered fo + (if r (fo_world fo) then 1 else 0)"
    "fo_dropped (fo' fo) = fo_dropped fo + (if eligible ps pub s \<and> \<not> r (fo_world fo) then 1 else 0)"
    "fo_entries (fo' fo) = fo_entries fo @
       (if r (fo_world fo) then [(sub_sandbox_id s, audit_row msg 1)] else [])"
    "mpsc_made ch (fo_world (fo' fo)) = mpsc_made ch (fo_world fo)"
    "mpsc_queue ch (fo_world (fo' fo)) d = mpsc_queue ch (fo_world fo) d @
       (if r (fo_world fo) \<and> d = sub_tx s then [msg] else [])"
    "d \<noteq> sub_tx s \<Longrightarrow> mpsc_room ch (fo_world (fo' fo)) d = mpsc_room ch (fo_world fo) d"
  using mpsc_send_None [OF assms(1), of "fo_world fo" "sub_tx s" msg]
  unfolding assms(2,3) publish_one_def
  by (auto split: option.splits simp: mpsc_send_Some [OF assms(1)])

lemma publish_loop_spec:
  assumes "mpsc_ok ch" "distinct (map sub_tx cs)"
  shows "let fo' = publish_loop ch ps pub msg cs fo; R = receivers ch ps pub (fo_world fo) cs in
    fo_delivered fo' = fo_delivered fo + of_nat (length R) \<and>
    fo_dropped fo' + fo_delivered fo' =
      fo_dropped fo + fo_delivered fo + of_nat (length (filter (eligible ps pub) cs)) \<and>
    fo_entries fo' = fo_entries fo @ map (\<lambda>s. (sub_sandbox_id s, audit_row msg 1)) R \<and>
    mpsc_made ch (fo_world fo') = mpsc_made ch (fo_world fo) \<and>
    (\<forall>d. mpsc_queue ch (fo_world fo') d =
       mpsc_queue ch (fo_world fo) d @ (if d \<in> sub_tx ` set R then [msg] else []))"
  using assms(2)
proof (induction cs arbitrary: fo)
  case Nil
  then show ?case by (simp add: receivers_def)
next
  case (Cons s cs)
  let ?fo1 = "publish_one ch ps pub msg s fo"
  let ?w = "fo_world fo"
  have same: "receivers ch ps pub (fo_world ?fo1) cs = receivers ch ps pub ?w cs"
    using Cons.prems by (intro receivers_cong publish_one_spec [OF assms(1)]) (metis distinct.simps(2) list.simps(9) set_map)
  have notin: "sub_tx s \<notin> sub_tx ` set (receivers ch ps pub ?w cs)"
    using Cons.prems by (auto simp: receivers_def)
  have IH: "let fo' = publish_loop ch ps pub msg cs ?fo1; R = receivers ch ps pub ?w cs in
    fo_delivered fo' = fo_delivered ?fo1 + of_nat (length R) \<and>
    fo_dropped fo' + fo_delivered fo' =
      fo_dropped ?fo1 + fo_delivered ?fo1 + of_nat (length (filter (eligible ps pub) cs)) \<and>
    fo_entries fo' = fo_entries ?fo1 @ map (\<lambda>s. (sub_sandbox_id s, audit_row msg 1)) R \<and>
    mpsc_made ch (fo_world fo') = mpsc_made ch (fo_world ?fo1) \<and>
    (\<forall>d. mpsc_queue ch (fo_world fo') d =
       mpsc_queue ch (fo_world ?fo1) d @ (if d \<in> sub_tx ` set R then [msg] else []))"
    using Cons.IH [of ?fo1] Cons.prems unfolding same by simp
  show ?case
    using IH notin unfolding publish_loop_Cons receivers_Cons Let_def publish_one_spec [OF assms(1)]
    by (auto simp: algebra_simps)
qed

lemmas publish_loop_facts = publish_loop_spec [unfolded Let_def]

section \<open>Invariant\<close>

definition subs_of :: "'c broker_state \<Rightarrow> string \<Rightarrow> 'c subscription list" where
  "subs_of st t = unwrap_or (bs_subscriptions st t) []"

definition broker_inv :: "('w, 'c) mpsc \<Rightarrow> 'w \<Rightarrow> 'c broker_state \<Rightarrow> bool" where
  "broker_inv ch w st \<longleftrightarrow>
     (\<forall>t. distinct (map sub_tx (subs_of st t))) \<and>
     (\<forall>t. sub_tx ` set (subs_of st t) \<subseteq> mpsc_made ch w) \<and>
     (\<forall>t t'. t \<noteq> t' \<longrightarrow> sub_tx ` set (subs_of st t) \<inter> sub_tx ` set (subs_of st t') = {}) \<and>
     (\<forall>t. \<forall>s \<in> set (subs_of st t). sub_sandbox_id s \<in> dom (bs_policies st)) \<and>
     log_bounded (bs_log st)"

lemma broker_new_inv: "broker_inv ch w broker_new"
  by (simp add: broker_inv_def broker_new_def subs_of_def log_bounded_def)

lemma subs_of_deregister:
  "subs_of (deregister_sandbox i st) t = filter (\<lambda>s. sub_sandbox_id s \<noteq> i) (subs_of st t)"
  by (cases "bs_subscriptions st t") (simp_all add: subs_of_def deregister_sandbox_def)

lemma broker_inv_owner:
  assumes "broker_inv ch w st" "s \<in> set (subs_of st u)" "s' \<in> set (subs_of st t)" "sub_tx s = sub_tx s'"
  shows "s = s'"
proof (cases "u = t")
  case True
  with assms show ?thesis
    unfolding broker_inv_def distinct_map inj_on_def by blast
next
  case False
  then have "sub_tx ` set (subs_of st u) \<inter> sub_tx ` set (subs_of st t) = {}"
    using assms(1) unfolding broker_inv_def by simp
  with assms(2-4) show ?thesis by auto
qed

lemma broker_inv_sub:
  assumes "broker_inv ch w st" "\<And>t. \<exists>P. subs_of st' t = filter P (subs_of st t)"
    "\<And>t s. s \<in> set (subs_of st' t) \<Longrightarrow> sub_sandbox_id s \<in> dom (bs_policies st')"
    "log_bounded (bs_log st')" "mpsc_made ch w \<subseteq> mpsc_made ch w'"
  shows "broker_inv ch w' st'"
proof -
  have sub: "set (subs_of st' t) \<subseteq> set (subs_of st t)" for t
    using assms(2) [of t] by auto
  have old: "distinct (map sub_tx (subs_of st t))" "sub_tx ` set (subs_of st t) \<subseteq> mpsc_made ch w"
    "t \<noteq> t' \<Longrightarrow> sub_tx ` set (subs_of st t) \<inter> sub_tx ` set (subs_of st t') = {}" for t t'
    using assms(1) unfolding broker_inv_def by simp_all
  have "distinct (map sub_tx (subs_of st' t))" for t
    using assms(2) [of t] old(1) [of t] by (auto simp: distinct_map_filter)
  moreover have "sub_tx ` set (subs_of st' t) \<subseteq> mpsc_made ch w'" for t
    using image_mono [OF sub [of t], of sub_tx] old(2) [of t] assms(5) by blast
  moreover have "sub_tx ` set (subs_of st' t) \<inter> sub_tx ` set (subs_of st' t') = {}" if "t \<noteq> t'" for t t'
    using image_mono [OF sub [of t], of sub_tx] image_mono [OF sub [of t'], of sub_tx] old(3) [OF that]
    by blast
  ultimately show ?thesis
    unfolding broker_inv_def using assms(3,4) by simp
qed

lemma receivers_inv:
  "broker_inv ch w st \<Longrightarrow> mpsc_made ch w \<subseteq> mpsc_made ch w' \<Longrightarrow> broker_inv ch w' st"
  unfolding broker_inv_def by (elim conjE, intro conjI) (assumption | meson subset_trans)+

lemma register_inv [preserve]:
  "broker_inv ch w st \<Longrightarrow> broker_inv ch w (register_sandbox i p st)"
  by (auto simp: broker_inv_def register_sandbox_def subs_of_def)

lemma deregister_inv [preserve]:
  assumes "broker_inv ch w st"
  shows "broker_inv ch w (deregister_sandbox i st)"
proof (rule broker_inv_sub [OF assms])
  fix t s
  assume "s \<in> set (subs_of (deregister_sandbox i st) t)"
  then show "sub_sandbox_id s \<in> dom (bs_policies (deregister_sandbox i st))"
    using assms unfolding subs_of_deregister by (auto simp: broker_inv_def deregister_sandbox_def)
next
  show "log_bounded (bs_log (deregister_sandbox i st))"
    using assms by (auto simp: broker_inv_def deregister_sandbox_def log_bounded_def)
qed (auto simp: subs_of_deregister)

lemma subscribe_inv [preserve]:
  assumes "mpsc_ok ch" "broker_inv ch w st" "subscribe ch i t (w, st) = ((w', st'), r)"
  shows "broker_inv ch w' st'"
proof (cases "(w', st') = (w, st)")
  case False
  with assms(3) obtain p c where p: "bs_policies st i = Some p"
    and c: "mpsc_channel ch w SUBSCRIBER_CHANNEL_BUFFER = (w', c)"
    and st': "st' = st\<lparr>bs_subscriptions := (bs_subscriptions st)
        (t \<mapsto> subs_of st t @ [\<lparr>sub_sandbox_id = i, sub_tx = c\<rparr>])\<rparr>"
    by (auto simp: subscribe_def subs_of_def split: option.splits if_splits prod.splits)
  have subs: "subs_of st' u = (if u = t then subs_of st t @ [\<lparr>sub_sandbox_id = i, sub_tx = c\<rparr>] else subs_of st u)" for u
    by (simp add: st' subs_of_def)
  have fresh: "c \<notin> mpsc_made ch w" "mpsc_made ch w' = insert c (mpsc_made ch w)"
    using assms(1) c unfolding mpsc_ok_def by blast+
  have inv: "distinct (map sub_tx (subs_of st u))" "sub_tx ` set (subs_of st u) \<subseteq> mpsc_made ch w"
    "u \<noteq> v \<Longrightarrow> sub_tx ` set (subs_of st u) \<inter> sub_tx ` set (subs_of st v) = {}"
    "s \<in> set (subs_of st u) \<Longrightarrow> sub_sandbox_id s \<in> dom (bs_policies st)" "log_bounded (bs_log st)" for u v s
    using assms(2) unfolding broker_inv_def by simp_all
  have new: "c \<notin> sub_tx ` set (subs_of st u)" for u
    using fresh(1) inv(2) by blast
  have "distinct (map sub_tx (subs_of st' u))" for u
    using inv(1) new by (simp add: subs)
  moreover have "sub_tx ` set (subs_of st' u) \<subseteq> mpsc_made ch w'" for u
    using inv(2) [of u] inv(2) [of t] by (auto simp: subs fresh(2))
  moreover have "sub_tx ` set (subs_of st' u) \<inter> sub_tx ` set (subs_of st' v) = {}" if "u \<noteq> v" for u v
    using inv(3) [OF that] new [of u] new [of v] that by (simp add: subs) blast
  moreover have "sub_sandbox_id s \<in> dom (bs_policies st')" if "s \<in> set (subs_of st' u)" for s u
    using that inv(4) p by (auto simp: subs split: if_splits) (auto simp: st')
  ultimately show ?thesis
    unfolding broker_inv_def using inv(5) by (simp add: st')
qed (use assms(2) in simp)

section \<open>Publishing\<close>

lemma receivers_open:
  "receivers ch ps pub w (filter (\<lambda>s. \<not> mpsc_is_closed ch w (sub_tx s)) subs) = receivers ch ps pub w subs"
  by (auto simp: receivers_def mpsc_room_def intro: filter_cong)

lemma publish_facts:
  fixes ch :: "('w, 'c) mpsc"
  assumes "mpsc_ok ch" "broker_inv ch w st"
    and "publish ch now i t payload (w, m, st) = ((w', m', st'), r)"
    and "bs_policies st i = Some p" "cp_mode p \<noteq> CommDeny"
  defines "msg \<equiv> \<lparr>dm_from_sandbox = i, dm_topic = t, dm_payload = payload, dm_timestamp = now\<rparr>"
    and "R \<equiv> receivers ch (bs_policies st) p w (subs_of st t)"
  shows "r = Inr (of_nat (length R))"
    "mpsc_queue ch w' d = mpsc_queue ch w d @ (if d \<in> sub_tx ` set R then [msg] else [])"
    "mpsc_made ch w' = mpsc_made ch w"
    "bs_policies st' = bs_policies st"
    "\<exists>P. subs_of st' u = filter P (subs_of st u)"
    "log_bounded (bs_log st')"
    "last (broker_log i st') = audit_row msg (of_nat (length R))"
    "m' = \<lparr>bm_publish = bm_publish m + 1, bm_deliver = bm_deliver m + unat (of_nat (length R) :: u32),
           bm_drop = bm_drop m + unat (of_nat (length (filter (eligible (bs_policies st) p)
             (filter (\<lambda>s. \<not> mpsc_is_closed ch w (sub_tx s)) (subs_of st t)))) - of_nat (length R) :: u32)\<rparr>"
proof -
  let ?open = "filter (\<lambda>s. \<not> mpsc_is_closed ch w (sub_tx s)) (subs_of st t)"
  let ?fo0 = "\<lparr>fo_world = w, fo_delivered = 0, fo_dropped = 0, fo_entries = []\<rparr>"
  define fo where "fo = publish_loop ch (bs_policies st) p msg ?open ?fo0"
  have cand: "unwrap_or (map_option (filter (\<lambda>s. \<not> mpsc_is_closed ch w (sub_tx s))) (bs_subscriptions st t)) [] = ?open"
    by (cases "bs_subscriptions st t") (simp_all add: subs_of_def)
  have "distinct (map sub_tx ?open)"
    using assms(2) unfolding broker_inv_def by (simp add: distinct_map_filter)
  note L = publish_loop_facts [OF assms(1) this, of "bs_policies st" p msg ?fo0, folded fo_def,
      simplified receivers_open fan_out.simps, folded R_def]
  have eq: "st' = st\<lparr>bs_subscriptions := (bs_subscriptions st)
          (t := map_option (filter (\<lambda>s. \<not> mpsc_is_closed ch w (sub_tx s))) (bs_subscriptions st t)),
        bs_log := push_log_entry (foldl (\<lambda>l (sub_id, entry). push_log_entry l sub_id entry)
          (bs_log st) (fo_entries fo)) i (audit_row msg (fo_delivered fo))\<rparr>"
    and w': "w' = fo_world fo" and r: "r = Inr (fo_delivered fo)"
    and m': "m' = m\<lparr>bm_publish := bm_publish m + 1, bm_deliver := bm_deliver m + unat (fo_delivered fo),
        bm_drop := bm_drop m + unat (fo_dropped fo)\<rparr>"
    using assms(3-5) cand by (simp_all add: publish_def Let_def fo_def msg_def audit_row_def)
  show "r = Inr (of_nat (length R))" "mpsc_made ch w' = mpsc_made ch w"
    "mpsc_queue ch w' d = mpsc_queue ch w d @ (if d \<in> sub_tx ` set R then [msg] else [])"
    using L by (simp_all add: r w')
  show "bs_policies st' = bs_policies st" by (simp add: eq)
  show "\<exists>P. subs_of st' u = filter P (subs_of st u)"
  proof (cases "u = t")
    case True
    then show ?thesis by (auto simp: subs_of_def eq cand [unfolded subs_of_def])
  next
    case False
    then show ?thesis by (intro exI [of _ "\<lambda>_. True"]) (simp add: subs_of_def eq)
  qed
  show "log_bounded (bs_log st')"
    using assms(2) by (auto simp: eq broker_inv_def intro!: preserve)
  show "last (broker_log i st') = audit_row msg (of_nat (length R))"
    using L by (simp add: eq broker_log_def push_log_entry_last)
  have "fo_dropped fo = of_nat (length (filter (eligible (bs_policies st) p) ?open)) - of_nat (length R)"
    using L unfolding eq_diff_eq by (metis add.left_neutral)
  then show "m' = \<lparr>bm_publish = bm_publish m + 1, bm_deliver = bm_deliver m + unat (of_nat (length R) :: u32),
           bm_drop = bm_drop m + unat (of_nat (length (filter (eligible (bs_policies st) p) ?open)) - of_nat (length R) :: u32)\<rparr>"
    using L by (simp add: m')
qed

lemma publish_refused:
  assumes "publish ch now i t payload (w, m, st) = ((w', m', st'), r)"
    and "bs_policies st i = None \<or> (\<exists>p. bs_policies st i = Some p \<and> cp_mode p = CommDeny)"
  shows "w' = w" "bs_policies st' = bs_policies st" "subs_of st' u = subs_of st u"
    "\<exists>e. r = Inl e" "log_bounded (bs_log st) \<Longrightarrow> log_bounded (bs_log st')"
  using assms push_log_entry_bounded [of "bs_log st" i]
  by (auto simp: publish_def subs_of_def)

lemma publish_inv [preserve]:
  assumes "mpsc_ok ch" "broker_inv ch w st"
    and "publish ch now i t payload (w, m, st) = ((w', m', st'), r)"
  shows "broker_inv ch w' st'"
proof (cases "bs_policies st i = None \<or> (\<exists>p. bs_policies st i = Some p \<and> cp_mode p = CommDeny)")
  case True
  show ?thesis
    using assms(2) unfolding broker_inv_def publish_refused(1-3) [OF assms(3) True]
    by (simp add: publish_refused(5) [OF assms(3) True])
next
  case False
  then obtain p where p: "bs_policies st i = Some p" "cp_mode p \<noteq> CommDeny"
    by auto
  note F = publish_facts [OF assms p]
  show ?thesis
  proof (rule broker_inv_sub [OF assms(2) F(5) _ F(6)])
    fix u s
    assume "s \<in> set (subs_of st' u)"
    then have "s \<in> set (subs_of st u)"
      using F(5) [of u] by auto
    then show "sub_sandbox_id s \<in> dom (bs_policies st')"
      using assms(2) F(4) by (simp add: broker_inv_def)
  qed (simp add: F(3))
qed

lemma receivers_same_group:
  assumes "s \<in> set (receivers ch ps p w subs)"
  shows "s \<in> set subs \<and> (\<exists>q g. ps (sub_sandbox_id s) = Some q \<and> cp_mode p = CommGroup \<and>
    cp_mode q = CommGroup \<and> cp_group p = Some g \<and> cp_group q = Some g \<and> g \<noteq> '''')"
  using assms
  by (auto simp: receivers_def eligible_def split: option.splits communication_mode.splits)

section \<open>Runs of the broker\<close>

text \<open>
  The steps of a broker shared by every sandbox: its operations, and anything the holders of the
  receiving ends do to the channels.
\<close>

inductive broker_step ::
  "('w, 'c) mpsc \<Rightarrow> 'w \<times> broker_metrics \<times> 'c broker_state \<Rightarrow> 'w \<times> broker_metrics \<times> 'c broker_state \<Rightarrow> bool"
  for ch where
  register: "broker_step ch (w, m, st) (w, m, register_sandbox i p st)"
| deregister: "broker_step ch (w, m, st) (w, m, deregister_sandbox i st)"
| publish: "publish ch now i t payload (w, m, st) = ((w', m', st'), r) \<Longrightarrow>
    broker_step ch (w, m, st) (w', m', st')"
| subscribe: "subscribe ch i t (w, st) = ((w', st'), r) \<Longrightarrow> broker_step ch (w, m, st) (w', m, st')"
| receivers: "mpsc_made ch w \<subseteq> mpsc_made ch w' \<Longrightarrow> broker_step ch (w, m, st) (w', m, st)"

definition broker_good :: "('w, 'c) mpsc \<Rightarrow> 'w \<times> broker_metrics \<times> 'c broker_state \<Rightarrow> bool" where
  "broker_good ch s \<longleftrightarrow> (mpsc_ok ch \<longrightarrow> broker_inv ch (fst s) (snd (snd s)))"

interpretation broker: invariant_system "broker_step ch" "broker_good ch" for ch :: "('w, 'c) mpsc"
proof
  fix s t :: "'w \<times> broker_metrics \<times> 'c broker_state"
  assume "broker_step ch s t" "broker_good ch s"
  then show "broker_good ch t"
  proof induction
    case (receivers w w' m st)
    then show ?case
      by (auto simp: broker_good_def intro: receivers_inv)
  qed (auto simp: broker_good_def intro: preserve)
qed

lemma broker_reachable:
  assumes "mpsc_ok ch" "(broker_step ch)\<^sup>*\<^sup>* (w0, m0, broker_new) (w, m, st)"
  shows "broker_inv ch w st"
  using broker.run_keeps [OF assms(2)] assms(1) by (simp add: broker_good_def broker_new_inv)

text \<open>A channel world to run the broker in: a list of bounded queues, none of them closed.\<close>

definition vec_mpsc :: "((nat \<times> delivered_message list) list, nat) mpsc" where
  "vec_mpsc =
     \<lparr>mpsc_channel = (\<lambda>w n. (w @ [(n, [])], length w)),
      mpsc_is_closed = (\<lambda>w c. \<not> c < length w),
      mpsc_try_send = (\<lambda>w c m. if c < length w \<and> length (snd (w ! c)) < fst (w ! c)
         then Some (w[c := (fst (w ! c), snd (w ! c) @ [m])]) else None),
      mpsc_queue = (\<lambda>w c. if c < length w then snd (w ! c) else []),
      mpsc_capacity = (\<lambda>w c. if c < length w then fst (w ! c) else 0),
      mpsc_made = (\<lambda>w. {..<length w})\<rparr>"

lemma vec_mpsc_ok: "mpsc_ok vec_mpsc"
  by (auto simp: mpsc_ok_def vec_mpsc_def mpsc_room_def nth_append nth_list_update split: if_splits)

definition demo_group :: "string \<Rightarrow> communication_policy" where
  "demo_group g = \<lparr>cp_mode = CommGroup, cp_group = Some g\<rparr>"

definition demo_metrics :: broker_metrics where
  "demo_metrics = \<lparr>bm_publish = 0, bm_deliver = 0, bm_drop = 0\<rparr>"

definition demo_state :: "nat broker_state" where
  "demo_state = snd (fst (subscribe vec_mpsc ''b'' ''t'' ([],
     register_sandbox ''c'' (demo_group ''h'')
       (register_sandbox ''b'' (demo_group ''g'') (register_sandbox ''a'' (demo_group ''g'') broker_new)))))"

lemmas demo_defs = demo_state_def demo_group_def demo_metrics_def subscribe_def register_sandbox_def
  broker_new_def vec_mpsc_def SUBSCRIBER_CHANNEL_BUFFER_def publish_def push_log_entry_def
  push_log_row_def MAX_LOG_ENTRIES_PER_SANDBOX_def

lemma demo_state_eq:
  "demo_state = \<lparr>bs_policies = [''a'' \<mapsto> demo_group ''g'', ''b'' \<mapsto> demo_group ''g'', ''c'' \<mapsto> demo_group ''h''],
     bs_subscriptions = [''t'' \<mapsto> [\<lparr>sub_sandbox_id = ''b'', sub_tx = 0\<rparr>]], bs_log = Map.empty\<rparr>"
  by (simp add: demo_defs)

lemma demo_state_inv: "broker_inv vec_mpsc [(32, [])] demo_state"
  by (auto simp: demo_state_eq broker_inv_def subs_of_def vec_mpsc_def log_bounded_def)

text \<open>
  C25: A published message reaches a channel only if the channel belongs to a subscription on that
  topic whose owner and the publisher are both in group mode with the same non-empty group; it
  is appended once, and every other channel keeps its queue.
\<close>

theorem publish_isolation:
  assumes "mpsc_ok ch" "broker_inv ch w st"
    and "publish ch now i t payload (w, m, st) = ((w', m', st'), r)"
    and "mpsc_queue ch w' c \<noteq> mpsc_queue ch w c"
  shows "\<exists>s p q g. s \<in> set (subs_of st t) \<and> sub_tx s = c \<and>
    bs_policies st i = Some p \<and> bs_policies st (sub_sandbox_id s) = Some q \<and>
    cp_mode p = CommGroup \<and> cp_mode q = CommGroup \<and>
    cp_group p = Some g \<and> cp_group q = Some g \<and> g \<noteq> '''' \<and>
    mpsc_queue ch w' c = mpsc_queue ch w c @
      [\<lparr>dm_from_sandbox = i, dm_topic = t, dm_payload = payload, dm_timestamp = now\<rparr>]"
proof -
  obtain p where p: "bs_policies st i = Some p" "cp_mode p \<noteq> CommDeny"
    using assms(4) publish_refused(1) [OF assms(3)] by (cases "bs_policies st i") auto
  note F = publish_facts [OF assms(1-3) p]
  from assms(4) F(2) [of c] obtain s
    where s: "s \<in> set (receivers ch (bs_policies st) p w (subs_of st t))" "sub_tx s = c"
    by (auto split: if_splits)
  with receivers_same_group [OF s(1)] F(2) [of c] p(1) show ?thesis
    by auto
qed

theorem publish_isolation_witness:
  "mpsc_queue vec_mpsc (fst (fst (publish vec_mpsc 7 ''a'' ''t'' ''hi'' ([(32, [])], demo_metrics, demo_state)))) 0 =
     [\<lparr>dm_from_sandbox = ''a'', dm_topic = ''t'', dm_payload = ''hi'', dm_timestamp = 7\<rparr>]"
proof -
  obtain w' m' st' r where e: "publish vec_mpsc 7 ''a'' ''t'' ''hi'' ([(32, [])], demo_metrics, demo_state) = ((w', m', st'), r)"
    by (metis prod.exhaust)
  have "mpsc_queue vec_mpsc w' 0 \<noteq> mpsc_queue vec_mpsc [(32, [])] 0"
    using e by (auto simp: demo_state_eq demo_group_def publish_def vec_mpsc_def publish_loop_Cons
        publish_one_def eligible_def)
  from publish_isolation [OF vec_mpsc_ok demo_state_inv e this] e show ?thesis
    by (auto simp: vec_mpsc_def)
qed

text \<open>
  An accepted publish returns the number of subscriptions on the topic whose owner may hear
  the publisher and whose channel is open and has room; that number is the publisher's newest
  audit row and what the delivery counter grows by.
\<close>

lemma publish_counts:
  assumes "mpsc_ok ch" "broker_inv ch w st"
    and "publish ch now i t payload (w, m, st) = ((w', m', st'), Inr n)"
    and "length (subs_of st t) < 2 ^ 32"
  shows "\<exists>p. bs_policies st i = Some p \<and>
    unat n = length (receivers ch (bs_policies st) p w (subs_of st t)) \<and>
    le_subscriber_count (last (broker_log i st')) = n \<and> le_allowed (last (broker_log i st')) \<and>
    bm_publish m' = bm_publish m + 1 \<and> bm_deliver m' = bm_deliver m + unat n"
proof -
  obtain p where p: "bs_policies st i = Some p" "cp_mode p \<noteq> CommDeny"
    using publish_refused(4) [OF assms(3)] by (cases "bs_policies st i") auto
  note F = publish_facts [OF assms(1-3) p]
  have "length (receivers ch (bs_policies st) p w (subs_of st t)) < 2 ^ 32"
    using assms(4) le_less_trans [OF length_filter_le] by (auto simp: receivers_def)
  then have "unat n = length (receivers ch (bs_policies st) p w (subs_of st t))"
    using F(1) by (simp add: unat_of_nat take_bit_nat_eq_self)
  then show ?thesis
    using F(1,7,8) p(1) by (simp add: audit_row_def)
qed

text \<open>
  C26: Whatever sandboxes register, publish, subscribe and leave, every audit row keeps at most 256
  entries, no channel serves two subscriptions, and every subscription belongs to a registered
  sandbox.
\<close>

theorem broker_run_invariant:
  assumes "mpsc_ok ch" "(broker_step ch)\<^sup>*\<^sup>* (w0, m0, broker_new) (w, m, st)"
  shows "length (broker_log i st) \<le> 256 \<and> distinct (map sub_tx (subs_of st t)) \<and>
    (t \<noteq> t' \<longrightarrow> sub_tx ` set (subs_of st t) \<inter> sub_tx ` set (subs_of st t') = {}) \<and>
    sub_sandbox_id ` set (subs_of st t) \<subseteq> dom (bs_policies st)"
proof -
  have inv: "broker_inv ch w st"
    by (rule broker_reachable [OF assms])
  then have "length (broker_log i st) \<le> 256"
    using log_bounded_row [of "bs_log st" i]
    by (simp add: broker_inv_def broker_log_def MAX_LOG_ENTRIES_PER_SANDBOX_def)
  with inv show ?thesis
    by (auto simp: broker_inv_def)
qed

theorem broker_run_invariant_witness:
  "length (broker_log ''a'' (register_sandbox ''a'' (demo_group ''g'') broker_new :: nat broker_state)) \<le> 256"
proof -
  have "(broker_step vec_mpsc)\<^sup>*\<^sup>* ([], demo_metrics, broker_new)
      ([], demo_metrics, register_sandbox ''a'' (demo_group ''g'') broker_new)"
    by (rule r_into_rtranclp) (rule broker_step.register)
  from broker_run_invariant [OF vec_mpsc_ok this] show ?thesis by simp
qed

text \<open>
  After a sandbox is deregistered the broker holds no trace of it, refuses its publishes, and
  no later publish by anyone reaches a channel it had subscribed with.
\<close>

lemma deregister_silences:
  assumes "mpsc_ok ch" "broker_inv ch w st"
    and "s \<in> set (subs_of st u)" "sub_sandbox_id s = i"
    and "publish ch now j t payload (w, m, deregister_sandbox i st) = ((w', m', st'), r)"
  shows "broker_log i (deregister_sandbox i st) = [] \<and> bs_policies (deregister_sandbox i st) i = None \<and>
    mpsc_queue ch w' (sub_tx s) = mpsc_queue ch w (sub_tx s) \<and>
    (j = i \<longrightarrow> r = Inl (SandboxNotFound i))"
proof -
  have "broker_log i (deregister_sandbox i st) = []" "bs_policies (deregister_sandbox i st) i = None"
    by (simp_all add: deregister_sandbox_def broker_log_def)
  moreover from this have "j = i \<Longrightarrow> r = Inl (SandboxNotFound i)"
    using assms(5) by (simp add: publish_def)
  moreover have "mpsc_queue ch w' (sub_tx s) = mpsc_queue ch w (sub_tx s)"
  proof (rule ccontr)
    assume ne: "mpsc_queue ch w' (sub_tx s) \<noteq> mpsc_queue ch w (sub_tx s)"
    then obtain p where p: "bs_policies (deregister_sandbox i st) j = Some p" "cp_mode p \<noteq> CommDeny"
      using publish_refused(1) [OF assms(5)] by (cases "bs_policies (deregister_sandbox i st) j") auto
    have "\<exists>s'. s' \<in> set (subs_of st t) \<and> sub_sandbox_id s' \<noteq> i \<and> sub_tx s' = sub_tx s"
      using publish_facts(2) [OF assms(1) deregister_inv [OF assms(2)] assms(5) p, of "sub_tx s"]
        ne
      by (auto simp: subs_of_deregister receivers_def split: if_splits)
    then show False
      using broker_inv_owner [OF assms(2,3)] assms(4) by metis
  qed
  ultimately show ?thesis by simp
qed

end
