(* ===== verification/Egress.thy ===== *)
theory Egress
  imports Validate "HOL-Library.List_Lexorder" "HOL-Library.Char_ord" "HOL-Library.Product_Lexorder"
    "HOL-Library.Multiset"
begin

text \<open>
  The egress proxy of a sandbox, \<open>ward-core/src/egress/proxy.rs\<close>, and its record of refused
  hosts, \<open>ward-core/src/egress/blocked.rs\<close>: the policy decision, the \<open>CONNECT\<close> request parser,
  the address check before a connection is made, the idle time-out of a tunnel.

  What the network does is an input of the definitions: the lines a client sends, the addresses
  a name resolves to, which connection attempts and writes succeed, what a read returns. Times
  are natural numbers.
\<close>

unbundle bit_operations_syntax

section \<open>Refused destinations\<close>

definition MAX_BLOCKED_HOSTS :: nat where "MAX_BLOCKED_HOSTS = 256"

record blocked_destination =
  bd_host :: string
  bd_count :: u64
  bd_last_seen :: nat

type_synonym blocked_egress = "(string \<times> blocked_destination) list"

text \<open>\<open>Iterator::min_by_key\<close>: the first of the least.\<close>

fun min_by_key :: "('a \<Rightarrow> 'k :: linorder) \<Rightarrow> 'a list \<Rightarrow> 'a option" where
  "min_by_key f [] = None"
| "min_by_key f (x # xs) =
     (case min_by_key f xs of None \<Rightarrow> Some x | Some y \<Rightarrow> if f x \<le> f y then Some x else Some y)"

definition blocked_record :: "string \<Rightarrow> nat \<Rightarrow> blocked_egress \<Rightarrow> blocked_egress" where
  "blocked_record host0 now hosts =
     (let host = to_ascii_lowercase host0
      in case map_of hosts host of
           Some seen \<Rightarrow>
             AList.update host (seen\<lparr>bd_count := bd_count seen + 1, bd_last_seen := now\<rparr>) hosts
         | None \<Rightarrow>
             (let hosts' =
                (if length hosts \<ge> MAX_BLOCKED_HOSTS
                 then (case min_by_key bd_last_seen (map snd hosts) of
                         Some oldest \<Rightarrow> AList.delete (bd_host oldest) hosts
                       | None \<Rightarrow> hosts)
                 else hosts)
              in AList.update host \<lparr>bd_host = host, bd_count = 1, bd_last_seen = now\<rparr> hosts'))"

definition blocked_snapshot :: "blocked_egress \<Rightarrow> blocked_destination list" where
  "blocked_snapshot hosts =
     sort_key (\<lambda>d. (- int (bd_last_seen d), bd_host d)) (map snd hosts)"

section \<open>Policy decisions\<close>

record egress_log_entry =
  el_sandbox_id :: string
  el_domain :: string
  el_port :: u16
  el_allowed :: bool
  el_timestamp :: nat

record egress_proxy =
  px_sandbox_id :: string
  px_policy :: egress_policy
  px_log :: "egress_log_entry list"
  px_log_capacity :: nat
  px_blocked :: blocked_egress

text \<open>The counter \<open>wardd_egress_check_total\<close> by its \<open>decision\<close> label.\<close>

record egress_metrics =
  em_allowed :: nat
  em_denied :: nat

definition egress_new :: "string \<Rightarrow> egress_policy \<Rightarrow> egress_proxy" where
  "egress_new sandbox_id policy =
     \<lparr>px_sandbox_id = sandbox_id, px_policy = policy, px_log = [], px_log_capacity = 1000,
      px_blocked = []\<rparr>"

definition with_blocked :: "blocked_egress \<Rightarrow> egress_proxy \<Rightarrow> egress_proxy" where
  "with_blocked blocked self = self\<lparr>px_blocked := blocked\<rparr>"

definition matches_domain :: "string \<Rightarrow> string \<Rightarrow> bool" where
  "matches_domain pattern domain =
     (case strip_prefix ''*.'' pattern of
        Some suff \<Rightarrow>
          ends_with domain suff \<and> length domain > length suff + 1 \<and>
          domain ! (length domain - length suff - 1) = CHR ''.''
      | None \<Rightarrow> eq_ignore_ascii_case pattern domain)"

definition egress_log_push :: "nat \<Rightarrow> egress_log_entry list \<Rightarrow> egress_log_entry \<Rightarrow> egress_log_entry list" where
  "egress_log_push cap log entry = (if length log \<ge> cap then tl log else log) @ [entry]"

definition egress_record :: "string \<Rightarrow> u16 \<Rightarrow> bool \<Rightarrow> nat \<Rightarrow> egress_proxy \<Rightarrow> egress_proxy" where
  "egress_record domain port allowed now self =
     self\<lparr>px_log := egress_log_push (px_log_capacity self) (px_log self)
        \<lparr>el_sandbox_id = px_sandbox_id self, el_domain = domain, el_port = port,
         el_allowed = allowed, el_timestamp = now\<rparr>\<rparr>"

definition policy_allows :: "egress_policy \<Rightarrow> string \<Rightarrow> bool" where
  "policy_allows policy domain =
     (case ep_mode policy of
        EgressDeny \<Rightarrow> False
      | EgressOpen \<Rightarrow> True
      | EgressAllowlist \<Rightarrow> list_ex (\<lambda>pattern. matches_domain pattern domain) (ep_domains policy))"

text \<open>\<open>check\<close> reads the clock for the refused hosts and again for the log.\<close>

definition egress_check ::
  "nat \<Rightarrow> nat \<Rightarrow> string \<Rightarrow> u16 \<Rightarrow> egress_metrics \<times> egress_proxy \<Rightarrow> (egress_metrics \<times> egress_proxy) \<times> bool" where
  "egress_check now1 now2 domain port ms =
     (case ms of (m, self) \<Rightarrow>
      let allowed = policy_allows (px_policy self) domain;
          m' = (if allowed then m\<lparr>em_allowed := em_allowed m + 1\<rparr>
                else m\<lparr>em_denied := em_denied m + 1\<rparr>);
          self1 = (if allowed then self
                   else self\<lparr>px_blocked := blocked_record domain now1 (px_blocked self)\<rparr>)
      in ((m', egress_record domain port allowed now2 self1), allowed))"

definition log_entries :: "egress_proxy \<Rightarrow> egress_log_entry list" where
  "log_entries self = px_log self"

definition set_policy :: "egress_policy \<Rightarrow> egress_proxy \<Rightarrow> egress_proxy" where
  "set_policy policy self = self\<lparr>px_policy := policy\<rparr>"

definition add_new :: "string list \<Rightarrow> string list \<Rightarrow> string list" where
  "add_new known domains = foldl (\<lambda>ds d. if d \<in> set ds then ds else ds @ [d]) known domains"

definition allow_domains :: "string list \<Rightarrow> egress_proxy \<Rightarrow> egress_proxy" where
  "allow_domains domains self =
     self\<lparr>px_policy := (px_policy self)\<lparr>ep_domains := add_new (ep_domains (px_policy self)) domains\<rparr>\<rparr>"

section \<open>Addresses that must not be reached\<close>

function is_private_or_local :: "ip_addr \<Rightarrow> bool" where
  "is_private_or_local (V4 a b c d) \<longleftrightarrow>
     v4_is_private a b \<or> v4_is_loopback a \<or> v4_is_link_local a b \<or> v4_is_multicast a \<or>
     v4_is_unspecified a b c d \<or> v4_is_broadcast a b c d \<or>
     a = 0 \<or>
     (a = 100 \<and> (b AND 0xC0) = 0x40) \<or>
     (a = 192 \<and> b = 0 \<and> c = 0) \<or>
     (a = 192 \<and> b = 0 \<and> c = 2) \<or>
     (a = 198 \<and> b = 51 \<and> c = 100) \<or>
     (a = 203 \<and> b = 0 \<and> c = 113) \<or>
     (a = 198 \<and> (b AND 0xFE) = 18) \<or>
     a \<ge> 240"
| "is_private_or_local (V6 s0 s1 s2 s3 s4 s5 s6 s7) \<longleftrightarrow>
     v6_is_loopback [s0, s1, s2, s3, s4, s5, s6, s7] \<or>
     v6_is_unspecified [s0, s1, s2, s3, s4, s5, s6, s7] \<or>
     (s0 AND 0xFF00) = 0xFF00 \<or>
     (s0 AND 0xFFC0) = 0xFE80 \<or>
     (s0 AND 0xFE00) = 0xFC00 \<or>
     s0 = 0x2002 \<or>
     (s0 = 0x0064 \<and> s1 = 0xFF9B) \<or>
     (s0 = 0x2001 \<and> s1 = 0x0000) \<or>
     (case to_ipv4_mapped (V6 s0 s1 s2 s3 s4 s5 s6 s7) of
        Some v4 \<Rightarrow> is_private_or_local v4
      | None \<Rightarrow> False)"
  by pat_completeness auto

termination
proof (relation "measure (\<lambda>ip. case ip of V4 _ _ _ _ \<Rightarrow> 0 | V6 _ _ _ _ _ _ _ _ \<Rightarrow> (1 :: nat))")
qed (auto split: if_splits)

section \<open>CONNECT requests\<close>

definition MAX_HEADER_LINES :: nat where "MAX_HEADER_LINES = 100"

text \<open>What successive \<open>read_line\<close> calls give; nothing more means the end of the stream.\<close>

type_synonym line_reads = "(io_kind + string) list"

fun next_line :: "line_reads \<Rightarrow> (io_kind + string) \<times> line_reads" where
  "next_line [] = (Inr '''', [])"
| "next_line (l # ls) = (l, ls)"

fun drain_headers :: "nat \<Rightarrow> line_reads \<Rightarrow> io_kind + unit" where
  "drain_headers 0 reads = Inr ()"
| "drain_headers (Suc n) reads =
     (case next_line reads of
        (Inl e, _) \<Rightarrow> Inl e
      | (Inr line, rest) \<Rightarrow>
          if line = '''' \<or> line = [CHR 0x0D, CHR 0x0A] \<or> line = [CHR 0x0A] then Inr ()
          else drain_headers n rest)"

definition connect_target :: "string \<Rightarrow> (string \<times> u16) option" where
  "connect_target request_line =
     (let parts = split_whitespace request_line;
          method = (case parts of m # _ \<Rightarrow> m | [] \<Rightarrow> '''');
          target = (case parts of _ # t # _ \<Rightarrow> t | _ \<Rightarrow> '''')
      in if \<not> eq_ignore_ascii_case method ''CONNECT'' then None
         else (case rsplit_once (CHR '':'') target of
                 None \<Rightarrow> None
               | Some (host, port_str) \<Rightarrow>
                   (case parse_unsigned 65535 port_str of
                      None \<Rightarrow> None
                    | Some port \<Rightarrow> if host = '''' then None else Some (host, of_nat port))))"

definition read_connect_target :: "line_reads \<Rightarrow> io_kind + (string \<times> u16) option" where
  "read_connect_target reads =
     (case next_line reads of
        (Inl e, _) \<Rightarrow> Inl e
      | (Inr request_line, rest) \<Rightarrow>
          if request_line = '''' then Inr None
          else and_then (drain_headers MAX_HEADER_LINES rest)
                 (\<lambda>_. Inr (connect_target request_line)))"

type_synonym socket_addr = "ip_addr \<times> u16"

text \<open>
  \<open>connect_first_reachable\<close> with the outcome of each attempt: the addresses tried and the one
  connected to.
\<close>

fun connect_first_reachable :: "bool list \<Rightarrow> socket_addr list \<Rightarrow> socket_addr list \<times> socket_addr option" where
  "connect_first_reachable oks [] = ([], None)"
| "connect_first_reachable oks (sa # addrs) =
     (case oks of
        True # _ \<Rightarrow> ([sa], Some sa)
      | _ \<Rightarrow> (case connect_first_reachable (tl oks) addrs of (tried, r) \<Rightarrow> (sa # tried, r)))"

text \<open>What the handler of one connection did: its answer, the addresses it tried, its tunnel.\<close>

record connect_run =
  cr_response :: "string option"
  cr_tried :: "socket_addr list"
  cr_tunnel :: "socket_addr option"
  cr_error :: bool

text \<open>The rest of the environment of a connection.\<close>

record connect_env =
  ce_reads :: line_reads
  ce_now1 :: nat
  ce_now2 :: nat
  ce_lookup :: "string \<Rightarrow> u16 \<Rightarrow> socket_addr list option"
  ce_connects :: "bool list"
  ce_write_ok :: bool
  ce_tunnel_ok :: bool

definition respond :: "connect_env \<Rightarrow> string \<Rightarrow> socket_addr list \<Rightarrow> connect_run" where
  "respond env status tried =
     \<lparr>cr_response = Some status, cr_tried = tried, cr_tunnel = None, cr_error = \<not> ce_write_ok env\<rparr>"

definition trim_brackets :: "string \<Rightarrow> string" where
  "trim_brackets host =
     rev (dropWhile (\<lambda>c. c = CHR '']'') (rev (dropWhile (\<lambda>c. c = CHR ''['') host)))"

definition handle_connect ::
  "connect_env \<Rightarrow> egress_metrics \<times> egress_proxy \<Rightarrow> (egress_metrics \<times> egress_proxy) \<times> connect_run" where
  "handle_connect env ms =
     (case read_connect_target (ce_reads env) of
        Inl e \<Rightarrow> (ms, \<lparr>cr_response = None, cr_tried = [], cr_tunnel = None, cr_error = True\<rparr>)
      | Inr None \<Rightarrow> (ms, respond env ''400 Bad Request'' [])
      | Inr (Some (host0, port)) \<Rightarrow>
          (let host = trim_brackets host0
           in case egress_check (ce_now1 env) (ce_now2 env) host port ms of
                (ms', False) \<Rightarrow> (ms', respond env ''403 Forbidden'' [])
              | (ms', True) \<Rightarrow>
                  (case ce_lookup env host port of
                     None \<Rightarrow> (ms', respond env ''502 Bad Gateway'' [])
                   | Some resolved \<Rightarrow>
                       if list_ex (\<lambda>sa. is_private_or_local (fst sa)) resolved
                       then (ms', respond env ''403 Forbidden'' [])
                       else (case connect_first_reachable (ce_connects env) resolved of
                               (tried, None) \<Rightarrow> (ms', respond env ''502 Bad Gateway'' tried)
                             | (tried, Some sa) \<Rightarrow>
                                 (ms', \<lparr>cr_response = Some ''200 Connection Established'',
                                        cr_tried = tried,
                                        cr_tunnel = (if ce_write_ok env then Some sa else None),
                                        cr_error = \<not> (ce_write_ok env \<and> ce_tunnel_ok env)\<rparr>)))))"

section \<open>Idle tunnels\<close>

text \<open>
  One turn of the loop of \<open>pump\<close>: what \<open>timeout_at\<close> gave and the time of the turn. The last
  activity is shared by both directions.
\<close>

datatype read_outcome = Elapsed | ReadEof | ReadBytes bytes | ReadFailed

datatype pump_result = PumpContinue | PumpWrite bytes | PumpDone | PumpTimedOut | PumpFailed

definition pump_turn :: "nat \<Rightarrow> nat \<Rightarrow> read_outcome \<Rightarrow> nat \<Rightarrow> nat \<times> pump_result" where
  "pump_turn idle_timeout now outcome last_activity =
     (case outcome of
        Elapsed \<Rightarrow>
          if last_activity + idle_timeout > now then (last_activity, PumpContinue)
          else (last_activity, PumpTimedOut)
      | ReadEof \<Rightarrow> (last_activity, PumpDone)
      | ReadBytes b \<Rightarrow> (now, PumpWrite b)
      | ReadFailed \<Rightarrow> (last_activity, PumpFailed))"

text \<open>The turns of the two pumps in the order they happen; the flag tells the direction.\<close>

fun tunnel_turns :: "nat \<Rightarrow> (bool \<times> nat \<times> read_outcome) list \<Rightarrow> nat \<Rightarrow> pump_result list" where
  "tunnel_turns idle [] la = []"
| "tunnel_turns idle ((dir, now, out) # ts) la =
     (case pump_turn idle now out la of (la', r) \<Rightarrow> r # tunnel_turns idle ts la')"

section \<open>Refused hosts\<close>

lemma min_by_key_None [simp]: "min_by_key f xs = None \<longleftrightarrow> xs = []"
  by (cases xs) (auto split: option.splits)

lemma min_by_key_Some:
  "min_by_key f xs = Some m \<Longrightarrow> m \<in> set xs \<and> (\<forall>x \<in> set xs. f m \<le> f x)"
proof (induction xs arbitrary: m)
  case (Cons x xs)
  then show ?case
    by (cases "min_by_key f xs") (force split: if_splits)+
qed simp

definition blocked_inv :: "blocked_egress \<Rightarrow> bool" where
  "blocked_inv hosts \<longleftrightarrow>
     keys_ok hosts \<and> length hosts \<le> MAX_BLOCKED_HOSTS \<and>
     (\<forall>k d. map_of hosts k = Some d \<longrightarrow> bd_host d = k)"

lemma blocked_values:
  assumes "blocked_inv hosts" "d \<in> set (map snd hosts)"
  shows "map_of hosts (bd_host d) = Some d"
proof -
  from assms obtain k where "map_of hosts k = Some d"
    unfolding blocked_inv_def keys_ok_def by force
  with assms(1) show ?thesis
    by (simp add: blocked_inv_def)
qed

lemma blocked_full:
  assumes "blocked_inv hosts" "length hosts \<ge> MAX_BLOCKED_HOSTS"
  obtains v d where "min_by_key bd_last_seen (map snd hosts) = Some d" "bd_host d = v"
    "map_of hosts v = Some d" "\<forall>e \<in> set (map snd hosts). bd_last_seen d \<le> bd_last_seen e"
proof -
  have "map snd hosts \<noteq> []"
    using assms(2) by (auto simp: MAX_BLOCKED_HOSTS_def)
  then obtain d where d: "min_by_key bd_last_seen (map snd hosts) = Some d"
    by fastforce
  note m = min_by_key_Some [OF d]
  then obtain v where v: "map_of hosts v = Some d"
    using assms(1) by (auto simp: blocked_inv_def keys_ok_map_of dest: map_of_is_SomeI)
  then have "bd_host d = v"
    using assms(1) by (simp add: blocked_inv_def)
  with d v m that show thesis by blast
qed

lemma blocked_update_inv:
  assumes "keys_ok hosts" "\<forall>k d. map_of hosts k = Some d \<longrightarrow> bd_host d = k" "bd_host d = h"
    and "map_of hosts h = None \<Longrightarrow> length hosts < MAX_BLOCKED_HOSTS" "length hosts \<le> MAX_BLOCKED_HOSTS"
  shows "blocked_inv (AList.update h d hosts)"
  using assms by (auto simp: blocked_inv_def update_conv' length_update map_of_eq_None_iff)

lemma map_of_delete_Some: "map_of (AList.delete v hosts) k = Some d \<Longrightarrow> map_of hosts k = Some d"
  by (auto simp: delete_conv' split: if_splits)

text \<open>
  Recording a refusal keeps at most 256 hosts, counts the host once more under its lower-case
  name with the new time, and forgets at most one other host: only when full and the host is
  new, and then one seen no later than every other.
\<close>

lemma blocked_record_lru:
  fixes hosts :: blocked_egress and host :: string and now :: nat
  assumes inv: "blocked_inv hosts"
  defines "h \<equiv> to_ascii_lowercase host" and "r \<equiv> blocked_record host now hosts"
  shows "blocked_inv r \<and>
    map_of r h = Some \<lparr>bd_host = h,
      bd_count = (case map_of hosts h of Some d \<Rightarrow> bd_count d + 1 | None \<Rightarrow> 1), bd_last_seen = now\<rparr> \<and>
    ((\<forall>k. k \<noteq> h \<longrightarrow> map_of r k = map_of hosts k) \<or>
     (length hosts = 256 \<and> map_of hosts h = None \<and>
      (\<exists>v d. map_of hosts v = Some d \<and> (\<forall>e \<in> set (map snd hosts). bd_last_seen d \<le> bd_last_seen e) \<and>
         (\<forall>k. k \<noteq> h \<longrightarrow> map_of r k = (if k = v then None else map_of hosts k)))))"
proof (cases "map_of hosts h")
  case (Some d)
  then have r: "r = AList.update h (d\<lparr>bd_count := bd_count d + 1, bd_last_seen := now\<rparr>) hosts"
    by (simp add: r_def blocked_record_def Let_def flip: h_def)
  have "bd_host d = h"
    using inv Some by (simp add: blocked_inv_def)
  then have "blocked_inv r"
    unfolding r using inv Some by (intro blocked_update_inv) (auto simp: blocked_inv_def)
  with \<open>bd_host d = h\<close> Some show ?thesis
    by (cases d) (simp add: r update_conv')
next
  case None
  note new = None
  let ?d = "\<lparr>bd_host = h, bd_count = 1, bd_last_seen = now\<rparr>"
  show ?thesis
  proof (cases "length hosts \<ge> MAX_BLOCKED_HOSTS")
    case True
    from blocked_full [OF inv True] obtain v d where v: "min_by_key bd_last_seen (map snd hosts) = Some d"
      "bd_host d = v" "map_of hosts v = Some d" "\<forall>e \<in> set (map snd hosts). bd_last_seen d \<le> bd_last_seen e"
      by blast
    have r: "r = AList.update h ?d (AList.delete v hosts)"
      using new True v(1,2) by (simp add: r_def blocked_record_def Let_def flip: h_def)
    have "length (AList.delete v hosts) < length hosts"
      using v(3) by (intro length_delete_less) auto
    then have "blocked_inv r"
      unfolding r using inv
      by (intro blocked_update_inv) (auto simp: blocked_inv_def dest: map_of_delete_Some)
    moreover have "length hosts = 256"
      using True inv by (simp add: blocked_inv_def MAX_BLOCKED_HOSTS_def)
    moreover have "map_of r h = Some ?d"
      "k \<noteq> h \<Longrightarrow> map_of r k = (if k = v then None else map_of hosts k)" for k
      by (simp_all add: r update_conv' delete_conv')
    moreover note new v(3,4)
    ultimately show ?thesis
      by (intro conjI disjI2 exI [of _ v] exI [of _ d]) simp_all
  next
    case False
    then have r: "r = AList.update h ?d hosts"
      using new by (simp add: r_def blocked_record_def Let_def flip: h_def)
    have "blocked_inv r"
      unfolding r using inv False by (intro blocked_update_inv) (auto simp: blocked_inv_def)
    then show ?thesis
      using new by (simp add: r update_conv')
  qed
qed

text \<open>
  The report of refused hosts does not depend on the iteration order of the hash map: it is the
  same list for every order, newest first and then by name.
\<close>

theorem blocked_snapshot_order:
  assumes "blocked_inv hosts" "mset hosts' = mset hosts"
  shows "blocked_snapshot hosts' = blocked_snapshot hosts \<and>
    sorted_wrt (\<lambda>a b. bd_last_seen a > bd_last_seen b \<or>
       bd_last_seen a = bd_last_seen b \<and> bd_host a \<le> bd_host b) (blocked_snapshot hosts)"
proof
  let ?f = "\<lambda>d. (- int (bd_last_seen d), bd_host d)"
  have inj: "inj_on ?f (set (map snd hosts))"
  proof (rule inj_onI)
    fix d e
    assume d: "d \<in> set (map snd hosts)" and e: "e \<in> set (map snd hosts)" and "?f d = ?f e"
    then show "d = e"
      using blocked_values [OF assms(1) d] blocked_values [OF assms(1) e] by (metis option.inject prod.inject)
  qed
  have same: "mset (map snd hosts') = mset (map snd hosts)"
    using assms(2) by (metis mset_map)
  have "sort_key ?f (map snd hosts') = sort_key ?f (map snd hosts)"
  proof (rule sort_key_inj_key_eq)
    show "mset (map snd hosts') = mset (sort_key ?f (map snd hosts))"
      using same by simp
    show "inj_on ?f (set (map snd hosts'))"
      using inj mset_eq_setD [OF same] by simp
  qed (rule sorted_sort_key)
  then show "blocked_snapshot hosts' = blocked_snapshot hosts"
    by (simp add: blocked_snapshot_def)
  have "sorted_wrt (\<lambda>a b. ?f a \<le> ?f b) (blocked_snapshot hosts)"
    using sorted_sort_key [of ?f "map snd hosts"] unfolding blocked_snapshot_def sorted_map .
  then show "sorted_wrt (\<lambda>a b. bd_last_seen a > bd_last_seen b \<or>
       bd_last_seen a = bd_last_seen b \<and> bd_host a \<le> bd_host b) (blocked_snapshot hosts)"
    by (rule sorted_wrt_mono_rel [rotated]) auto
qed


section \<open>Domain patterns and decisions\<close>

lemma matches_domain_wildcard:
  "matches_domain (''*.'' @ suff) domain \<longleftrightarrow> (\<exists>l. l \<noteq> [] \<and> domain = l @ CHR ''.'' # suff)"
proof -
  have "matches_domain (''*.'' @ suff) domain \<longleftrightarrow>
      ends_with domain suff \<and> length domain > length suff + 1 \<and>
      domain ! (length domain - length suff - 1) = CHR ''.''"
    by (simp add: matches_domain_def strip_prefix_def)
  also have "\<dots> \<longleftrightarrow> (\<exists>l. l \<noteq> [] \<and> domain = l @ CHR ''.'' # suff)"
  proof (intro iffI; elim conjE exE)
    assume "ends_with domain suff" and len: "length domain > length suff + 1"
      and dot: "domain ! (length domain - length suff - 1) = CHR ''.''"
    then obtain pre where d: "domain = pre @ suff"
      by (auto simp: ends_with_iff suffix_def)
    with len obtain l c where pre: "pre = l @ [c]" and "l \<noteq> []"
      by (cases pre rule: rev_cases) auto
    with dot d show "\<exists>l. l \<noteq> [] \<and> domain = l @ CHR ''.'' # suff"
      by (auto simp: nth_append)
  qed (auto simp: ends_with_iff suffix_def nth_append)
  finally show ?thesis .
qed

lemma matches_domain_exact:
  "\<not> prefix ''*.'' pattern \<Longrightarrow> matches_domain pattern domain \<longleftrightarrow> eq_ignore_ascii_case pattern domain"
  using strip_prefix_None [of "''*.''" pattern] by (simp add: matches_domain_def)

text \<open>
  A wildcard pattern matches exactly the names with at least one character in front of a dot
  and the rest of the pattern, so never the bare domain or a look-alike; any other pattern
  matches exactly the names equal to it up to ASCII case.
\<close>

lemma matches_domain_spec:
  "matches_domain pattern domain =
     (case strip_prefix ''*.'' pattern of
        Some suff \<Rightarrow> \<exists>l. l \<noteq> [] \<and> domain = l @ CHR ''.'' # suff
      | None \<Rightarrow> to_ascii_lowercase pattern = to_ascii_lowercase domain)"
proof (cases "strip_prefix ''*.'' pattern")
  case None
  then show ?thesis
    by (simp add: matches_domain_def eq_ignore_ascii_case_def)
next
  case (Some suff)
  then have "pattern = ''*.'' @ suff"
    by (simp add: strip_prefix_Some)
  with Some show ?thesis
    by (simp only: matches_domain_wildcard option.case)
qed

interpretation egress_log: bounded_log "egress_log_push 1000" 1000
proof
  fix q :: "egress_log_entry list" and e
  assume "length q \<le> 1000"
  then show "egress_log_push 1000 q e = last_n 1000 (q @ [e])"
    by (cases "length q = 1000") (auto simp: egress_log_push_def last_n_def drop_Suc)
qed

lemma set_add_new: "set (add_new known ds) = set known \<union> set ds"
  unfolding add_new_def by (induction ds arbitrary: known) auto

lemma length_add_new: "length (add_new known ds) = length known + card (set ds - set known)"
proof (induction ds rule: rev_induct)
  case (snoc d ds)
  have "add_new known (ds @ [d]) = (if d \<in> set known \<union> set ds then add_new known ds else add_new known ds @ [d])"
    by (simp add: add_new_def set_add_new [unfolded add_new_def])
  with snoc show ?case
    by (auto simp: insert_Diff_if insert_absorb)
qed (simp add: add_new_def)

lemma policy_allows_add:
  "policy_allows (p\<lparr>ep_domains := add_new (ep_domains p) ds\<rparr>) d \<longleftrightarrow>
     policy_allows p d \<or> (ep_mode p = EgressAllowlist \<and> list_ex (\<lambda>q. matches_domain q d) ds)"
  by (cases "ep_mode p") (auto simp: policy_allows_def list_ex_iff set_add_new)

text \<open>
  Adding domains to a running proxy allows exactly what was allowed before plus, in allowlist
  mode only, the names the new patterns match; a repeated domain is not stored twice.
\<close>

lemma allow_domains_check:
  "snd (egress_check t1 t2 d port (m, allow_domains ds px)) =
     (snd (egress_check t1 t2 d port (m, px)) \<or>
      (ep_mode (px_policy px) = EgressAllowlist \<and> list_ex (\<lambda>q. matches_domain q d) ds)) \<and>
   set (ep_domains (px_policy (allow_domains ds px))) = set (ep_domains (px_policy px)) \<union> set ds \<and>
   length (ep_domains (px_policy (allow_domains ds px))) =
     length (ep_domains (px_policy px)) + card (set ds - set (ep_domains (px_policy px)))"
  by (simp add: egress_check_def allow_domains_def Let_def policy_allows_add set_add_new length_add_new)


section \<open>Reserved addresses\<close>

text \<open>The IPv4 blocks the comment of \<open>is_private_or_local\<close> lists, as address and prefix length.\<close>

definition v4_number :: "u8 \<Rightarrow> u8 \<Rightarrow> u8 \<Rightarrow> u8 \<Rightarrow> nat" where
  "v4_number a b c d = ((unat a * 256 + unat b) * 256 + unat c) * 256 + unat d"

definition in_block :: "nat \<Rightarrow> nat \<times> nat \<Rightarrow> bool" where
  "in_block n blk \<longleftrightarrow> n div 2 ^ (32 - snd blk) = fst blk div 2 ^ (32 - snd blk)"

definition RESERVED_V4 :: "(nat \<times> nat) list" where
  "RESERVED_V4 =
     [(v4_number 0 0 0 0, 8), (v4_number 10 0 0 0, 8), (v4_number 100 64 0 0, 10),
      (v4_number 127 0 0 0, 8), (v4_number 169 254 0 0, 16), (v4_number 172 16 0 0, 12),
      (v4_number 192 0 0 0, 24), (v4_number 192 0 2 0, 24), (v4_number 192 168 0 0, 16),
      (v4_number 198 18 0 0, 15), (v4_number 198 51 100 0, 24), (v4_number 203 0 113 0, 24),
      (v4_number 224 0 0 0, 4), (v4_number 240 0 0 0, 4)]"

lemma byte_word_less: "unat (b :: u8) < 256"
proof -
  have "unat b < 2 ^ LENGTH(8)"
    by (rule unsigned_less)
  then show ?thesis by simp
qed

lemma and_bits_int:
  "list_all (\<lambda>n. ((n :: int) AND 0xC0 = 0x40) = (n div 64 = 1) \<and> (n AND 0xFE = 18) = (n div 2 = 9)) [0..255]"
  by code_simp

lemma and_bits:
  "((b :: u8) AND 0xC0) = 0x40 \<longleftrightarrow> unat b div 64 = 1"
  "((b :: u8) AND 0xFE) = 18 \<longleftrightarrow> unat b div 2 = 9"
proof -
  have "uint b < 2 ^ LENGTH(8)"
    by (rule unsigned_less)
  then have "uint b \<in> {0..255}" by simp
  then have i: "(uint b AND 0xC0 = 0x40) = (uint b div 64 = 1) \<and> (uint b AND 0xFE = 18) = (uint b div 2 = 9)"
    using and_bits_int unfolding list_all_iff set_upto by blast
  have "int (unat b div 64) = uint b div 64" "int (unat b div 2) = uint b div 2"
    by (simp_all add: of_nat_div)
  then have u: "uint b div 64 = 1 \<longleftrightarrow> unat b div 64 = 1" "uint b div 2 = 9 \<longleftrightarrow> unat b div 2 = 9"
    using of_nat_eq_iff [of "unat b div 64" 1, where 'a = int] of_nat_eq_iff [of "unat b div 2" 9, where 'a = int]
    by simp_all
  show "((b :: u8) AND 0xC0) = 0x40 \<longleftrightarrow> unat b div 64 = 1"
    "((b :: u8) AND 0xFE) = 18 \<longleftrightarrow> unat b div 2 = 9"
    using i unfolding u by (simp_all add: word_uint_eq_iff unsigned_and_eq)
qed

lemma v4_number_div:
  "v4_number a b c d div 2 ^ 24 = unat a"
  "v4_number a b c d div 2 ^ 16 = unat a * 256 + unat b"
  "v4_number a b c d div 2 ^ 8 = (unat a * 256 + unat b) * 256 + unat c"
  "v4_number a b c d div 2 ^ 28 = unat a div 16"
  "v4_number a b c d div 2 ^ 22 = unat a * 4 + unat b div 64"
  "v4_number a b c d div 2 ^ 20 = unat a * 16 + unat b div 16"
  "v4_number a b c d div 2 ^ 17 = unat a * 128 + unat b div 2"
  using byte_word_less [of a] byte_word_less [of b] byte_word_less [of c] byte_word_less [of d]
  unfolding v4_number_def by simp_all


lemma digits_eq:
  assumes "(y :: nat) < k" "y' < k"
  shows "x * k + y = x' * k + y' \<longleftrightarrow> x = x' \<and> y = y'"
proof
  assume "x * k + y = x' * k + y'"
  then have "(x * k + y) div k = (x' * k + y') div k" "(x * k + y) mod k = (x' * k + y') mod k"
    by simp_all
  with assms show "x = x' \<and> y = y'" by simp
qed simp

lemma in_block_v4:
  "in_block (v4_number a b c d) (v4_number a' b' c' d', 8) \<longleftrightarrow> a = a'"
  "in_block (v4_number a b c d) (v4_number a' b' c' d', 16) \<longleftrightarrow> a = a' \<and> b = b'"
  "in_block (v4_number a b c d) (v4_number a' b' c' d', 24) \<longleftrightarrow> a = a' \<and> b = b' \<and> c = c'"
  "in_block (v4_number a b c d) (v4_number a' b' c' d', 4) \<longleftrightarrow> unat a div 16 = unat a' div 16"
  "in_block (v4_number a b c d) (v4_number a' b' c' d', 10) \<longleftrightarrow> a = a' \<and> unat b div 64 = unat b' div 64"
  "in_block (v4_number a b c d) (v4_number a' b' c' d', 12) \<longleftrightarrow> a = a' \<and> unat b div 16 = unat b' div 16"
  "in_block (v4_number a b c d) (v4_number a' b' c' d', 15) \<longleftrightarrow> a = a' \<and> unat b div 2 = unat b' div 2"
proof -
  have d: "unat b div 64 < 4" "unat b div 16 < 16" "unat b div 2 < 128" for b :: u8
    using byte_word_less [of b] by simp_all
  have "32 - 24 = (8 :: nat)" by simp
  then show "in_block (v4_number a b c d) (v4_number a' b' c' d', 24) \<longleftrightarrow> a = a' \<and> b = b' \<and> c = c'"
    unfolding in_block_def fst_conv snd_conv
    by (simp only: v4_number_div digits_eq byte_word_less word_unat_eq_iff conj_assoc)
  show "in_block (v4_number a b c d) (v4_number a' b' c' d', 8) \<longleftrightarrow> a = a'"
    "in_block (v4_number a b c d) (v4_number a' b' c' d', 16) \<longleftrightarrow> a = a' \<and> b = b'"
    "in_block (v4_number a b c d) (v4_number a' b' c' d', 4) \<longleftrightarrow> unat a div 16 = unat a' div 16"
    "in_block (v4_number a b c d) (v4_number a' b' c' d', 10) \<longleftrightarrow> a = a' \<and> unat b div 64 = unat b' div 64"
    "in_block (v4_number a b c d) (v4_number a' b' c' d', 12) \<longleftrightarrow> a = a' \<and> unat b div 16 = unat b' div 16"
    "in_block (v4_number a b c d) (v4_number a' b' c' d', 15) \<longleftrightarrow> a = a' \<and> unat b div 2 = unat b' div 2"
    unfolding in_block_def fst_conv snd_conv
    by (simp_all add: v4_number_div [simplified] digits_eq byte_word_less d word_unat_eq_iff conj_assoc)
qed

text \<open>
  C27: The IPv4 addresses the proxy refuses to reach are exactly the fourteen reserved blocks: this
  network, private, shared, loopback, link-local (cloud metadata), protocol assignments, the
  documentation and benchmark blocks, multicast and everything above.
\<close>

theorem private_v4_blocks:
  "is_private_or_local (V4 a b c d) \<longleftrightarrow> list_ex (in_block (v4_number a b c d)) RESERVED_V4"
proof -
  have R: "list_ex (in_block (v4_number a b c d)) RESERVED_V4 \<longleftrightarrow>
      a = 0 \<or> a = 10 \<or> (a = 100 \<and> unat b div 64 = 1) \<or> a = 127 \<or> (a = 169 \<and> b = 254) \<or>
      (a = 172 \<and> unat b div 16 = 1) \<or> (a = 192 \<and> b = 0 \<and> c = 0) \<or> (a = 192 \<and> b = 0 \<and> c = 2) \<or>
      (a = 192 \<and> b = 168) \<or> (a = 198 \<and> unat b div 2 = 9) \<or> (a = 198 \<and> b = 51 \<and> c = 100) \<or>
      (a = 203 \<and> b = 0 \<and> c = 113) \<or> unat a div 16 = 14 \<or> unat a div 16 = 15"
    by (simp add: RESERVED_V4_def in_block_v4)
  have b: "16 \<le> b \<and> b \<le> 31 \<longleftrightarrow> unat b div 16 = 1"
    unfolding word_le_nat_alt by (simp, linarith)
  have a: "a \<ge> 240 \<longleftrightarrow> unat a div 16 = 15"
    unfolding word_le_nat_alt using byte_word_less [of a] by (simp, linarith)
  have m: "224 \<le> a \<and> a \<le> 239 \<longleftrightarrow> unat a div 16 = 14"
    unfolding word_le_nat_alt using byte_word_less [of a] by (simp, linarith)
  have "a = 255 \<Longrightarrow> unat a div 16 = 15"
    by simp
  then show ?thesis
    unfolding R is_private_or_local.simps(1) v4_is_private_def v4_is_loopback_def v4_is_link_local_def
      v4_is_multicast_def v4_is_unspecified_def v4_is_broadcast_def and_bits a m b
    by argo
qed

text \<open>
  Spelling an IPv4 address as an IPv4-mapped IPv6 address does not change the decision: it is
  refused exactly when the IPv4 address is.
\<close>

theorem private_v6_mapped:
  "is_private_or_local (V6 0 0 0 0 0 0xFFFF (push_bit 8 (ucast a) OR ucast b) (push_bit 8 (ucast c) OR ucast d)) \<longleftrightarrow>
   is_private_or_local (V4 a b c d)"
proof -
  have hi: "ucast (drop_bit 8 (push_bit 8 (ucast x) OR ucast y :: u16)) = x" for x y :: u8
    by (rule bit_word_eqI) (auto simp: bit_simps dest: bit_imp_le_length)
  have lo: "ucast (push_bit 8 (ucast x) OR ucast y :: u16) = y" for x y :: u8
    by (rule bit_word_eqI) (auto simp: bit_simps dest: bit_imp_le_length)
  have mapped: "to_ipv4_mapped (V6 0 0 0 0 0 0xFFFF (push_bit 8 (ucast a) OR ucast b) (push_bit 8 (ucast c) OR ucast d)) =
      Some (V4 a b c d)"
    by (simp only: to_ipv4_mapped.simps hi lo simp_thms if_True)
  show ?thesis
    unfolding is_private_or_local.simps(2) mapped option.case v6_is_loopback_def v6_is_unspecified_def
    by (simp del: is_private_or_local.simps)
qed

section \<open>Connections\<close>

lemma connect_first_reachable_sub:
  "connect_first_reachable oks addrs = (tried, r) \<Longrightarrow>
     prefix tried addrs \<and> (\<forall>sa. r = Some sa \<longrightarrow> tried \<noteq> [] \<and> last tried = sa)"
proof (induction addrs arbitrary: oks tried r)
  case (Cons sa addrs)
  obtain tried' r' where e: "connect_first_reachable (tl oks) addrs = (tried', r')"
    by (cases "connect_first_reachable (tl oks) addrs")
  show ?case
  proof (cases "\<exists>rest. oks = True # rest")
    case True
    with Cons.prems show ?thesis by auto
  next
    case False
    then have "connect_first_reachable oks (sa # addrs) = (sa # tried', r')"
      using e by (auto split: list.split bool.split)
    with Cons.IH [OF e] Cons.prems show ?thesis by auto
  qed
qed simp

text \<open>
  C28: The proxy connects only after its policy allowed the requested host, only to addresses that
  the one resolution returned, and only if none of the resolved addresses is private, loopback,
  link-local or otherwise reserved; a tunnel goes to the last address tried.
\<close>

theorem connect_guarded:
  assumes "handle_connect env (m, px) = (ms', run)" "cr_tried run \<noteq> []"
  shows "\<exists>host port resolved. read_connect_target (ce_reads env) = Inr (Some (host, port)) \<and>
    policy_allows (px_policy px) (trim_brackets host) \<and>
    ce_lookup env (trim_brackets host) port = Some resolved \<and>
    prefix (cr_tried run) resolved \<and> list_all (\<lambda>sa. \<not> is_private_or_local (fst sa)) resolved \<and>
    (case cr_tunnel run of None \<Rightarrow> True | Some sa \<Rightarrow> sa = last (cr_tried run))"
proof -
  obtain host port where t: "read_connect_target (ce_reads env) = Inr (Some (host, port))"
    using assms by (auto simp: handle_connect_def respond_def split: sum.splits option.splits)
  let ?host = "trim_brackets host"
  have allowed: "policy_allows (px_policy px) ?host"
    using assms t
    by (cases "policy_allows (px_policy px) ?host") (auto simp: handle_connect_def respond_def egress_check_def Let_def)
  obtain resolved where r: "ce_lookup env ?host port = Some resolved"
    using assms t allowed
    by (cases "ce_lookup env ?host port") (auto simp: handle_connect_def respond_def egress_check_def Let_def)
  have pub: "\<not> list_ex (\<lambda>sa. is_private_or_local (fst sa)) resolved"
    using assms t allowed r
    by (cases "list_ex (\<lambda>sa. is_private_or_local (fst sa)) resolved")
      (auto simp: handle_connect_def respond_def egress_check_def Let_def)
  obtain tried c where c: "connect_first_reachable (ce_connects env) resolved = (tried, c)"
    by (cases "connect_first_reachable (ce_connects env) resolved")
  then have "cr_tried run = tried" "cr_tunnel run = c \<or> cr_tunnel run = None"
    using assms(1) t allowed r pub
    by (auto simp: handle_connect_def respond_def egress_check_def Let_def split: option.splits if_splits)
  with connect_first_reachable_sub [OF c] pub t allowed r show ?thesis
    by (auto simp: list_all_iff list_ex_iff split: option.split)
qed

definition demo_env :: connect_env where
  "demo_env = \<lparr>ce_reads = [Inr ''CONNECT [api.dev]:443 HTTP/1.1''], ce_now1 = 0, ce_now2 = 0,
     ce_lookup = (\<lambda>_ _. Some [(V4 8 8 8 8, 443)]), ce_connects = [True], ce_write_ok = True,
     ce_tunnel_ok = True\<rparr>"

lemma demo_target: "read_connect_target (ce_reads demo_env) = Inr (Some (''[api.dev]'', 443))"
proof -
  have "drain_headers n [] = Inr ()" for n
    by (cases n) simp_all
  moreover have "eq_ignore_ascii_case s s" for s
    by (simp add: eq_ignore_ascii_case_def)
  ultimately show ?thesis
    by (simp add: demo_env_def read_connect_target_def connect_target_def split_whitespace_def ws_len_def
        byte_def Let_def rsplit_once_def parse_unsigned_def is_ascii_digit_def dec_val_def digit_val_def)
qed

theorem connect_guarded_witness:
  "\<exists>ms' run. handle_connect demo_env (\<lparr>em_allowed = 0, em_denied = 0\<rparr>,
      egress_new ''s'' \<lparr>ep_mode = EgressAllowlist, ep_domains = [''*.dev'']\<rparr>) = (ms', run) \<and>
    cr_tunnel run = Some (V4 8 8 8 8, 443) \<and> policy_allows \<lparr>ep_mode = EgressAllowlist, ep_domains = [''*.dev'']\<rparr> ''api.dev''"
proof -
  let ?p = "\<lparr>ep_mode = EgressAllowlist, ep_domains = [''*.dev'']\<rparr>"
  let ?ms = "(\<lparr>em_allowed = 0, em_denied = 0\<rparr>, egress_new ''s'' ?p)"
  obtain ms' run where e: "handle_connect demo_env ?ms = (ms', run)"
    by (cases "handle_connect demo_env ?ms")
  have ok: "policy_allows ?p ''api.dev''"
    by (simp add: policy_allows_def matches_domain_def strip_prefix_def ends_with_def)
  have "trim_brackets ''[api.dev]'' = ''api.dev''"
    by (simp add: trim_brackets_def)
  moreover have "px_policy (egress_new ''s'' ?p) = ?p"
    by (simp add: egress_new_def)
  moreover have "\<not> is_private_or_local (V4 8 8 8 8)"
    by (simp add: v4_is_private_def v4_is_loopback_def v4_is_link_local_def v4_is_multicast_def
        v4_is_unspecified_def v4_is_broadcast_def)
  moreover have "ce_lookup demo_env = (\<lambda>_ _. Some [(V4 8 8 8 8, 443)])" "ce_connects demo_env = [True]"
    "ce_write_ok demo_env"
    by (simp_all add: demo_env_def)
  ultimately have "cr_tried run = [(V4 8 8 8 8, 443)]" "cr_tunnel run = Some (V4 8 8 8 8, 443)"
    using e ok
    by (auto simp: handle_connect_def demo_target egress_check_def Let_def simp del: is_private_or_local.simps)
  with connect_guarded [OF e] e ok show ?thesis
    by auto
qed

section \<open>Idle time-out\<close>

text \<open>Times of the turns that read bytes, before turn \<open>n\<close>.\<close>

definition activity_before :: "(bool \<times> nat \<times> read_outcome) list \<Rightarrow> nat \<Rightarrow> nat set" where
  "activity_before ts n = {now. \<exists>i dir b. i < n \<and> i < length ts \<and> ts ! i = (dir, now, ReadBytes b)}"

lemma activity_before_Suc:
  "activity_before ((dir, now, out) # ts) (Suc n) =
     activity_before ts n \<union> (case out of ReadBytes _ \<Rightarrow> {now} | _ \<Rightarrow> {})"
proof -
  have "x \<in> activity_before ((dir, now, out) # ts) (Suc n) \<longleftrightarrow>
     x \<in> activity_before ts n \<union> (case out of ReadBytes _ \<Rightarrow> {now} | _ \<Rightarrow> {})" for x
    by (auto simp: activity_before_def nth_Cons less_Suc_eq_0_disj split: read_outcome.split)
  then show ?thesis by blast
qed

lemma tunnel_idle:
  assumes "sorted (map (\<lambda>t. fst (snd t)) ts)" "n < length ts"
    and "tunnel_turns idle ts la ! n = PumpTimedOut" "\<forall>t \<in> set ts. la \<le> fst (snd t)"
  shows "la + idle \<le> fst (snd (ts ! n)) \<and>
    (\<forall>t' \<in> activity_before ts n. t' + idle \<le> fst (snd (ts ! n)))"
  using assms
proof (induction ts arbitrary: n la)
  case (Cons t ts)
  obtain dir now out where t: "t = (dir, now, out)"
    by (cases t)
  show ?case
  proof (cases n)
    case 0
    with Cons.prems t show ?thesis
      by (auto simp: pump_turn_def activity_before_def split: read_outcome.splits if_splits)
  next
    case (Suc k)
    obtain la' r where p: "pump_turn idle now out la = (la', r)"
      by (cases "pump_turn idle now out la")
    then have la': "la' = (case out of ReadBytes _ \<Rightarrow> now | _ \<Rightarrow> la)"
      by (auto simp: pump_turn_def split: read_outcome.splits if_splits)
    have "la \<le> now" and after: "\<forall>x \<in> set ts. now \<le> fst (snd x)"
      using Cons.prems(1,4) t by auto
    then have "la' + idle \<le> fst (snd (ts ! k)) \<and> (\<forall>t' \<in> activity_before ts k. t' + idle \<le> fst (snd (ts ! k)))"
      using Cons.prems Suc t p la' by (intro Cons.IH) (auto split: read_outcome.splits)
    then show ?thesis
      using \<open>la \<le> now\<close> la' Suc t by (auto simp: activity_before_Suc split: read_outcome.splits)
  qed
qed simp

text \<open>
  C29: A tunnel is closed for idleness only if neither direction read a byte for the whole idle
  window before: every earlier read, by either pump, and the start lie at least the window back.
\<close>

theorem tunnel_timeout_idle:
  assumes "sorted (map (\<lambda>t. fst (snd t)) ts)" "n < length ts" "\<forall>t \<in> set ts. start \<le> fst (snd t)"
    and "tunnel_turns idle ts start ! n = PumpTimedOut"
    and "i < n" "ts ! i = (dir, now, ReadBytes b)"
  shows "now + idle \<le> fst (snd (ts ! n)) \<and> start + idle \<le> fst (snd (ts ! n))"
proof -
  have "now \<in> activity_before ts n"
    using assms(2,5,6) less_trans unfolding activity_before_def by blast
  with tunnel_idle [OF assms(1,2,4,3)] show ?thesis by blast
qed

theorem tunnel_timeout_idle_witness:
  "tunnel_turns 120 [(True, 10, ReadBytes ''x''), (False, 120, Elapsed), (False, 130, Elapsed)] 0 =
     [PumpWrite ''x'', PumpContinue, PumpTimedOut] \<and> (10 :: nat) + 120 \<le> 130"
proof
  let ?ts = "[(True, 10, ReadBytes ''x''), (False, 120, Elapsed), (False, 130, Elapsed)]"
  show t: "tunnel_turns 120 ?ts 0 = [PumpWrite ''x'', PumpContinue, PumpTimedOut]"
    by (simp add: pump_turn_def)
  show "(10 :: nat) + 120 \<le> 130"
    using tunnel_timeout_idle [of ?ts 2 0 120 0 True 10 "''x''"] t by simp
qed

end
