(* ===== verification/Channels.thy ===== *)
theory Channels
  imports Prelude
begin

text \<open>
  The receiving end of a tokio \<open>broadcast\<close> channel, as the event log and the output feed use
  it. A receiver has a position in the sequence of messages ever sent. \<open>recv_step\<close> states what
  the documentation promises of one \<open>recv\<close>: it returns the message at the position and moves
  past it, or reports a positive number of overwritten messages and moves past those, or reports
  that the channel is closed when everything sent has been received.
\<close>

datatype 'a recv = RecvOk 'a | RecvLagged nat | RecvClosed

definition recv_step :: "'a list \<Rightarrow> nat \<Rightarrow> 'a recv \<Rightarrow> nat option" where
  "recv_step sent pos out =
     (case out of
        RecvOk x \<Rightarrow> if pos < length sent \<and> sent ! pos = x then Some (pos + 1) else None
      | RecvLagged n \<Rightarrow> if 0 < n \<and> pos + n \<le> length sent then Some (pos + n) else None
      | RecvClosed \<Rightarrow> if pos = length sent then Some pos else None)"

text \<open>The position after a sequence of outcomes the channel may give, \<open>None\<close> if it may not.\<close>

fun recv_steps :: "'a list \<Rightarrow> nat \<Rightarrow> 'a recv list \<Rightarrow> nat option" where
  "recv_steps sent pos [] = Some pos"
| "recv_steps sent pos (out # outs) =
     (case recv_step sent pos out of None \<Rightarrow> None | Some pos' \<Rightarrow> recv_steps sent pos' outs)"

lemma recv_step_mono: "recv_step sent pos out = Some pos' \<Longrightarrow> pos \<le> pos' \<and> (pos \<le> length sent \<longrightarrow> pos' \<le> length sent)"
  by (auto simp: recv_step_def split: recv.splits if_splits)

lemma recv_steps_mono:
  "recv_steps sent pos outs = Some pos' \<Longrightarrow> pos \<le> pos' \<and> (pos \<le> length sent \<longrightarrow> pos' \<le> length sent)"
proof (induction outs arbitrary: pos)
  case (Cons out outs)
  then obtain p where p: "recv_step sent pos out = Some p" "recv_steps sent p outs = Some pos'"
    by (auto split: option.splits)
  with Cons.IH [OF p(2)] recv_step_mono [OF p(1)] show ?case by auto
qed simp

end
