(* ===== verification/OutputBuf.thy ===== *)
theory OutputBuf
  imports Channels
begin

text \<open>
  The retained output of a main process and its live feeds: \<open>OutputBuffer\<close> and \<open>OutputFeed\<close> of
  \<open>ward-core/src/sandbox/manager.rs\<close>. The buffer's operations hold its lock from start to end.
  Offsets and lengths are natural numbers (a 64-bit byte count does not wrap); the live channel
  is a broadcast channel, of which the state keeps the sequence of messages sent; times are
  nanoseconds.
\<close>

section \<open>Data\<close>

datatype raw_stream = Stdout | Stderr

record output_chunk =
  oc_stream :: raw_stream
  oc_bytes :: bytes
  oc_at :: nat

record seq_chunk =
  sc_chunk :: output_chunk
  sc_end :: nat

record output_buffer =
  ob_cap :: nat
  ob_chunks :: "output_chunk list"
  ob_len :: nat
  ob_total :: nat
  ob_live :: "seq_chunk list"

definition MAIN_OUTPUT_CAP :: nat where "MAIN_OUTPUT_CAP = 1024 * 1024"
definition OUTPUT_CHUNK_OVERHEAD :: nat where "OUTPUT_CHUNK_OVERHEAD = 64"
definition OUTPUT_MERGE_LIMIT :: nat where "OUTPUT_MERGE_LIMIT = 4096"

definition retained_start :: "output_buffer \<Rightarrow> nat" where
  "retained_start st = ob_total st - sum_list (map (\<lambda>c. length (oc_bytes c)) (ob_chunks st))"

definition buffer_new :: "nat \<Rightarrow> output_buffer" where
  "buffer_new cap = \<lparr>ob_cap = cap, ob_chunks = [], ob_len = 0, ob_total = 0, ob_live = []\<rparr>"

definition same_millisecond :: "nat \<Rightarrow> nat \<Rightarrow> bool" where
  "same_millisecond a b \<longleftrightarrow> a div 1000000 = b div 1000000"

section \<open>Pushing\<close>

text \<open>The merge with the newest chunk: the new chunks and the change of \<open>len\<close>.\<close>

definition push_back_chunk :: "output_chunk \<Rightarrow> output_chunk list \<Rightarrow> output_chunk list \<times> nat" where
  "push_back_chunk chunk chunks =
     (if chunks \<noteq> [] \<and> oc_stream (last chunks) = oc_stream chunk \<and>
         same_millisecond (oc_at (last chunks)) (oc_at chunk) \<and>
         length (oc_bytes (last chunks)) < OUTPUT_MERGE_LIMIT
      then (butlast chunks @ [(last chunks)\<lparr>oc_bytes := oc_bytes (last chunks) @ oc_bytes chunk\<rparr>],
            length (oc_bytes chunk))
      else (chunks @ [chunk], length (oc_bytes chunk) + OUTPUT_CHUNK_OVERHEAD))"

text \<open>The loop that makes room.\<close>

function evict :: "nat \<Rightarrow> output_chunk list \<Rightarrow> nat \<Rightarrow> output_chunk list \<times> nat" where
  "evict cap chunks len =
     (if len > cap then
        (let excess = len - cap
         in case chunks of
              [] \<Rightarrow> (chunks, len)
            | front # rest \<Rightarrow>
                if length (oc_bytes front) > excess
                then evict cap (front\<lparr>oc_bytes := drop excess (oc_bytes front)\<rparr> # rest) (len - excess)
                else evict cap rest (len - (length (oc_bytes front) + OUTPUT_CHUNK_OVERHEAD)))
      else (chunks, len))"
  by pat_completeness auto

termination
  by (relation "measure (\<lambda>(cap, chunks, len). 2 * length chunks + (if len > cap then 1 else 0))") auto

definition buffer_push :: "output_chunk \<Rightarrow> output_buffer \<Rightarrow> output_buffer" where
  "buffer_push chunk st =
     (let total = ob_total st + length (oc_bytes chunk);
          (chunks1, grown) = push_back_chunk chunk (ob_chunks st);
          (chunks2, len) = evict (ob_cap st) chunks1 (ob_len st + grown)
      in st\<lparr>ob_total := total, ob_chunks := chunks2, ob_len := len,
            ob_live := ob_live st @ [\<lparr>sc_chunk = chunk, sc_end = total\<rparr>]\<rparr>)"

section \<open>Reading\<close>

fun read_chunks :: "nat \<Rightarrow> nat \<Rightarrow> output_chunk list \<Rightarrow> output_chunk list" where
  "read_chunks from at [] = []"
| "read_chunks from at (chunk # chunks) =
     (let end = at + length (oc_bytes chunk)
      in (if end > from then [chunk\<lparr>oc_bytes := drop (from - at) (oc_bytes chunk)\<rparr>] else []) @
         read_chunks from end chunks)"

definition read_from :: "nat \<Rightarrow> output_buffer \<Rightarrow> output_chunk list \<times> nat \<times> nat" where
  "read_from from st =
     (let start = retained_start st
      in (read_chunks from start (ob_chunks st), start - from, ob_total st))"

section \<open>Feeds\<close>

record output_feed =
  of_next :: nat
  of_pending :: "output_chunk list"


definition feed_accept :: "seq_chunk \<Rightarrow> output_feed \<Rightarrow> output_feed" where
  "feed_accept seq self =
     (if sc_end seq \<le> of_next self then self
      else (let start = sc_end seq - length (oc_bytes (sc_chunk seq));
                skip = of_next self - start
            in self\<lparr>of_next := sc_end seq,
                    of_pending := of_pending self @
                      [(sc_chunk seq)\<lparr>oc_bytes := drop skip (oc_bytes (sc_chunk seq))\<rparr>]\<rparr>))"

text \<open>The decimal digits of a number.\<close>

fun show_nat :: "nat \<Rightarrow> string" where
  "show_nat n = (if n < 10 then [char_of (48 + n)] else show_nat (n div 10) @ [char_of (48 + n mod 10)])"

definition lost_notice :: "nat \<Rightarrow> nat \<Rightarrow> output_chunk" where
  "lost_notice now lost =
     \<lparr>oc_stream = Stderr,
      oc_bytes = ''[ward: output lost, reader fell behind by '' @ show_nat lost @ '' bytes'' @ [CHR 0x0A],
      oc_at = now\<rparr>"

definition feed_recover :: "nat \<Rightarrow> output_buffer \<Rightarrow> output_feed \<Rightarrow> output_feed" where
  "feed_recover now st self =
     (case read_from (of_next self) st of (chunks, lost, end) \<Rightarrow>
        self\<lparr>of_pending := of_pending self @ (if lost > 0 then [lost_notice now lost] else []) @ chunks,
             of_next := end\<rparr>)"

text \<open>
  \<open>recv\<close>: each outcome of the live channel comes with the buffer and the time at that moment; no
  further outcome means that the call is still waiting.
\<close>

datatype feed_result = FeedChunk output_chunk | FeedEnded | FeedWaiting

fun feed_recv ::
  "(seq_chunk recv \<times> output_buffer \<times> nat) list \<Rightarrow> output_feed \<Rightarrow> output_feed \<times> feed_result" where
  "feed_recv [] self =
     (case of_pending self of
        chunk # rest \<Rightarrow> (self\<lparr>of_pending := rest\<rparr>, FeedChunk chunk)
      | [] \<Rightarrow> (self, FeedWaiting))"
| "feed_recv ((out, st, now) # outs) self =
     (case of_pending self of
        chunk # rest \<Rightarrow> (self\<lparr>of_pending := rest\<rparr>, FeedChunk chunk)
      | [] \<Rightarrow>
          (case out of
             RecvOk seq \<Rightarrow> feed_recv outs (feed_accept seq self)
           | RecvLagged _ \<Rightarrow> feed_recv outs (feed_recover now st self)
           | RecvClosed \<Rightarrow> (self, FeedEnded)))"

text \<open>\<open>try_recv\<close>: an empty channel and a closed one both give nothing.\<close>

definition feed_try_recv ::
  "(seq_chunk recv \<times> output_buffer \<times> nat) list \<Rightarrow> output_feed \<Rightarrow> output_feed \<times> output_chunk option" where
  "feed_try_recv outs self =
     (case feed_recv outs self of
        (self', FeedChunk chunk) \<Rightarrow> (self', Some chunk)
      | (self', _) \<Rightarrow> (self', None))"

section \<open>What is retained\<close>

declare evict.simps [simp del]

definition stream_of :: "seq_chunk list \<Rightarrow> bytes" where
  "stream_of sent = concat (map (\<lambda>s. oc_bytes (sc_chunk s)) sent)"

definition payload :: "output_chunk list \<Rightarrow> bytes" where
  "payload chunks = concat (map oc_bytes chunks)"

definition charge :: "output_chunk list \<Rightarrow> nat" where
  "charge chunks = sum_list (map (\<lambda>c. length (oc_bytes c) + OUTPUT_CHUNK_OVERHEAD) chunks)"

lemma payload_simps [simp]:
  "payload [] = []" "payload (c # cs) = oc_bytes c @ payload cs" "payload (cs @ ds) = payload cs @ payload ds"
  by (simp_all add: payload_def)

lemma charge_simps [simp]:
  "charge [] = 0" "charge (c # cs) = length (oc_bytes c) + OUTPUT_CHUNK_OVERHEAD + charge cs"
  "charge (cs @ ds) = charge cs + charge ds"
  by (simp_all add: charge_def)


lemma push_back_chunk_spec:
  assumes "push_back_chunk chunk chunks = (chunks', grown)"
  shows "payload chunks' = payload chunks @ oc_bytes chunk" "charge chunks' = charge chunks + grown"
proof -
  have "chunks \<noteq> [] \<Longrightarrow> payload chunks = payload (butlast chunks) @ oc_bytes (last chunks)"
    "chunks \<noteq> [] \<Longrightarrow> charge chunks = charge (butlast chunks) + length (oc_bytes (last chunks)) + OUTPUT_CHUNK_OVERHEAD"
    by (cases chunks rule: rev_cases; simp)+
  with assms show "payload chunks' = payload chunks @ oc_bytes chunk" "charge chunks' = charge chunks + grown"
    by (auto simp: push_back_chunk_def split: if_splits)
qed

lemma evict_spec:
  assumes "evict cap chunks len = (chunks', len')" "len = charge chunks"
  shows "len' = charge chunks' \<and> len' \<le> cap \<and> suffix (payload chunks') (payload chunks)"
  using assms
proof (induction cap chunks len rule: evict.induct)
  case (1 cap chunks len)
  show ?case
  proof (cases "len > cap")
    case False
    with "1.prems" show ?thesis by (auto simp: evict.simps [of cap chunks])
  next
    case True
    with "1.prems"(2) obtain front rest where c: "chunks = front # rest"
      by (cases chunks) auto
    show ?thesis
    proof (cases "length (oc_bytes front) > len - cap")
      case True
      let ?front = "front\<lparr>oc_bytes := drop (len - cap) (oc_bytes front)\<rparr>"
      have "len' = charge chunks' \<and> len' \<le> cap \<and> suffix (payload chunks') (payload (?front # rest))"
      proof (rule "1.IH"(1) [OF \<open>len > cap\<close> refl c True])
        have "evict cap chunks len = evict cap (?front # rest) (len - (len - cap))"
          using \<open>len > cap\<close> True c by (subst evict.simps) (simp add: Let_def)
        with "1.prems"(1) show "evict cap (?front # rest) (len - (len - cap)) = (chunks', len')"
          by simp
        show "len - (len - cap) = charge (?front # rest)"
          using "1.prems"(2) True c by simp
      qed
      moreover have "suffix (payload (?front # rest)) (payload chunks)"
        using c by (simp add: suffix_drop)
      ultimately show ?thesis
        using suffix_order.trans by blast
    next
      case False
      have "len' = charge chunks' \<and> len' \<le> cap \<and> suffix (payload chunks') (payload rest)"
      proof (rule "1.IH"(2) [OF \<open>len > cap\<close> refl c False])
        let ?rest = "len - (length (oc_bytes front) + OUTPUT_CHUNK_OVERHEAD)"
        have "evict cap chunks len = evict cap rest ?rest"
          using \<open>len > cap\<close> False c by (subst evict.simps) (simp add: Let_def)
        with "1.prems"(1) show "evict cap rest ?rest = (chunks', len')"
          by simp
        show "?rest = charge rest"
          using "1.prems"(2) c by simp
      qed
      moreover have "suffix (payload rest) (payload chunks)"
        using c by (simp add: suffixI)
      ultimately show ?thesis
        using suffix_order.trans by blast
    qed
  qed
qed

definition offset_of :: "seq_chunk list \<Rightarrow> nat \<Rightarrow> nat" where
  "offset_of sent i = length (stream_of (take i sent))"

definition buffer_inv :: "output_buffer \<Rightarrow> bool" where
  "buffer_inv st \<longleftrightarrow>
     ob_len st = charge (ob_chunks st) \<and> ob_len st \<le> ob_cap st \<and>
     ob_total st = length (stream_of (ob_live st)) \<and>
     suffix (payload (ob_chunks st)) (stream_of (ob_live st)) \<and>
     (\<forall>i < length (ob_live st). sc_end (ob_live st ! i) = offset_of (ob_live st) (Suc i))"

lemma stream_of_snoc [simp]: "stream_of (sent @ [s]) = stream_of sent @ oc_bytes (sc_chunk s)"
  by (simp add: stream_of_def)

lemma offset_of_snoc: "i \<le> length sent \<Longrightarrow> offset_of (sent @ [s]) i = offset_of sent i"
  by (simp add: offset_of_def)


lemma buffer_new_inv: "buffer_inv (buffer_new cap)"
  by (simp add: buffer_inv_def buffer_new_def stream_of_def)

lemma buffer_push_inv [preserve]:
  assumes "buffer_inv st"
  shows "buffer_inv (buffer_push chunk st)"
proof -
  obtain chunks1 grown where p: "push_back_chunk chunk (ob_chunks st) = (chunks1, grown)"
    by (cases "push_back_chunk chunk (ob_chunks st)")
  obtain chunks2 len where e: "evict (ob_cap st) chunks1 (ob_len st + grown) = (chunks2, len)"
    by (cases "evict (ob_cap st) chunks1 (ob_len st + grown)")
  note p' = push_back_chunk_spec [OF p]
  have e': "len = charge chunks2 \<and> len \<le> ob_cap st \<and> suffix (payload chunks2) (payload chunks1)"
    using assms p'(2) by (intro evict_spec [OF e]) (simp add: buffer_inv_def)
  have "suffix (payload chunks1) (stream_of (ob_live st) @ oc_bytes chunk)"
    using assms p'(1) by (simp add: buffer_inv_def)
  with e' have "suffix (payload chunks2) (stream_of (ob_live st) @ oc_bytes chunk)"
    using suffix_order.trans by blast
  moreover have "sc_end ((ob_live st @ [s]) ! i) = offset_of (ob_live st @ [s]) (Suc i)"
    if "i < Suc (length (ob_live st))" "sc_end s = ob_total st + length (oc_bytes (sc_chunk s))" for i s
    using that assms unfolding buffer_inv_def
    by (cases "i < length (ob_live st)") (auto simp: nth_append offset_of_snoc, simp add: offset_of_def)
  moreover have "buffer_push chunk st =
      st\<lparr>ob_total := ob_total st + length (oc_bytes chunk), ob_chunks := chunks2, ob_len := len,
         ob_live := ob_live st @ [\<lparr>sc_chunk = chunk, sc_end = ob_total st + length (oc_bytes chunk)\<rparr>]\<rparr>"
    by (simp add: buffer_push_def p e Let_def)
  ultimately show ?thesis
    using assms e' by (simp add: buffer_inv_def)
qed

section \<open>Reading back\<close>




text \<open>
  C30: However output is pushed, the buffer never charges more than its cap (its bytes plus 64 per
  chunk), and what it retains is exactly the newest part of everything the process wrote.
\<close>

theorem output_buffer_bounded:
  fixes chunks :: "output_chunk list" and cap :: nat
  defines "st \<equiv> foldl (\<lambda>b c. buffer_push c b) (buffer_new cap) chunks"
  shows "sum_list (map (\<lambda>c. length (oc_bytes c) + 64) (ob_chunks st)) \<le> cap \<and>
    suffix (payload (ob_chunks st)) (payload chunks) \<and> ob_total st = length (payload chunks)"
proof -
  have run: "buffer_inv (foldl (\<lambda>b c. buffer_push c b) b cs) \<and>
      ob_cap (foldl (\<lambda>b c. buffer_push c b) b cs) = ob_cap b \<and>
      stream_of (ob_live (foldl (\<lambda>b c. buffer_push c b) b cs)) = stream_of (ob_live b) @ payload cs"
    if "buffer_inv b" for b cs
    using that
  proof (induction cs arbitrary: b)
    case (Cons c cs)
    have "ob_cap (buffer_push c b) = ob_cap b" "stream_of (ob_live (buffer_push c b)) = stream_of (ob_live b) @ oc_bytes c"
      by (simp_all add: buffer_push_def Let_def split: prod.split)
    with Cons.IH [OF buffer_push_inv [OF Cons.prems, of c]] show ?case by simp
  qed simp
  from run [OF buffer_new_inv [of cap], of chunks] show ?thesis
    by (auto simp: st_def buffer_inv_def charge_def OUTPUT_CHUNK_OVERHEAD_def buffer_new_def stream_of_def)
qed

section \<open>Feeds miss nothing that is retained\<close>
























end
