(* ===== verification/Store.thy ===== *)
theory Store
  imports Protocol
begin

text \<open>
  The records of sandboxes on disk, \<open>ward-core/src/sandbox/store.rs\<close>: one directory per sandbox
  with its \<open>meta.json\<close>.

  The file system is modelled for a crash at any moment. A volume holds what may survive of one
  sandbox: the states its directory went through since it was last synced, and the states of the
  root file system below it, which is written independently. A crash leaves any one state of
  each, and arbitrary contents in every file not synced since it was written. An operation is a
  sequence of system calls; \<open>run_calls\<close> runs them with a list of outcomes and stops at the first
  failure, which also stands for a crash between two calls.

  JSON is serde's: the encoder and decoder of records are parameters. The decoder also stands for
  the refusal of text that is not UTF-8.
\<close>

section \<open>Records\<close>

record sandbox_meta =
  sm_id :: string
  sm_options :: create_opts
  sm_created_at :: nat
  sm_status :: sandbox_status
  sm_exit_code :: "int option"
  sm_started_at :: "nat option"
  sm_finished_at :: "nat option"
  sm_end_reason :: "end_reason option"
  sm_token_hash :: string
  sm_had_secrets :: bool
  sm_restart_count :: u32
  sm_manually_stopped :: bool

text \<open>\<open>{byte:02x}\<close>, and the digest of a token with the hash function as a parameter.\<close>

definition hex_digit :: "nat \<Rightarrow> char" where
  "hex_digit n = (if n < 10 then char_of (48 + n) else char_of (87 + n))"

definition hex_byte :: "u8 \<Rightarrow> string" where
  "hex_byte b = [hex_digit (unat b div 16), hex_digit (unat b mod 16)]"

definition hash_token :: "(bytes \<Rightarrow> u8 list) \<Rightarrow> string \<Rightarrow> string" where
  "hash_token sha256 token = foldl (\<lambda>hex b. hex @ hex_byte b) [] (sha256 token)"

section \<open>Directories\<close>

record disk_file =
  f_data :: bytes
  f_synced :: bool
  f_mode :: nat

record sandbox_dir =
  d_meta :: "disk_file option"
  d_tmp :: "disk_file option"
  d_mode :: nat

text \<open>The tree of a sandbox's root file system: complete, partly removed, or not there.\<close>

datatype rootfs = Whole | PartlyRemoved | NoRootfs

record volume =
  v_dirs :: "sandbox_dir option list"
  v_rootfs :: "rootfs list"

definition DIR_MODE :: nat where "DIR_MODE = 448"
definition FILE_MODE :: nat where "FILE_MODE = 384"

definition current_dir :: "volume \<Rightarrow> sandbox_dir option" where
  "current_dir v = last (v_dirs v)"

definition current_rootfs :: "volume \<Rightarrow> rootfs" where
  "current_rootfs v = last (v_rootfs v)"

text \<open>A call that changes the directory adds a state; a sync of it forgets the earlier ones.\<close>

definition add_dir :: "sandbox_dir option \<Rightarrow> volume \<Rightarrow> volume" where
  "add_dir d v = v\<lparr>v_dirs := v_dirs v @ [d]\<rparr>"

definition change :: "(sandbox_dir \<Rightarrow> sandbox_dir) \<Rightarrow> volume \<Rightarrow> volume" where
  "change f v = (case current_dir v of None \<Rightarrow> v | Some d \<Rightarrow> add_dir (Some (f d)) v)"

definition sync_dir :: "volume \<Rightarrow> volume" where
  "sync_dir v = v\<lparr>v_dirs := [current_dir v]\<rparr>"

definition change_rootfs :: "rootfs \<Rightarrow> volume \<Rightarrow> volume" where
  "change_rootfs r v = v\<lparr>v_rootfs := v_rootfs v @ [r]\<rparr>"

fun run_calls :: "io_kind option list \<Rightarrow> (volume \<Rightarrow> volume) list \<Rightarrow> volume \<Rightarrow> volume \<times> (io_kind + unit)" where
  "run_calls faults [] v = (v, Inr ())"
| "run_calls [] (c # cs) v = run_calls [] cs (c v)"
| "run_calls (None # faults) (c # cs) v = run_calls faults cs (c v)"
| "run_calls (Some e # faults) (c # cs) v = (v, Inl e)"

section \<open>Saving\<close>

definition create_dir_all :: "volume \<Rightarrow> volume" where
  "create_dir_all v =
     (case current_dir v of
        None \<Rightarrow> add_dir (Some \<lparr>d_meta = None, d_tmp = None, d_mode = 493\<rparr>) v
      | Some _ \<Rightarrow> v)"

definition open_tmp :: "sandbox_dir \<Rightarrow> sandbox_dir" where
  "open_tmp d = d\<lparr>d_tmp := Some \<lparr>f_data = [], f_synced = False,
     f_mode = (case d_tmp d of None \<Rightarrow> FILE_MODE | Some f \<Rightarrow> f_mode f)\<rparr>\<rparr>"

definition map_tmp :: "(disk_file \<Rightarrow> disk_file) \<Rightarrow> sandbox_dir \<Rightarrow> sandbox_dir" where
  "map_tmp g d = d\<lparr>d_tmp := map_option g (d_tmp d)\<rparr>"

definition rename_tmp :: "sandbox_dir \<Rightarrow> sandbox_dir" where
  "rename_tmp d = (case d_tmp d of None \<Rightarrow> d | Some f \<Rightarrow> d\<lparr>d_meta := Some f, d_tmp := None\<rparr>)"

definition save_calls :: "bytes \<Rightarrow> (volume \<Rightarrow> volume) list" where
  "save_calls json =
     [create_dir_all,
      change (\<lambda>d. d\<lparr>d_mode := DIR_MODE\<rparr>),
      change open_tmp,
      change (map_tmp (\<lambda>f. f\<lparr>f_mode := FILE_MODE\<rparr>)),
      change (map_tmp (\<lambda>f. f\<lparr>f_data := json\<rparr>)),
      change (map_tmp (\<lambda>f. f\<lparr>f_synced := True\<rparr>)),
      change rename_tmp,
      sync_dir]"

text \<open>\<open>to_json\<close> may refuse a record; the error comes after the temporary file is opened.\<close>

definition meta_save :: "(sandbox_meta \<Rightarrow> bytes option) \<Rightarrow> io_kind option list \<Rightarrow> sandbox_meta \<Rightarrow>
    volume \<Rightarrow> volume \<times> (io_kind + unit)" where
  "meta_save to_json faults meta v =
     (case to_json meta of
        Some json \<Rightarrow> run_calls faults (save_calls json) v
      | None \<Rightarrow>
          (case run_calls faults (take 4 (save_calls [])) v of
             (v', Inl e) \<Rightarrow> (v', Inl e)
           | (v', Inr _) \<Rightarrow> (v', Inl OtherKind)))"

section \<open>Deleting\<close>

text \<open>\<open>remove_dir_all\<close>: the tree below goes file by file, then the directory itself.\<close>

definition remove_all_calls :: "(volume \<Rightarrow> volume) list" where
  "remove_all_calls =
     [(\<lambda>v. if current_rootfs v = Whole then change_rootfs PartlyRemoved v else v),
      change_rootfs NoRootfs,
      change (\<lambda>d. d\<lparr>d_tmp := None, d_meta := None\<rparr>),
      add_dir None]"

definition meta_delete :: "io_kind option list \<Rightarrow> volume \<Rightarrow> volume \<times> (io_kind + unit)" where
  "meta_delete faults v =
     (case current_dir v of
        None \<Rightarrow> (v, Inl NoEntry)
      | Some d \<Rightarrow>
          if d_meta d = None then run_calls faults remove_all_calls v
          else run_calls faults
                 ([change (\<lambda>d. d\<lparr>d_meta := None\<rparr>), sync_dir] @ remove_all_calls) v)"

section \<open>Loading\<close>

definition reconcile :: "sandbox_meta \<Rightarrow> sandbox_meta" where
  "reconcile meta =
     (case sm_status meta of
        Running \<Rightarrow> meta\<lparr>sm_status := Stopped\<rparr>
      | Creating \<Rightarrow> meta\<lparr>sm_status := Failed\<rparr>
      | Stopping \<Rightarrow> meta\<lparr>sm_status := Failed\<rparr>
      | _ \<Rightarrow> meta)"

text \<open>The faults are those of the one delete or save the function may make.\<close>

definition load_one :: "(sandbox_meta \<Rightarrow> bytes option) \<Rightarrow> (bytes \<Rightarrow> sandbox_meta option) \<Rightarrow>
    io_kind option list \<Rightarrow> string \<Rightarrow> volume \<Rightarrow> volume \<times> sandbox_meta option" where
  "load_one to_json from_json faults sid v0 =
     (let v = change (\<lambda>d. d\<lparr>d_tmp := None\<rparr>) v0
      in case current_dir v of
           None \<Rightarrow> (v, None)
         | Some d \<Rightarrow>
             (case d_meta d of
                None \<Rightarrow>
                  if current_rootfs v = NoRootfs then (fst (meta_delete faults v), None)
                  else (v, None)
              | Some f \<Rightarrow>
                  (case from_json (f_data f) of
                     None \<Rightarrow> (v, None)
                   | Some meta \<Rightarrow>
                       if sm_id meta \<noteq> sid then (v, None)
                       else if sm_status meta \<in> {Running, Creating, Stopping}
                       then (fst (meta_save to_json faults (reconcile meta) v), Some (reconcile meta))
                       else (v, Some meta))))"

text \<open>The sandbox directories in the order \<open>read_dir\<close> gives them, each with the faults it meets.\<close>

definition load_all :: "(sandbox_meta \<Rightarrow> bytes option) \<Rightarrow> (bytes \<Rightarrow> sandbox_meta option) \<Rightarrow>
    (string \<times> io_kind option list \<times> volume) list \<Rightarrow> sandbox_meta list" where
  "load_all to_json from_json entries =
     List.map_filter (\<lambda>(sid, faults, v). snd (load_one to_json from_json faults sid v))
       (filter (\<lambda>(sid, faults, v). current_dir v \<noteq> None) entries)"

section \<open>Crashes\<close>

text \<open>
  A state of the directory with a record has the record's data synced, and no state of the root
  file system that may survive beside it is partly removed.
\<close>

definition has_record :: "sandbox_dir option \<Rightarrow> bool" where
  "has_record d \<longleftrightarrow> (case d of None \<Rightarrow> False | Some d' \<Rightarrow> d_meta d' \<noteq> None)"

definition dir_sound :: "sandbox_dir option \<Rightarrow> bool" where
  "dir_sound d \<longleftrightarrow>
     (case d of None \<Rightarrow> True | Some d' \<Rightarrow> (case d_meta d' of None \<Rightarrow> True | Some f \<Rightarrow> f_synced f))"

definition volume_sound :: "volume \<Rightarrow> bool" where
  "volume_sound v \<longleftrightarrow>
     v_dirs v \<noteq> [] \<and> v_rootfs v \<noteq> [] \<and> (\<forall>d \<in> set (v_dirs v). dir_sound d) \<and>
     ((\<exists>d \<in> set (v_dirs v). has_record d) \<longrightarrow> PartlyRemoved \<notin> set (v_rootfs v))"

text \<open>The state after a crash; the contents of an unsynced file are whatever the disk held.\<close>

inductive crash :: "volume \<Rightarrow> volume \<Rightarrow> bool" where
  gone: "None \<in> set (v_dirs v) \<Longrightarrow> r \<in> set (v_rootfs v) \<Longrightarrow> crash v \<lparr>v_dirs = [None], v_rootfs = [r]\<rparr>"
| left: "Some d \<in> set (v_dirs v) \<Longrightarrow> r \<in> set (v_rootfs v) \<Longrightarrow>
    (\<And>f. d_meta d = Some f \<Longrightarrow> f_synced f \<Longrightarrow> d_meta d' = Some f) \<Longrightarrow>
    (d_meta d' = None \<longleftrightarrow> d_meta d = None) \<Longrightarrow> (d_tmp d' = None \<longleftrightarrow> d_tmp d = None) \<Longrightarrow>
    crash v \<lparr>v_dirs = [Some d'], v_rootfs = [r]\<rparr>"

definition record_of :: "sandbox_dir option \<Rightarrow> bytes option" where
  "record_of d = (case d of None \<Rightarrow> None | Some d' \<Rightarrow> map_option f_data (d_meta d'))"

definition records :: "volume \<Rightarrow> bytes option set" where
  "records v = record_of ` set (v_dirs v)"

section \<open>Calls that may stop anywhere\<close>

lemma run_calls_stages:
  assumes "\<And>i v. i < length cs \<Longrightarrow> I i v \<Longrightarrow> I (Suc i) ((cs ! i) v)" "I 0 v"
  shows "(\<exists>i \<le> length cs. I i (fst (run_calls faults cs v))) \<and>
    (snd (run_calls faults cs v) = Inr () \<longrightarrow> I (length cs) (fst (run_calls faults cs v)))"
  using assms
proof (induction faults cs v arbitrary: I rule: run_calls.induct)
  case (1 faults v)
  then show ?case by auto
next
  case (2 c cs v)
  have "(\<exists>i \<le> length cs. I (Suc i) (fst (run_calls [] cs (c v)))) \<and>
      (snd (run_calls [] cs (c v)) = Inr () \<longrightarrow> I (Suc (length cs)) (fst (run_calls [] cs (c v))))"
    using 2(2) [of 0] 2(2) [of "Suc i" for i] 2(3) by (intro 2(1) [where I = "\<lambda>i. I (Suc i)"]) auto
  then show ?case by (auto intro: exI [of _ "Suc i" for i])
next
  case (3 faults c cs v)
  have "(\<exists>i \<le> length cs. I (Suc i) (fst (run_calls faults cs (c v)))) \<and>
      (snd (run_calls faults cs (c v)) = Inr () \<longrightarrow> I (Suc (length cs)) (fst (run_calls faults cs (c v))))"
    using 3(2) [of 0] 3(2) [of "Suc i" for i] 3(3) by (intro 3(1) [where I = "\<lambda>i. I (Suc i)"]) auto
  then show ?case by (auto intro: exI [of _ "Suc i" for i])
next
  case (4 e faults c cs v)
  then show ?case by auto
qed

definition dirs_sound :: "volume \<Rightarrow> bool" where
  "dirs_sound v \<longleftrightarrow> v_dirs v \<noteq> [] \<and> (\<forall>d \<in> set (v_dirs v). dir_sound d)"

lemma add_dir_simps [simp]:
  "v_dirs (add_dir d v) = v_dirs v @ [d]" "v_rootfs (add_dir d v) = v_rootfs v"
  "current_dir (add_dir d v) = d"
  by (simp_all add: add_dir_def current_dir_def)

lemma change_Some: "current_dir v = Some d \<Longrightarrow> change f v = add_dir (Some (f d)) v"
  by (simp add: change_def)

lemma current_in: "dirs_sound v \<Longrightarrow> current_dir v \<in> set (v_dirs v)"
  by (simp add: dirs_sound_def current_dir_def)

lemma add_dir_sound: "dirs_sound v \<Longrightarrow> dir_sound d \<Longrightarrow> dirs_sound (add_dir d v)"
  by (auto simp: dirs_sound_def)

lemma records_add: "records (add_dir d v) = insert (record_of d) (records v)"
  by (auto simp: records_def)

lemma change_keeps_record:
  assumes "dirs_sound v" "current_dir v = Some d" "d_meta (f d) = d_meta d"
  shows "dirs_sound (change f v)" "records (change f v) = records v" "current_dir (change f v) = Some (f d)"
    "v_rootfs (change f v) = v_rootfs v"
proof -
  have d: "dir_sound (Some d)" "Some d \<in> set (v_dirs v)"
    using assms(1,2) current_in [OF assms(1)] by (auto simp: dirs_sound_def)
  then have "dir_sound (Some (f d))" "record_of (Some (f d)) \<in> records v"
    using assms(3) by (auto simp: dir_sound_def record_of_def records_def intro!: image_eqI [of _ _ "Some d"])
  then show "dirs_sound (change f v)" "records (change f v) = records v" "current_dir (change f v) = Some (f d)"
    "v_rootfs (change f v) = v_rootfs v"
    using assms by (auto simp: change_Some add_dir_sound records_add)
qed

section \<open>Saving is atomic\<close>

text \<open>What holds after the first \<open>i\<close> calls of a save, \<open>R\<close> being the records before it.\<close>

definition save_stage :: "bytes option set \<Rightarrow> rootfs list \<Rightarrow> bytes \<Rightarrow> nat \<Rightarrow> volume \<Rightarrow> bool" where
  "save_stage R rs json i v \<longleftrightarrow>
     dirs_sound v \<and> v_rootfs v = rs \<and> records v \<subseteq> R \<union> {Some json} \<and>
     (0 < i \<longrightarrow> (\<exists>d. current_dir v = Some d \<and>
        (3 \<le> i \<and> i \<le> 6 \<longrightarrow> (\<exists>f. d_tmp d = Some f \<and> (5 \<le> i \<longrightarrow> f_data f = json) \<and> (6 \<le> i \<longrightarrow> f_synced f))) \<and>
        (7 \<le> i \<longrightarrow> record_of (Some d) = Some json))) \<and>
     (i = 8 \<longrightarrow> records v = {Some json})"

lemma save_stage_step:
  assumes "i < 8" "save_stage R rs json i v"
  shows "save_stage R rs json (Suc i) ((save_calls json ! i) v)"
proof -
  have v: "dirs_sound v" "v_rootfs v = rs" "records v \<subseteq> R \<union> {Some json}"
    using assms(2) by (simp_all add: save_stage_def)
  consider "i = 0" | "i \<in> {1, 2, 3, 4, 5}" | "i = 6" | "i = 7"
    using assms(1) by force
  then show ?thesis
  proof cases
    case 1
    show ?thesis
    proof (cases "current_dir v")
      case None
      have "record_of None \<in> records v"
        using current_in [OF v(1)] None by (auto simp: records_def)
      then have "records (add_dir (Some \<lparr>d_meta = None, d_tmp = None, d_mode = 493\<rparr>) v) = records v"
        by (auto simp: records_add record_of_def)
      then show ?thesis
        using 1 v None by (simp add: save_stage_def save_calls_def create_dir_all_def add_dir_sound dir_sound_def)
    next
      case (Some d)
      then show ?thesis
        using 1 v by (simp add: save_stage_def save_calls_def create_dir_all_def)
    qed
  next
    case 2
    then obtain d where d: "current_dir v = Some d"
      "3 \<le> i \<and> i \<le> 6 \<longrightarrow> (\<exists>f. d_tmp d = Some f \<and> (5 \<le> i \<longrightarrow> f_data f = json) \<and> (6 \<le> i \<longrightarrow> f_synced f))"
      using assms(2) by (auto simp: save_stage_def)
    note k = change_keeps_record [OF v(1) d(1)]
    from 2 show ?thesis
      using v d(2)
      by (elim insertE emptyE; simp add: save_calls_def save_stage_def)
        (auto simp: k open_tmp_def map_tmp_def)
  next
    case 3
    then obtain d f where d: "current_dir v = Some d" "d_tmp d = Some f" "f_data f = json" "f_synced f"
      using assms(2) by (auto simp: save_stage_def)
    then have "change rename_tmp v = add_dir (Some (d\<lparr>d_meta := Some f, d_tmp := None\<rparr>)) v"
      by (simp add: change_Some rename_tmp_def)
    with 3 v d show ?thesis
      by (auto simp: save_stage_def save_calls_def dir_sound_def record_of_def records_add add_dir_sound)
  next
    case 4
    then obtain d where d: "current_dir v = Some d" "record_of (Some d) = Some json"
      using assms(2) by (auto simp: save_stage_def)
    moreover have "dir_sound (Some d)"
      using current_in [OF v(1)] v(1) d(1) by (auto simp: dirs_sound_def)
    ultimately show ?thesis
      using 4 v by (auto simp: save_stage_def save_calls_def sync_dir_def dirs_sound_def records_def current_dir_def)
  qed
qed

lemma save_crash_safe:
  assumes "dirs_sound v" "run_calls faults (save_calls json) v = (v', r)"
  shows "dirs_sound v'" "v_rootfs v' = v_rootfs v" "records v' \<subseteq> records v \<union> {Some json}"
    "r = Inr () \<Longrightarrow> records v' = {Some json}"
proof -
  let ?I = "save_stage (records v) (v_rootfs v) json"
  have "?I 0 v"
    using assms(1) by (auto simp: save_stage_def)
  moreover have "length (save_calls json) = 8"
    by (simp add: save_calls_def)
  ultimately have "(\<exists>i \<le> 8. ?I i (fst (run_calls faults (save_calls json) v))) \<and>
      (snd (run_calls faults (save_calls json) v) = Inr () \<longrightarrow> ?I 8 (fst (run_calls faults (save_calls json) v)))"
    using run_calls_stages [of "save_calls json" ?I v faults] save_stage_step by metis
  then obtain i where i: "?I i v'" and fin: "r = Inr () \<Longrightarrow> ?I 8 v'"
    unfolding assms(2) fst_conv snd_conv by blast
  show "dirs_sound v'" "v_rootfs v' = v_rootfs v" "records v' \<subseteq> records v \<union> {Some json}"
    using i unfolding save_stage_def by blast+
  show "r = Inr () \<Longrightarrow> records v' = {Some json}"
    using fin unfolding save_stage_def by blast
qed

section \<open>Loading what is left\<close>

text \<open>The decoder gives back an encoded record, as serde promises for derived implementations.\<close>

definition json_round :: "(sandbox_meta \<Rightarrow> bytes option) \<Rightarrow> (bytes \<Rightarrow> sandbox_meta option) \<Rightarrow> sandbox_meta \<Rightarrow> bool" where
  "json_round to_json from_json m \<longleftrightarrow> (\<exists>b. to_json m = Some b \<and> from_json b = Some m)"

lemma reconcile_same: "sm_status m \<notin> {Running, Creating, Stopping} \<Longrightarrow> reconcile m = m"
  by (cases "sm_status m") (simp_all add: reconcile_def)

lemma sm_id_reconcile [simp]: "sm_id (reconcile m) = sm_id m"
  by (simp add: reconcile_def split: sandbox_status.split)

lemma current_dir_change_None [simp]: "current_dir v = None \<Longrightarrow> change f v = v"
  by (simp add: change_def)

text \<open>A volume after a crash loads by the one record it has.\<close>

lemma load_one_record:
  assumes "current_dir v = Some d" "d_meta d = Some f" "from_json (f_data f) = Some m" "sm_id m = sid"
  shows "snd (load_one to_json from_json faults sid v) = Some (reconcile m)"
  using assms reconcile_same [of m] by (auto simp: load_one_def Let_def change_Some)

lemma load_one_no_record:
  assumes "\<not> has_record (current_dir v)"
  shows "snd (load_one to_json from_json faults sid v) = None"
  using assms by (cases "current_dir v") (auto simp: load_one_def Let_def change_Some has_record_def)

lemma crash_record:
  assumes "crash v c" "dirs_sound v"
  obtains d where "current_dir c = d" "record_of d \<in> records v"
    "has_record d \<longrightarrow> (\<exists>d0 \<in> set (v_dirs v). has_record d0)" "current_rootfs c \<in> set (v_rootfs v)"
  using assms(1)
proof cases
  case (gone r)
  have "record_of None \<in> records v"
    using gone(2) by (auto simp: records_def)
  then show thesis
    using gone that [of None] by (simp add: current_dir_def current_rootfs_def has_record_def)
next
  case (left d r d')
  have "dir_sound (Some d)"
    using left(2) assms(2) by (auto simp: dirs_sound_def)
  then have "d_meta d' = d_meta d"
    using left(4,5) by (cases "d_meta d") (auto simp: dir_sound_def)
  then have "record_of (Some d') = record_of (Some d)" "has_record (Some d') = has_record (Some d)"
    by (simp_all add: record_of_def has_record_def)
  then show thesis
    using left that [of "Some d'"] by (auto simp: current_dir_def current_rootfs_def records_def)
qed

lemma load_after_crash:
  assumes "from_json b = Some m" "sm_id m = sid" "record_of (current_dir c) = Some b"
  shows "snd (load_one to_json from_json faults sid c) = Some (reconcile m)"
proof -
  obtain d f where "current_dir c = Some d" "d_meta d = Some f" "f_data f = b"
    using assms(3) by (auto simp: record_of_def split: option.splits)
  then show ?thesis
    using assms(1,2) by (intro load_one_record) auto
qed

text \<open>
  C32: If the machine crashes anywhere in a save, or a call of it fails, the next daemon loads
  either the previous record or the new one, never a damaged or missing one; once the save has
  succeeded it loads the new one.
\<close>

theorem save_crash_atomic:
  assumes "json_round to_json from_json new" "sm_id new = sid"
    and "from_json old_json = Some old" "sm_id old = sid"
    and "dirs_sound v" "records v = {Some old_json}"
    and "meta_save to_json faults new v = (v', r)" "crash v' c"
  shows "snd (load_one to_json from_json faults' sid c) \<in> {Some (reconcile old), Some (reconcile new)} \<and>
    (r = Inr () \<longrightarrow> snd (load_one to_json from_json faults' sid c) = Some (reconcile new))"
proof -
  obtain b where b: "to_json new = Some b" "from_json b = Some new"
    using assms(1) unfolding json_round_def by blast
  then have run: "run_calls faults (save_calls b) v = (v', r)"
    using assms(7) by (simp add: meta_save_def)
  note s = save_crash_safe [OF assms(5) run]
  from crash_record [OF assms(8) s(1)] have rec: "record_of (current_dir c) \<in> records v'"
    by metis
  note load = load_after_crash [where from_json = from_json and b = old_json and c = c, OF assms(3,4)]
    load_after_crash [where from_json = from_json and b = b and c = c, OF b(2) assms(2)]
  show ?thesis
    using rec s(3,4) assms(6) load by (auto; blast)
qed

text \<open>A record and an encoding of two records to run the store with.\<close>

definition demo_opts :: create_opts where
  "demo_opts = \<lparr>co_image = ''alpine'', co_mounts = [], co_volume_ids = [], co_egress = default_egress_policy,
     co_resources = default_resource_limits, co_env = [], co_from_snapshot = None,
     co_comms = default_communication_policy,
     co_spec = \<lparr>sp_name = ''web.1'', sp_command = [''sh''], sp_entrypoint_len = 0, sp_workdir = '''', sp_user = '''',
       sp_tty = False, sp_auto_remove = False, sp_published_ports = [], sp_image_digest = '''', sp_labels = [],
       sp_hostname = '''', sp_stop_signal = '''', sp_stop_timeout = None, sp_restart = default_restart_policy,
       sp_guest = default_guest_options\<rparr>\<rparr>"

definition demo_meta :: "sandbox_status \<Rightarrow> sandbox_meta" where
  "demo_meta status = \<lparr>sm_id = ''a1'', sm_options = demo_opts, sm_created_at = 0, sm_status = status,
     sm_exit_code = None, sm_started_at = None, sm_finished_at = None, sm_end_reason = None,
     sm_token_hash = '''', sm_had_secrets = False, sm_restart_count = 0, sm_manually_stopped = False\<rparr>"

definition demo_to_json :: "sandbox_meta \<Rightarrow> bytes option" where
  "demo_to_json m = (if sm_status m = Running then Some ''running'' else Some ''exited'')"

definition demo_from_json :: "bytes \<Rightarrow> sandbox_meta option" where
  "demo_from_json b = (if b = ''running'' then Some (demo_meta Running)
     else if b = ''exited'' then Some (demo_meta Exited) else None)"

definition demo_dir :: sandbox_dir where
  "demo_dir = \<lparr>d_meta = Some \<lparr>f_data = ''running'', f_synced = True, f_mode = FILE_MODE\<rparr>, d_tmp = None, d_mode = DIR_MODE\<rparr>"

definition demo_volume :: volume where
  "demo_volume = \<lparr>v_dirs = [Some demo_dir], v_rootfs = [Whole]\<rparr>"

lemma demo_volume_sound: "dirs_sound demo_volume" "records demo_volume = {Some ''running''}"
  by (simp_all add: demo_volume_def demo_dir_def dirs_sound_def dir_sound_def records_def record_of_def)

theorem save_crash_atomic_witness:
  "\<exists>v' c. meta_save demo_to_json [None, None, None, None, Some StorageFull] (demo_meta Exited) demo_volume = (v', Inl StorageFull) \<and>
     crash v' c \<and> snd (load_one demo_to_json demo_from_json [] ''a1'' c) \<in> {Some (demo_meta Stopped), Some (demo_meta Exited)}"
proof -
  obtain v' where v': "meta_save demo_to_json [None, None, None, None, Some StorageFull] (demo_meta Exited) demo_volume =
      (v', Inl StorageFull)" and dirs: "Some demo_dir \<in> set (v_dirs v')" and "v_rootfs v' = [Whole]"
    by (simp add: meta_save_def demo_to_json_def demo_meta_def save_calls_def create_dir_all_def
        change_def add_dir_def current_dir_def demo_volume_def)
  then have c: "crash v' \<lparr>v_dirs = [Some demo_dir], v_rootfs = [Whole]\<rparr>"
    by (intro crash.left [of demo_dir]) auto
  have "json_round demo_to_json demo_from_json (demo_meta Exited)"
    by (simp add: json_round_def demo_to_json_def demo_from_json_def demo_meta_def)
  moreover have "demo_from_json ''running'' = Some (demo_meta Running)" "sm_id (demo_meta s) = ''a1''" for s
    by (simp_all add: demo_from_json_def demo_meta_def)
  moreover have "reconcile (demo_meta Running) = demo_meta Stopped" "reconcile (demo_meta Exited) = demo_meta Exited"
    by (simp_all add: reconcile_def demo_meta_def)
  ultimately show ?thesis
    using save_crash_atomic [OF _ _ _ _ demo_volume_sound v' c, of demo_from_json "''a1''" "demo_meta Running"] v' c
    by metis
qed

section \<open>Deleting leaves nothing half-removed\<close>

text \<open>What holds after the first \<open>i\<close> calls of \<open>remove_dir_all\<close> on a directory without a record.\<close>

definition no_record :: "nat \<Rightarrow> volume \<Rightarrow> bool" where
  "no_record i v \<longleftrightarrow> v_dirs v \<noteq> [] \<and> v_rootfs v \<noteq> [] \<and> (\<forall>d \<in> set (v_dirs v). \<not> has_record d)"

lemma remove_all_no_record:
  assumes "no_record 0 v"
  shows "no_record 0 (fst (run_calls faults remove_all_calls v))"
proof -
  have "no_record (Suc i) ((remove_all_calls ! i) w)" if "i < length remove_all_calls" "no_record i w" for i w
  proof -
    have "i \<in> {0, 1, 2, 3}"
      using that(1) by (auto simp: remove_all_calls_def)
    then show ?thesis
      using that(2) by (elim insertE emptyE)
        (auto simp: remove_all_calls_def no_record_def change_rootfs_def change_def has_record_def split: option.split)
  qed
  from run_calls_stages [of remove_all_calls no_record v faults, OF this assms] show ?thesis
    by (auto simp: no_record_def)
qed

lemma dir_sound_no_meta: "\<not> has_record d \<Longrightarrow> dir_sound d"
  by (auto simp: has_record_def dir_sound_def split: option.splits)

lemma no_record_sound: "no_record i v \<Longrightarrow> volume_sound v"
  by (auto simp: no_record_def volume_sound_def intro: dir_sound_no_meta)

lemma delete_sound:
  assumes "volume_sound v" "v_dirs v = [Some d]" "meta_delete faults v = (v', r)"
  shows "volume_sound v' \<and> records v' \<subseteq> records v \<union> {None}"
proof (cases "d_meta d")
  case None
  have cur: "current_dir v = Some d"
    using assms(2) by (simp add: current_dir_def)
  have "no_record 0 v"
    using assms(1,2) None by (simp add: no_record_def has_record_def volume_sound_def)
  from remove_all_no_record [OF this, of faults] have n: "no_record 0 v'"
    using assms(3) cur None by (simp add: meta_delete_def)
  then show ?thesis
    using no_record_sound [OF n] by (auto simp: records_def record_of_def no_record_def has_record_def split: option.splits)
next
  case (Some f)
  have cur: "current_dir v = Some d"
    using assms(2) by (simp add: current_dir_def)
  let ?d = "d\<lparr>d_meta := None\<rparr>"
  let ?v1 = "add_dir (Some ?d) v" and ?v2 = "sync_dir (add_dir (Some ?d) v)"
  have one: "volume_sound ?v1 \<and> records ?v1 \<subseteq> records v \<union> {None}"
    using assms(1) by (auto simp: volume_sound_def dir_sound_def records_add record_of_def has_record_def)
  have two: "no_record 0 ?v2"
    using assms(1) by (simp add: no_record_def sync_dir_def has_record_def volume_sound_def)
  have "v' = v \<or> v' = ?v1 \<or> v' = ?v2 \<or> (\<exists>fs. v' = fst (run_calls fs remove_all_calls ?v2))"
    using assms(3) cur Some
    by (cases faults; cases "hd faults"; cases "tl faults"; cases "hd (tl faults)")
      (auto simp: meta_delete_def change_Some, (metis fst_conv)+)
  then show ?thesis
  proof (elim disjE exE)
    assume "v' = v"
    then show ?thesis using assms(1) by auto
  next
    assume "v' = ?v1"
    then show ?thesis using one by simp
  next
    assume "v' = ?v2"
    with no_record_sound [OF two] show ?thesis
      by (simp add: sync_dir_def records_def record_of_def)
  next
    fix fs
    assume "v' = fst (run_calls fs remove_all_calls ?v2)"
    with remove_all_no_record [OF two, of fs] have n: "no_record 0 v'"
      by simp
    then show ?thesis
      using no_record_sound [OF n] by (auto simp: records_def record_of_def no_record_def has_record_def split: option.splits)
  qed
qed

text \<open>
  C33: If a delete is interrupted anywhere, by a failing call or a crash, then the next daemon
  either loads the record as it was, with no part of the root file system removed, or loads
  nothing.
\<close>

theorem delete_crash_safe:
  assumes "volume_sound v" "v_dirs v = [Some d]" "record_of (Some d) = Some b" "from_json b = Some m" "sm_id m = sid"
    and "meta_delete faults v = (v', r)" "crash v' c"
  shows "snd (load_one to_json from_json faults' sid c) = None \<or>
    (snd (load_one to_json from_json faults' sid c) = Some (reconcile m) \<and> current_rootfs c \<noteq> PartlyRemoved)"
proof -
  note s = delete_sound [OF assms(1,2,6)]
  then have ds: "dirs_sound v'"
    by (auto simp: volume_sound_def dirs_sound_def)
  obtain e where e: "current_dir c = e" "record_of e \<in> records v'"
    "has_record e \<longrightarrow> (\<exists>d0 \<in> set (v_dirs v'). has_record d0)" "current_rootfs c \<in> set (v_rootfs v')"
    using crash_record [OF assms(7) ds] by metis
  show ?thesis
  proof (cases "has_record e")
    case False
    then show ?thesis
      using load_one_no_record e(1) by simp
  next
    case True
    then have "record_of e \<noteq> None"
      by (auto simp: has_record_def record_of_def split: option.splits)
    moreover have "records v = {Some b}"
      using assms(2,3) by (simp add: records_def)
    ultimately have "record_of (current_dir c) = Some b"
      using e(1,2) s by auto
    moreover have "current_rootfs c \<noteq> PartlyRemoved"
      using True e(3,4) s by (auto simp: volume_sound_def)
    ultimately show ?thesis
      using load_after_crash [where from_json = from_json and b = b, OF assms(4,5)] by simp
  qed
qed

theorem delete_crash_safe_witness:
  "\<exists>v' c. meta_delete [None, None, None, Some OtherKind] demo_volume = (v', Inl OtherKind) \<and> crash v' c \<and>
     current_rootfs c = PartlyRemoved \<and> snd (load_one demo_to_json demo_from_json [] ''a1'' c) = None"
proof -
  let ?d = "demo_dir\<lparr>d_meta := None\<rparr>"
  let ?v = "\<lparr>v_dirs = [Some ?d], v_rootfs = [Whole, PartlyRemoved]\<rparr>"
  let ?c = "\<lparr>v_dirs = [Some ?d], v_rootfs = [PartlyRemoved]\<rparr>"
  have v': "meta_delete [None, None, None, Some OtherKind] demo_volume = (?v, Inl OtherKind)"
    by (simp add: meta_delete_def demo_volume_def current_dir_def demo_dir_def change_def add_dir_def
        sync_dir_def remove_all_calls_def current_rootfs_def change_rootfs_def)
  have c: "crash ?v ?c"
    by (intro crash.left [of ?d]) auto
  have "volume_sound demo_volume" "v_dirs demo_volume = [Some demo_dir]" "record_of (Some demo_dir) = Some ''running''"
    by (simp_all add: volume_sound_def demo_volume_def demo_dir_def dir_sound_def record_of_def)
  moreover have "demo_from_json ''running'' = Some (demo_meta Running)" "sm_id (demo_meta Running) = ''a1''"
    by (simp_all add: demo_from_json_def demo_meta_def)
  ultimately have "snd (load_one demo_to_json demo_from_json [] ''a1'' ?c) = None"
    using delete_crash_safe [OF _ _ _ _ _ v' c, of demo_dir "''running''" demo_from_json "demo_meta Running" "''a1''" demo_to_json "[]"]
    by (auto simp: current_rootfs_def)
  with v' c show ?thesis
    by (intro exI [of _ ?v] exI [of _ ?c]) (simp add: current_rootfs_def)
qed

end
