(* ===== verification/Events.thy ===== *)
theory Events
  imports Store Channels
begin

text \<open>
  The lifecycle event log, \<open>ward-core/src/sandbox/events.rs\<close>: a bounded history for replays and a
  broadcast channel for live readers. \<open>emit\<close> and \<open>subscribe\<close> hold the history's lock, so they
  are atomic; of the channel the log keeps the sequence of events sent.
\<close>

section \<open>Events\<close>

definition EVENT_BOUND :: nat where "EVENT_BOUND = 1024"

datatype event_action =
    ECreate | EStart | EDie | EStop | EDestroy | EUpdate | ERename | EPause | EUnpause
  | EHealthHealthy | EHealthUnhealthy

fun event_as_str :: "event_action \<Rightarrow> string" where
  "event_as_str ECreate = ''create''"
| "event_as_str EStart = ''start''"
| "event_as_str EDie = ''die''"
| "event_as_str EStop = ''stop''"
| "event_as_str EDestroy = ''destroy''"
| "event_as_str EUpdate = ''update''"
| "event_as_str ERename = ''rename''"
| "event_as_str EPause = ''pause''"
| "event_as_str EUnpause = ''unpause''"
| "event_as_str EHealthHealthy = ''health_status: healthy''"
| "event_as_str EHealthUnhealthy = ''health_status: unhealthy''"

record sandbox_event =
  ev_action :: event_action
  ev_sandbox_id :: string
  ev_name :: string
  ev_image :: string
  ev_at :: nat
  ev_exit_code :: "int option"
  ev_reason :: "end_reason option"
  ev_labels :: "(string \<times> string) list"

definition event_new :: "nat \<Rightarrow> event_action \<Rightarrow> sandbox_meta \<Rightarrow> sandbox_event" where
  "event_new now action meta =
     \<lparr>ev_action = action, ev_sandbox_id = sm_id meta, ev_name = sp_name (co_spec (sm_options meta)),
      ev_image = co_image (sm_options meta), ev_at = now, ev_exit_code = None, ev_reason = None,
      ev_labels = sp_labels (co_spec (sm_options meta))\<rparr>"

definition with_exit_code :: "int \<Rightarrow> sandbox_event \<Rightarrow> sandbox_event" where
  "with_exit_code code self = self\<lparr>ev_exit_code := Some code\<rparr>"

section \<open>The log\<close>

record event_log =
  evl_bound :: nat
  evl_history :: "sandbox_event list"
  evl_sent :: "sandbox_event list"

definition log_with_bound :: "nat \<Rightarrow> event_log" where
  "log_with_bound bound = \<lparr>evl_bound = bound, evl_history = [], evl_sent = []\<rparr>"

definition history_push :: "nat \<Rightarrow> sandbox_event list \<Rightarrow> sandbox_event \<Rightarrow> sandbox_event list" where
  "history_push bound history event = (if length history = bound then tl history else history) @ [event]"

definition emit :: "sandbox_event \<Rightarrow> event_log \<Rightarrow> event_log" where
  "emit event0 lg =
     (let history = evl_history lg;
          event = (if history = [] then event0
                   else event0\<lparr>ev_at := max (ev_at event0) (ev_at (last history))\<rparr>)
      in lg\<lparr>evl_history := history_push (evl_bound lg) history event, evl_sent := evl_sent lg @ [event]\<rparr>)"

record event_reader =
  er_backlog :: "sandbox_event list"

text \<open>The reader's receiver starts at the end of what was sent.\<close>

definition event_subscribe :: "nat option \<Rightarrow> event_log \<Rightarrow> event_reader \<times> nat" where
  "event_subscribe since lg =
     (\<lparr>er_backlog = (case since of
          None \<Rightarrow> []
        | Some t \<Rightarrow> filter (\<lambda>e. ev_at e \<ge> t) (evl_history lg))\<rparr>,
      length (evl_sent lg))"

record delivered =
  dv_event :: sandbox_event
  dv_dropped :: nat

datatype next_result = NextEvent delivered | NextGone | NextWaiting

fun next_loop :: "sandbox_event recv list \<Rightarrow> nat \<Rightarrow> next_result" where
  "next_loop [] dropped = NextWaiting"
| "next_loop (out # outs) dropped =
     (case out of
        RecvOk event \<Rightarrow> NextEvent \<lparr>dv_event = event, dv_dropped = dropped\<rparr>
      | RecvLagged missed \<Rightarrow> next_loop outs (dropped + missed)
      | RecvClosed \<Rightarrow> NextGone)"

definition reader_next :: "sandbox_event recv list \<Rightarrow> event_reader \<Rightarrow> event_reader \<times> next_result" where
  "reader_next outs self =
     (case er_backlog self of
        event # rest \<Rightarrow> (self\<lparr>er_backlog := rest\<rparr>, NextEvent \<lparr>dv_event = event, dv_dropped = 0\<rparr>)
      | [] \<Rightarrow> (self, next_loop outs 0))"

section \<open>History\<close>

interpretation history: bounded_log "history_push EVENT_BOUND" EVENT_BOUND
proof
  fix q :: "sandbox_event list" and e
  assume "length q \<le> EVENT_BOUND"
  then show "history_push EVENT_BOUND q e = last_n EVENT_BOUND (q @ [e])"
    by (auto simp: history_push_def last_n_def EVENT_BOUND_def drop_Suc)
qed

definition log_inv :: "event_log \<Rightarrow> bool" where
  "log_inv lg \<longleftrightarrow>
     evl_bound lg = EVENT_BOUND \<and> evl_history lg = last_n EVENT_BOUND (evl_sent lg) \<and>
     sorted (map ev_at (evl_sent lg))"

lemma last_last_n: "0 < n \<Longrightarrow> xs \<noteq> [] \<Longrightarrow> last (last_n n xs) = last xs \<and> last_n n xs \<noteq> []"
  by (cases xs rule: rev_cases) (auto simp: last_n_def)

lemma emit_inv [preserve]:
  assumes "log_inv lg"
  shows "log_inv (emit e lg)"
proof -
  let ?h = "evl_history lg" and ?s = "evl_sent lg"
  have inv: "?h = last_n EVENT_BOUND ?s" "sorted (map ev_at ?s)" "evl_bound lg = EVENT_BOUND"
    using assms by (simp_all add: log_inv_def)
  define e' where "e' = (if ?h = [] then e else e\<lparr>ev_at := max (ev_at e) (ev_at (last ?h))\<rparr>)"
  have em: "emit e lg = lg\<lparr>evl_history := history_push EVENT_BOUND ?h e', evl_sent := ?s @ [e']\<rparr>"
    by (simp add: emit_def Let_def e'_def inv(3))
  have "\<forall>x \<in> set ?s. ev_at x \<le> ev_at e'"
  proof (cases ?s rule: rev_cases)
    case (snoc xs x)
    then have "last ?h = x" "?h \<noteq> []"
      using last_last_n [of EVENT_BOUND ?s] inv(1) by (auto simp: EVENT_BOUND_def)
    then have "ev_at x \<le> ev_at e'"
      by (simp add: e'_def)
    with inv(2) snoc show ?thesis by (auto simp: sorted_append)
  qed simp
  then have "sorted (map ev_at (?s @ [e']))"
    using inv(2) by (auto simp: sorted_append)
  moreover have "history_push EVENT_BOUND ?h e' = last_n EVENT_BOUND (?s @ [e'])"
    using history.push_newest [of ?h e'] inv(1) by (simp add: last_n_snoc_last_n)
  ultimately show ?thesis
    using inv(3) by (simp add: em log_inv_def)
qed

definition log_after :: "sandbox_event list \<Rightarrow> event_log" where
  "log_after es = foldl (\<lambda>l e. emit e l) (log_with_bound EVENT_BOUND) es"

lemma log_after_inv: "log_inv (log_after es)"
proof (induction es rule: rev_induct)
  case Nil
  show ?case by (simp add: log_after_def log_inv_def log_with_bound_def)
next
  case (snoc e es)
  then show ?case using emit_inv by (simp add: log_after_def)
qed

lemma filter_since:
  "sorted (map ev_at xs) \<Longrightarrow> filter (\<lambda>e. ev_at e \<ge> t) xs = dropWhile (\<lambda>e. ev_at e < t) xs"
proof (induction xs)
  case (Cons x xs)
  show ?case
  proof (cases "ev_at x < t")
    case False
    with Cons.prems have "\<forall>y \<in> set xs. t \<le> ev_at y"
      by (auto simp: not_less)
    with False show ?thesis by simp
  qed (use Cons in auto)
qed simp

text \<open>
  Whatever was emitted, a replay since a time is the newest 1024 events sent, in the order sent,
  from that time on.
\<close>

definition replayed :: "nat option \<Rightarrow> event_log \<Rightarrow> sandbox_event list" where
  "replayed since lg =
     (case since of None \<Rightarrow> [] | Some t \<Rightarrow> dropWhile (\<lambda>e. ev_at e < t) (last_n 1024 (evl_sent lg)))"

lemma subscribe_replays: "log_inv lg \<Longrightarrow> er_backlog (fst (event_subscribe since lg)) = replayed since lg"
  by (simp add: event_subscribe_def replayed_def log_inv_def last_n_def sorted_wrt_drop filter_since EVENT_BOUND_def
      flip: drop_map split: option.split)

section \<open>Readers\<close>

text \<open>
  A reader beside its log, with the position of its receiver and everything \<open>next\<close> has returned.
  The outcomes of one call are taken against what had been sent when it returned, which allows
  every outcome of its \<open>recv\<close>s at earlier moments.
\<close>

record reading =
  rs_log :: event_log
  rs_pos :: nat
  rs_reader :: event_reader
  rs_seen :: "delivered list"

definition reading_from :: "nat option \<Rightarrow> event_log \<Rightarrow> reading" where
  "reading_from since lg =
     \<lparr>rs_log = lg, rs_pos = snd (event_subscribe since lg), rs_reader = fst (event_subscribe since lg), rs_seen = []\<rparr>"

inductive reading_step :: "reading \<Rightarrow> reading \<Rightarrow> bool" where
  emitted: "reading_step s (s\<lparr>rs_log := emit e (rs_log s)\<rparr>)"
| replay: "reader_next [] (rs_reader s) = (rd, NextEvent dv) \<Longrightarrow>
    reading_step s (s\<lparr>rs_reader := rd, rs_seen := rs_seen s @ [dv]\<rparr>)"
| live: "er_backlog (rs_reader s) = [] \<Longrightarrow> outs = map RecvLagged lags @ [RecvOk e] \<Longrightarrow>
    recv_steps (evl_sent (rs_log s)) (rs_pos s) outs = Some pos \<Longrightarrow>
    reader_next outs (rs_reader s) = (rd, NextEvent dv) \<Longrightarrow>
    reading_step s (s\<lparr>rs_pos := pos, rs_reader := rd, rs_seen := rs_seen s @ [dv]\<rparr>)"

text \<open>The deliveries run through the events in order, each skipping as many as it says were missed.\<close>

fun covers :: "delivered list \<Rightarrow> sandbox_event list \<Rightarrow> bool" where
  "covers [] es \<longleftrightarrow> True"
| "covers (d # ds) es \<longleftrightarrow>
     dv_dropped d < length es \<and> dv_event d = es ! dv_dropped d \<and> covers ds (drop (Suc (dv_dropped d)) es)"

definition passed :: "delivered list \<Rightarrow> nat" where
  "passed ds = sum_list (map (\<lambda>d. Suc (dv_dropped d)) ds)"

lemma covers_append: "covers ds es \<Longrightarrow> covers ds (es @ es')"
  by (induction ds es rule: covers.induct) (auto simp: nth_append)

lemma covers_snoc:
  "covers ds es \<Longrightarrow> covers (ds @ [d]) es \<longleftrightarrow>
     passed ds + dv_dropped d < length es \<and> dv_event d = es ! (passed ds + dv_dropped d)"
proof (induction ds es rule: covers.induct)
  case (2 d' ds es)
  then show ?case by (auto simp: passed_def add.assoc)
qed (simp add: passed_def)

lemma next_loop_lags:
  "next_loop (map RecvLagged lags @ [RecvOk e]) d = NextEvent \<lparr>dv_event = e, dv_dropped = d + sum_list lags\<rparr>"
  by (induction lags arbitrary: d) (auto simp: add.assoc)

lemma recv_steps_lags:
  "recv_steps sent pos (map RecvLagged lags @ [RecvOk e]) = Some pos' \<Longrightarrow>
   pos + sum_list lags < length sent \<and> sent ! (pos + sum_list lags) = e \<and> pos' = Suc (pos + sum_list lags)"
proof (induction lags arbitrary: pos)
  case (Cons a lags)
  then have "recv_steps sent (pos + a) (map RecvLagged lags @ [RecvOk e]) = Some pos'"
    by (auto simp: recv_step_def split: if_splits option.splits)
  from Cons.IH [OF this] show ?case by (simp add: add.assoc)
qed (auto simp: recv_step_def split: if_splits)

definition on_time :: "sandbox_event \<Rightarrow> delivered" where
  "on_time e = \<lparr>dv_event = e, dv_dropped = 0\<rparr>"

definition reading_inv :: "sandbox_event list \<Rightarrow> sandbox_event list \<Rightarrow> reading \<Rightarrow> bool" where
  "reading_inv earlier backlog s \<longleftrightarrow>
     (\<exists>later done_with ds. evl_sent (rs_log s) = earlier @ later \<and> backlog = done_with @ er_backlog (rs_reader s) \<and>
        rs_seen s = map on_time done_with @ ds \<and> (er_backlog (rs_reader s) \<noteq> [] \<longrightarrow> ds = []) \<and>
        covers ds later \<and> rs_pos s = length earlier + passed ds)"

lemma reading_step_inv [preserve]: "reading_step s t \<Longrightarrow> reading_inv earlier backlog s \<Longrightarrow> reading_inv earlier backlog t"
proof (induction rule: reading_step.induct)
  case (emitted s e)
  obtain e' where "evl_sent (emit e (rs_log s)) = evl_sent (rs_log s) @ [e']" by (simp add: emit_def Let_def)
  with emitted show ?case unfolding reading_inv_def by (fastforce intro: covers_append)
next
  case (replay s rd dv)
  then obtain e where "er_backlog (rs_reader s) = e # er_backlog rd" "dv = on_time e"
    by (auto simp: reader_next_def on_time_def split: list.splits)
  with replay.prems show ?case
    unfolding reading_inv_def by (fastforce intro: exI [of _ "_ @ [e]"] simp: passed_def)
next
  case (live s outs lags e pos rd dv)
  from live.prems obtain later ds where i: "evl_sent (rs_log s) = earlier @ later" "rs_seen s = map on_time backlog @ ds"
      "covers ds later" "rs_pos s = length earlier + passed ds"
    using live.hyps(1) by (auto simp: reading_inv_def)
  have d: "rd = rs_reader s" "dv = \<lparr>dv_event = e, dv_dropped = sum_list lags\<rparr>"
    using live.hyps by (auto simp: reader_next_def next_loop_lags)
  have r: "rs_pos s + sum_list lags < length (evl_sent (rs_log s))" "evl_sent (rs_log s) ! (rs_pos s + sum_list lags) = e"
      "pos = Suc (rs_pos s + sum_list lags)"
    using recv_steps_lags [OF live.hyps(3) [unfolded live.hyps(2)]] by simp_all
  then have "covers (ds @ [dv]) later"
    using i d by (simp add: covers_snoc add.assoc)
  moreover have "pos = length earlier + passed (ds @ [dv])" using r(3) i(4) d by (simp add: passed_def)
  ultimately show ?case using i d live.hyps(1) by (auto simp: reading_inv_def)
qed

interpretation reading: invariant_system reading_step "reading_inv earlier backlog" for earlier backlog
  by unfold_locales (rule reading_step_inv)

text \<open>
  C34: Whatever was emitted before and is emitted while it reads, a reader first gets the retained
  events since its time, the newest 1024 at most, in order and with nothing counted as missed. After
  them it gets the events emitted since it subscribed, in order, none twice and none of the replay
  again, and each delivery counts exactly the events it skipped.
\<close>

theorem reader_counts_missed:
  assumes "reading_step\<^sup>*\<^sup>* (reading_from since (log_after es)) s"
  shows "\<exists>later. evl_sent (rs_log s) = evl_sent (log_after es) @ later \<and>
    take (length (replayed since (log_after es))) (rs_seen s) =
      map on_time (take (length (rs_seen s)) (replayed since (log_after es))) \<and>
    covers (drop (length (replayed since (log_after es))) (rs_seen s)) later"
proof -
  let ?lg = "log_after es" and ?b = "replayed since (log_after es)"
  have "reading_inv (evl_sent ?lg) ?b (reading_from since ?lg)"
    using subscribe_replays [OF log_after_inv, of since es]
    by (simp add: reading_inv_def reading_from_def passed_def) (simp add: event_subscribe_def)
  from reading.run_keeps [OF assms this] obtain later done_with ds rest where
    i: "evl_sent (rs_log s) = evl_sent ?lg @ later" "?b = done_with @ rest" "rs_seen s = map on_time done_with @ ds"
      "rest \<noteq> [] \<longrightarrow> ds = []" "covers ds later"
    by (auto simp: reading_inv_def)
  then show ?thesis by (cases "rest = []") auto
qed

theorem reader_counts_missed_witness:
  "\<exists>s. reading_step\<^sup>*\<^sup>* (reading_from (Some 0) (log_after [event_new 5 ECreate (demo_meta Running)])) s \<and>
     length (rs_seen s) = 2 \<and> dv_dropped (rs_seen s ! 1) = 1 \<and> ev_action (dv_event (rs_seen s ! 1)) = EStop"
proof -
  let ?e1 = "event_new 5 ECreate (demo_meta Running)" and ?e2 = "event_new 7 EStart (demo_meta Running)"
    and ?e3 = "event_new 9 EStop (demo_meta Running)"
  let ?s0 = "reading_from (Some 0) (log_after [?e1])"
  let ?s1 = "?s0\<lparr>rs_reader := \<lparr>er_backlog = []\<rparr>, rs_seen := rs_seen ?s0 @ [on_time ?e1]\<rparr>"
  let ?s2 = "?s1\<lparr>rs_log := emit ?e2 (rs_log ?s1)\<rparr>"
  let ?s3 = "?s2\<lparr>rs_log := emit ?e3 (rs_log ?s2)\<rparr>"
  let ?s4 = "?s3\<lparr>rs_pos := 3, rs_reader := \<lparr>er_backlog = []\<rparr>, rs_seen := rs_seen ?s3 @ [\<lparr>dv_event = ?e3, dv_dropped = 1\<rparr>]\<rparr>"
  have l1: "log_after [?e1] = \<lparr>evl_bound = 1024, evl_history = [?e1], evl_sent = [?e1]\<rparr>"
    by (simp add: log_after_def emit_def log_with_bound_def history_push_def EVENT_BOUND_def)
  have at: "ev_at (event_new n a meta) = n" "(event_new n a meta)\<lparr>ev_at := n\<rparr> = event_new n a meta" for n a meta
    by (simp_all add: event_new_def)
  have sent: "evl_sent (rs_log ?s3) = [?e1, ?e2, ?e3]"
    by (simp add: reading_from_def l1 emit_def history_push_def at Let_def)
  have "reading_step ?s0 ?s1"
    by (rule reading_step.replay) (simp add: reading_from_def event_subscribe_def l1 reader_next_def on_time_def at)
  moreover have "reading_step ?s1 ?s2" "reading_step ?s2 ?s3" by (rule reading_step.emitted)+
  moreover have "reading_step ?s3 ?s4"
    by (rule reading_step.live [of _ "[RecvLagged 1, RecvOk ?e3]" "[1]"])
      (use sent in \<open>simp_all add: reading_from_def event_subscribe_def l1 recv_step_def reader_next_def at\<close>)
  ultimately have run: "reading_step\<^sup>*\<^sup>* ?s0 ?s4" by (meson converse_rtranclp_into_rtranclp rtranclp.rtrancl_refl)
  have "length (rs_seen ?s4) = 2" by (simp add: reading_from_def)
  moreover have "replayed (Some 0) (log_after [?e1]) = [?e1]"
    by (simp add: replayed_def l1 last_n_def)
  moreover from this reader_counts_missed [OF run] sent
  have "covers (drop 1 (rs_seen ?s4)) [?e2, ?e3]" by (auto simp: l1)
  ultimately show ?thesis using run by (intro exI [of _ ?s4]) (auto simp: event_new_def reading_from_def)
qed

end
