(* ===== verification/Restart.thy ===== *)
theory Restart
  imports Protocol
begin

text \<open>
  When and how fast a sandbox whose main process ended is started again,
  \<open>ward-core/src/sandbox/restart.rs\<close>. Durations are milliseconds.
\<close>

definition INITIAL_DELAY :: nat where "INITIAL_DELAY = 100"
definition MAX_DELAY :: nat where "MAX_DELAY = 60000"
definition STABLE_RUN :: nat where "STABLE_RUN = 10000"

record restart_request =
  rr_id :: string
  rr_exit_code :: int
  rr_ran_for :: nat
  rr_finished_at :: "nat option"

definition wants_restart :: "restart_policy \<Rightarrow> int \<Rightarrow> u32 \<Rightarrow> bool" where
  "wants_restart policy exit_code restarts_so_far =
     (case rp_kind policy of
        RestartNo \<Rightarrow> False
      | Always \<Rightarrow> True
      | UnlessStopped \<Rightarrow> True
      | OnFailure \<Rightarrow>
          exit_code \<noteq> 0 \<and> (rp_max_retries policy = 0 \<or> restarts_so_far < rp_max_retries policy))"

definition restarts_at_boot :: "restart_policy \<Rightarrow> bool \<Rightarrow> bool" where
  "restarts_at_boot policy manually_stopped =
     (case rp_kind policy of
        Always \<Rightarrow> True
      | UnlessStopped \<Rightarrow> \<not> manually_stopped
      | RestartNo \<Rightarrow> False
      | OnFailure \<Rightarrow> False)"

definition next_delay :: "nat option \<Rightarrow> nat \<Rightarrow> nat" where
  "next_delay previous ran_for =
     (case previous of
        Some prev \<Rightarrow> if ran_for < STABLE_RUN then min (prev * 2) MAX_DELAY else INITIAL_DELAY
      | None \<Rightarrow> INITIAL_DELAY)"

text \<open>The delays of a sandbox whose runs last the given times, oldest first.\<close>

fun delays :: "nat option \<Rightarrow> nat list \<Rightarrow> nat list" where
  "delays previous [] = []"
| "delays previous (ran_for # runs) =
     (let d = next_delay previous ran_for in d # delays (Some d) runs)"

lemma delays_short:
  assumes "list_all (\<lambda>r. r < STABLE_RUN) runs" "i < length runs"
  shows "delays (Some (min (INITIAL_DELAY * 2 ^ k) MAX_DELAY)) runs ! i = min (INITIAL_DELAY * 2 ^ (k + i + 1)) MAX_DELAY"
  using assms
proof (induction runs arbitrary: k i)
  case (Cons r runs)
  let ?d = "min (INITIAL_DELAY * 2 ^ Suc k) MAX_DELAY"
  have "next_delay (Some (min (INITIAL_DELAY * 2 ^ k) MAX_DELAY)) r = ?d"
    using Cons.prems(1) by (auto simp: next_delay_def min_def MAX_DELAY_def)
  then have d: "delays (Some (min (INITIAL_DELAY * 2 ^ k) MAX_DELAY)) (r # runs) = ?d # delays (Some ?d) runs"
    by (simp add: Let_def)
  show ?case
  proof (cases i)
    case (Suc j)
    with Cons.IH [of j "Suc k"] Cons.prems show ?thesis
      unfolding d by simp
  qed (simp add: d del: delays.simps)
qed simp

text \<open>
  While runs stay short, the wait before the next restart starts at 100 ms after the first
  run, doubles each time and never exceeds a minute.
\<close>

lemma restart_backoff:
  assumes "list_all (\<lambda>r. r < STABLE_RUN) runs" "i < length runs"
  shows "delays None runs ! i = min (100 * 2 ^ i) 60000"
proof (cases runs)
  case (Cons r rest)
  have first: "delays None runs = INITIAL_DELAY # delays (Some (min (INITIAL_DELAY * 2 ^ 0) MAX_DELAY)) rest"
    using Cons by (simp add: Let_def next_delay_def INITIAL_DELAY_def MAX_DELAY_def)
  show ?thesis
  proof (cases i)
    case (Suc j)
    with assms Cons delays_short [of rest j 0] show ?thesis
      unfolding first by (simp add: INITIAL_DELAY_def MAX_DELAY_def)
  qed (simp add: first INITIAL_DELAY_def)
qed (use assms in simp)

end
