(* ===== verification/Health.thy ===== *)
theory Health
  imports Events
begin

text \<open>
  Health checks, \<open>ward-core/src/sandbox/health.rs\<close>, and the bookkeeping of the supervisor that
  runs them, \<open>ward-core/src/sandbox/manager/health_monitor.rs\<close>. Instants, durations and times are
  nanoseconds; the failing streak is a natural number.
\<close>

section \<open>Configuration\<close>

definition DEFAULT_INTERVAL :: nat where "DEFAULT_INTERVAL = 30 * 1000000000"
definition DEFAULT_TIMEOUT :: nat where "DEFAULT_TIMEOUT = 30 * 1000000000"
definition DEFAULT_RETRIES :: nat where "DEFAULT_RETRIES = 3"
definition MAX_LOG_ENTRIES :: nat where "MAX_LOG_ENTRIES = 5"
definition MAX_OUTPUT_BYTES :: nat where "MAX_OUTPUT_BYTES = 4096"
definition MIN_DURATION :: nat where "MIN_DURATION = 1000000"
definition MAX_COMMAND_LEN :: nat where "MAX_COMMAND_LEN = 4096"
definition FAILED_EXIT_CODE :: int where "FAILED_EXIT_CODE = -1"

record health_check =
  ck_argv :: "string list"
  ck_interval :: nat
  ck_timeout :: nat
  ck_start_period :: nat
  ck_retries :: nat

definition check_from_config :: "healthcheck \<Rightarrow> health_check option" where
  "check_from_config config =
     map_option
       (\<lambda>argv. \<lparr>ck_argv = argv,
          ck_interval = (if hc_interval_ns config = 0 then DEFAULT_INTERVAL else hc_interval_ns config),
          ck_timeout = (if hc_timeout_ns config = 0 then DEFAULT_TIMEOUT else hc_timeout_ns config),
          ck_start_period = hc_start_period_ns config,
          ck_retries = (if hc_retries config = 0 then DEFAULT_RETRIES else hc_retries config)\<rparr>)
       (case hc_test config of
          [] \<Rightarrow> None
        | kind # rest \<Rightarrow>
            if kind = ''CMD-SHELL'' then Some [''/bin/sh'', ''-c'', join_with (CHR '' '') rest]
            else if kind = ''CMD'' then Some rest
            else None)"

definition health_invalid :: "string \<Rightarrow> unit result" where
  "health_invalid why = Inl (InvalidRequest (Msg ''healthcheck: {why}'' [S why]))"

text \<open>\<open>command.trim().is_empty()\<close>: the command has no word.\<close>

definition health_validate :: "healthcheck \<Rightarrow> unit result" where
  "health_validate config =
     (let too_short = (\<lambda>ns. ns \<noteq> 0 \<and> ns < MIN_DURATION);
          durations =
            (if too_short (hc_interval_ns config) \<or> too_short (hc_timeout_ns config) \<or>
                too_short (hc_start_period_ns config)
             then health_invalid ''interval, timeout and start period must be at least 1ms''
             else Inr ())
      in case hc_test config of
           [] \<Rightarrow> health_invalid ''test is empty''
         | kind # rest \<Rightarrow>
             if kind = ''NONE'' then
               (if rest = [] then Inr () else health_invalid ''NONE takes no command'')
             else if kind = ''CMD-SHELL'' \<or> kind = ''CMD'' then
               (let command = join_with (CHR '' '') rest
                in if split_whitespace command = [] \<or> length command > MAX_COMMAND_LEN
                   then health_invalid ''the command is empty or too long''
                   else durations)
             else health_invalid ''test must start with CMD, CMD-SHELL or NONE'')"

section \<open>Output\<close>

text \<open>\<open>str::is_char_boundary\<close>: the ends, and every byte that does not continue a character.\<close>

definition is_char_boundary :: "string \<Rightarrow> nat \<Rightarrow> bool" where
  "is_char_boundary text i \<longleftrightarrow>
     i = 0 \<or> i = length text \<or> (i < length text \<and> (byte (text ! i) < 128 \<or> byte (text ! i) \<ge> 192))"

fun boundary_below :: "string \<Rightarrow> nat \<Rightarrow> nat" where
  "boundary_below text 0 = 0"
| "boundary_below text (Suc n) =
     (if is_char_boundary text (Suc n) then Suc n else boundary_below text n)"

definition cut_at :: "string \<Rightarrow> nat \<Rightarrow> string" where
  "cut_at text mx = (if length text \<le> mx then text else take (boundary_below text mx) text)"

definition truncate_output :: "string \<Rightarrow> string" where
  "truncate_output output = cut_at output MAX_OUTPUT_BYTES"

definition append_capped :: "string \<Rightarrow> string \<Rightarrow> string" where
  "append_capped output chunk = output @ cut_at chunk (MAX_OUTPUT_BYTES - length output)"

section \<open>Tracking\<close>

datatype health_status = HStarting | HHealthy | HUnhealthy

record probe =
  pr_start :: nat
  pr_end :: nat
  pr_exit_code :: int
  pr_output :: string

record tracker =
  tk_run_started :: "nat option"
  tk_started_at :: nat
  tk_status :: health_status
  tk_failing_streak :: nat
  tk_log :: "probe list"
  tk_next_due :: nat
  tk_in_flight :: bool

definition tracker_new :: "nat option \<Rightarrow> nat \<Rightarrow> nat \<Rightarrow> tracker" where
  "tracker_new run_started started_at interval =
     \<lparr>tk_run_started = run_started, tk_started_at = started_at, tk_status = HStarting,
      tk_failing_streak = 0, tk_log = [], tk_next_due = started_at + interval, tk_in_flight = False\<rparr>"

definition take_due :: "nat \<Rightarrow> tracker \<Rightarrow> tracker \<times> bool" where
  "take_due now self =
     (if tk_in_flight self \<or> now < tk_next_due self then (self, False)
      else (self\<lparr>tk_in_flight := True\<rparr>, True))"

definition tracker_skip :: "health_check \<Rightarrow> nat \<Rightarrow> tracker \<Rightarrow> tracker" where
  "tracker_skip check now self = self\<lparr>tk_in_flight := False, tk_next_due := now + ck_interval check\<rparr>"

definition health_log_push :: "probe list \<Rightarrow> probe \<Rightarrow> probe list" where
  "health_log_push log p = trim_front MAX_LOG_ENTRIES (log @ [p])"

definition tracker_record ::
  "probe \<Rightarrow> health_check \<Rightarrow> nat \<Rightarrow> nat \<Rightarrow> tracker \<Rightarrow> tracker \<times> health_status option" where
  "tracker_record p check began now self0 =
     (let self = self0\<lparr>tk_in_flight := False, tk_next_due := now + ck_interval check\<rparr>;
          before = tk_status self;
          self1 =
            (if pr_exit_code p = 0 then self\<lparr>tk_status := HHealthy, tk_failing_streak := 0\<rparr>
             else if began - tk_started_at self \<ge> ck_start_period check then
               (let streak = tk_failing_streak self + 1
                in self\<lparr>tk_failing_streak := streak,
                        tk_status := (if streak \<ge> ck_retries check then HUnhealthy else tk_status self)\<rparr>)
             else self);
          self2 = self1\<lparr>tk_log := health_log_push (tk_log self1) p\<rparr>
      in (self2, if tk_status self2 \<noteq> before then Some (tk_status self2) else None))"

section \<open>The supervisor\<close>

text \<open>What the supervisor keeps of an entry: the metadata and the tracker.\<close>

record health_entry =
  he_meta :: sandbox_meta
  he_health :: "tracker option"

record due_check =
  du_id :: string
  du_check :: health_check
  du_run_started :: "nat option"

text \<open>The check an entry's request asks for.\<close>

definition meta_check :: "sandbox_meta \<Rightarrow> health_check option" where
  "meta_check meta =
     (case go_healthcheck (sp_guest (co_spec (sm_options meta))) of
        None \<Rightarrow> None | Some config \<Rightarrow> check_from_config config)"

text \<open>One entry in the loop of \<open>take_due_checks\<close>; \<open>now\<close> is the monotonic clock, \<open>wall\<close> the date.\<close>

definition take_due_entry :: "nat \<Rightarrow> nat \<Rightarrow> health_entry \<Rightarrow> health_entry \<times> due_check option" where
  "take_due_entry now wall entry =
     (case meta_check (he_meta entry) of
        None \<Rightarrow> (entry, None)
      | Some check \<Rightarrow>
          if sm_status (he_meta entry) \<noteq> Running then (entry, None)
          else
            (let run = sm_started_at (he_meta entry);
                 stale = (case he_health entry of None \<Rightarrow> True | Some t \<Rightarrow> tk_run_started t \<noteq> run);
                 age = (case run of None \<Rightarrow> 0 | Some r \<Rightarrow> if r \<le> wall then wall - r else 0);
                 started = (if age \<le> now then now - age else now);
                 entry1 = (if stale
                           then entry\<lparr>he_health := Some (tracker_new run started (ck_interval check))\<rparr>
                           else entry)
             in case he_health entry1 of
                  None \<Rightarrow> (entry1, None)
                | Some t \<Rightarrow>
                    (case take_due now t of
                       (t', due) \<Rightarrow>
                         (entry1\<lparr>he_health := Some t'\<rparr>,
                          if due then Some \<lparr>du_id = sm_id (he_meta entry1), du_check = check, du_run_started = run\<rparr>
                          else None))))"

text \<open>
  What \<open>run_check\<close> does to the entry, if there still is one: \<open>paused\<close> tells whether the guest
  was frozen, the probe is what \<open>probe\<close> returned, and the result is the event it emits.
\<close>

definition run_check_entry ::
  "bool \<Rightarrow> probe \<Rightarrow> nat \<Rightarrow> nat \<Rightarrow> due_check \<Rightarrow> health_entry option \<Rightarrow> health_entry option \<times> event_action option" where
  "run_check_entry paused p began now due entry =
     (case entry of
        None \<Rightarrow> (None, None)
      | Some e \<Rightarrow>
          (case he_health e of
             None \<Rightarrow> (Some e, None)
           | Some t \<Rightarrow>
               if tk_run_started t \<noteq> du_run_started due then (Some e, None)
               else if paused then (Some (e\<lparr>he_health := Some (tracker_skip (du_check due) now t)\<rparr>), None)
               else (case tracker_record p (du_check due) began now t of
                       (t', status) \<Rightarrow>
                         (Some (e\<lparr>he_health := Some t'\<rparr>),
                          (case status of
                             Some HHealthy \<Rightarrow> Some EHealthHealthy
                           | Some HUnhealthy \<Rightarrow> Some EHealthUnhealthy
                           | _ \<Rightarrow> None)))))"

text \<open>
  \<open>Tracker::starting_state\<close>, \<open>Tracker::state\<close> and what \<open>recorded_state\<close> of \<open>manager.rs\<close> reports of
  an entry's health.
\<close>

record health_state =
  hl_status :: string
  hl_failing_streak :: nat
  hl_log :: "probe list"

fun health_status_str :: "health_status \<Rightarrow> string" where
  "health_status_str HStarting = ''starting''"
| "health_status_str HHealthy = ''healthy''"
| "health_status_str HUnhealthy = ''unhealthy''"

definition starting_state :: health_state where
  "starting_state = \<lparr>hl_status = health_status_str HStarting, hl_failing_streak = 0, hl_log = []\<rparr>"

definition tracker_state :: "tracker \<Rightarrow> health_state" where
  "tracker_state self =
     \<lparr>hl_status = health_status_str (tk_status self), hl_failing_streak = tk_failing_streak self, hl_log = tk_log self\<rparr>"

definition reported_health :: "health_entry \<Rightarrow> health_state option" where
  "reported_health entry =
     (case (case he_health entry of
              Some t \<Rightarrow> if tk_run_started t = sm_started_at (he_meta entry) then Some t else None
            | None \<Rightarrow> None) of
        Some t \<Rightarrow> Some (tracker_state t)
      | None \<Rightarrow>
          if meta_check (he_meta entry) \<noteq> None \<and> sm_status (he_meta entry) = Running
          then Some starting_state else None)"

text \<open>The events of a check's process; \<open>lossy\<close> is \<open>String::from_utf8_lossy\<close>.\<close>

datatype check_event = CheckExit "int option" | CheckData bytes | CheckLine string

fun collect_output :: "(bytes \<Rightarrow> string) \<Rightarrow> check_event list \<Rightarrow> string \<Rightarrow> int \<times> string" where
  "collect_output lossy [] output = (FAILED_EXIT_CODE, output)"
| "collect_output lossy (ev # evs) output =
     (case ev of
        CheckExit code \<Rightarrow> (case code of Some c \<Rightarrow> (c, output) | None \<Rightarrow> (FAILED_EXIT_CODE, output))
      | CheckData b \<Rightarrow> collect_output lossy evs (append_capped output (lossy b))
      | CheckLine line \<Rightarrow>
          collect_output lossy evs (append_capped (append_capped output line) [CHR 0x0A]))"

section \<open>Output is cut at characters\<close>

lemma boundary_below_le: "boundary_below text n \<le> n"
  by (induction n) auto

lemma boundary_below_is: "is_char_boundary text (boundary_below text n)"
  by (induction n) (auto simp: is_char_boundary_def)

lemma boundary_below_greatest: "is_char_boundary text i \<Longrightarrow> i \<le> n \<Longrightarrow> i \<le> boundary_below text n"
proof (induction n)
  case (Suc n)
  then show ?case by (cases "i = Suc n") auto
qed simp

lemma cut_at_length: "length (cut_at text n) \<le> n"
  using boundary_below_le [of "text" n] by (auto simp: cut_at_def)

text \<open>
  Cutting output keeps the longest prefix within the limit that ends between two characters.
\<close>

theorem cut_at_longest:
  "length (cut_at s n) \<le> n \<and> prefix (cut_at s n) s \<and> is_char_boundary s (length (cut_at s n)) \<and>
   (\<forall>i. is_char_boundary s i \<and> i \<le> n \<longrightarrow> i \<le> length (cut_at s n))"
proof (cases "length s \<le> n")
  case True
  then have "cut_at s n = s" by (simp add: cut_at_def)
  with True show ?thesis by (auto simp: is_char_boundary_def)
next
  case False
  then have c: "cut_at s n = take (boundary_below s n) s" "boundary_below s n \<le> n" "n \<le> length s"
    using boundary_below_le by (auto simp: cut_at_def)
  then have "length (cut_at s n) = boundary_below s n"
    by simp
  then show ?thesis
    using boundary_below_is boundary_below_greatest c(1,2) by (metis take_is_prefix)
qed

lemma append_capped_bound: "length out \<le> 4096 \<Longrightarrow> length (append_capped out chunk) \<le> 4096"
  using cut_at_length [of chunk "4096 - length out"] by (simp add: append_capped_def MAX_OUTPUT_BYTES_def)

lemma collect_output_bound: "length out \<le> 4096 \<Longrightarrow> length (snd (collect_output lossy evs out)) \<le> 4096"
proof (induction evs arbitrary: out)
  case (Cons ev evs)
  then show ?case
    by (cases ev) (auto split: option.split simp: append_capped_bound)
qed simp

section \<open>Streaks\<close>

interpretation health_log: bounded_log health_log_push MAX_LOG_ENTRIES
  by unfold_locales (simp add: health_log_push_def trim_front_last_n)

text \<open>
  What a run of checks means: the failures since the last success that fell outside the start
  period, and the status they lead to.
\<close>

definition counts :: "health_check \<Rightarrow> nat \<Rightarrow> probe \<times> nat \<Rightarrow> bool" where
  "counts check started pb \<longleftrightarrow> pr_exit_code (fst pb) \<noteq> 0 \<and> snd pb - started \<ge> ck_start_period check"

definition since_success :: "(probe \<times> nat) list \<Rightarrow> (probe \<times> nat) list" where
  "since_success ps = rev (takeWhile (\<lambda>pb. pr_exit_code (fst pb) \<noteq> 0) (rev ps))"

definition streak_of :: "health_check \<Rightarrow> nat \<Rightarrow> (probe \<times> nat) list \<Rightarrow> nat" where
  "streak_of check started ps = length (filter (counts check started) (since_success ps))"

definition status_of :: "health_check \<Rightarrow> nat \<Rightarrow> (probe \<times> nat) list \<Rightarrow> health_status" where
  "status_of check started ps =
     (if streak_of check started ps \<ge> ck_retries check then HUnhealthy
      else if list_ex (\<lambda>pb. pr_exit_code (fst pb) = 0) ps then HHealthy else HStarting)"

text \<open>The tracker after the given probes, each with the instant it began and the one it ended.\<close>

definition track :: "health_check \<Rightarrow> tracker \<Rightarrow> (probe \<times> nat \<times> nat) list \<Rightarrow> tracker" where
  "track check t ps = foldl (\<lambda>t (p, began, now). fst (tracker_record p check began now t)) t ps"

lemma since_success_snoc:
  "since_success (ps @ [(p, b)]) = (if pr_exit_code p = 0 then [] else since_success ps @ [(p, b)])"
  by (simp add: since_success_def)

lemma streak_of_snoc:
  "streak_of check started (ps @ [(p, b)]) =
     (if pr_exit_code p = 0 then 0
      else streak_of check started ps + (if b - started \<ge> ck_start_period check then 1 else 0))"
  by (auto simp: streak_of_def since_success_snoc counts_def)

definition tracks :: "health_check \<Rightarrow> tracker \<Rightarrow> (probe \<times> nat \<times> nat) list \<Rightarrow> bool" where
  "tracks check t ps \<longleftrightarrow>
     tk_failing_streak t = streak_of check (tk_started_at t) (map (\<lambda>(p, b, n). (p, b)) ps) \<and>
     tk_status t = status_of check (tk_started_at t) (map (\<lambda>(p, b, n). (p, b)) ps) \<and>
     tk_log t = last_n MAX_LOG_ENTRIES (map fst ps)"

lemma tracks_new: "0 < ck_retries check \<Longrightarrow> tracks check (tracker_new run started interval) []"
  by (simp add: tracks_def tracker_new_def streak_of_def status_of_def since_success_def)

lemma tracks_record:
  assumes "0 < ck_retries check" "tracks check t ps"
  shows "tracks check (fst (tracker_record p check began now t)) (ps @ [(p, began, now)])"
proof -
  have log: "health_log_push (tk_log t) p = last_n MAX_LOG_ENTRIES (map fst ps @ [p])"
    using assms(2) health_log.push_newest [of "tk_log t" p] by (simp add: tracks_def last_n_snoc_last_n)
  show ?thesis
    using assms log unfolding tracks_def map_append list.map prod.case streak_of_snoc status_of_def
    by (auto simp: tracker_record_def Let_def)
qed

lemma tracker_record_kept:
  "tk_run_started (fst (tracker_record p check began now t)) = tk_run_started t"
  "tk_started_at (fst (tracker_record p check began now t)) = tk_started_at t"
  "\<not> tk_in_flight (fst (tracker_record p check began now t))"
  by (simp_all add: tracker_record_def Let_def)

lemma track_spec:
  assumes "0 < ck_retries check"
  shows "tk_started_at (track check (tracker_new run started interval) ps) = started \<and>
    tracks check (track check (tracker_new run started interval) ps) ps"
proof (induction ps rule: rev_induct)
  case Nil
  show ?case using tracks_new [OF assms] by (simp add: track_def tracker_new_def)
next
  case (snoc pb ps)
  then show ?case
    using tracks_record [OF assms] by (cases pb) (simp add: track_def tracker_record_kept)
qed

text \<open>
  C36: After any sequence of checks the failing streak is the number of failures since the last
  success that began outside the start period; the sandbox is unhealthy exactly when the streak
  has reached the retries, otherwise healthy once a check succeeded and starting before; and the
  log holds the newest five checks. So a success does not end the start period, against the
  comment on \<open>record\<close>: a later failure that still began within it counts no more than before.
\<close>

theorem health_tracking:
  assumes "0 < ck_retries check"
  shows "let t = track check (tracker_new run started interval) ps; qs = map (\<lambda>(p, b, n). (p, b)) ps in
    tk_failing_streak t = streak_of check started qs \<and> tk_status t = status_of check started qs \<and>
    tk_log t = last_n 5 (map fst ps)"
  using track_spec [OF assms, of run started interval ps] by (simp add: Let_def tracks_def MAX_LOG_ENTRIES_def)

theorem health_tracking_witness:
  "tk_status (track \<lparr>ck_argv = [''true''], ck_interval = 1, ck_timeout = 1, ck_start_period = 10, ck_retries = 2\<rparr>
     (tracker_new None 0 1)
     [(\<lparr>pr_start = 0, pr_end = 0, pr_exit_code = 1, pr_output = ''''\<rparr>, 5, 6),
      (\<lparr>pr_start = 0, pr_end = 0, pr_exit_code = 1, pr_output = ''''\<rparr>, 20, 21),
      (\<lparr>pr_start = 0, pr_end = 0, pr_exit_code = 1, pr_output = ''''\<rparr>, 30, 31)]) = HUnhealthy"
proof -
  let ?c = "\<lparr>ck_argv = [''true''], ck_interval = 1, ck_timeout = 1, ck_start_period = 10, ck_retries = 2\<rparr>"
  have "0 < ck_retries ?c" by simp
  from health_tracking [OF this, of None 0 1] show ?thesis
    by (simp add: Let_def status_of_def streak_of_def since_success_def counts_def)
qed

section \<open>Checks and runs\<close>

text \<open>
  The supervisor, the checks it has in flight and the rest of the manager, as they act on one
  entry. \<open>hs_done\<close> lists the checks that finished, with the run each was claimed for, its probe
  and when it began and ended; \<open>hs_starts\<close> the starts recorded so far. A run is known by its
  recorded start, so a new start is one not recorded before.
\<close>

record health_system =
  hs_entry :: health_entry
  hs_flight :: "due_check list"
  hs_done :: "(nat option \<times> probe \<times> nat \<times> nat) list"
  hs_starts :: "nat option set"

inductive health_step :: "health_system \<Rightarrow> health_system \<Rightarrow> bool" where
  tick: "take_due_entry now wall (hs_entry s) = (e, due) \<Longrightarrow>
    health_step s (s\<lparr>hs_entry := e, hs_flight := hs_flight s @ (case due of None \<Rightarrow> [] | Some d \<Rightarrow> [d])\<rparr>)"
| finish: "hs_flight s = fs @ due # gs \<Longrightarrow>
    run_check_entry paused p began now due (Some (hs_entry s)) = (Some e, ev) \<Longrightarrow>
    health_step s (s\<lparr>hs_entry := e, hs_flight := fs @ gs,
      hs_done := hs_done s @ (if paused then [] else [(du_run_started due, p, began, now)])\<rparr>)"
| change: "meta_check meta = meta_check (he_meta (hs_entry s)) \<Longrightarrow>
    sm_started_at meta = sm_started_at (he_meta (hs_entry s)) \<or> sm_started_at meta \<notin> hs_starts s \<Longrightarrow>
    health_step s (s\<lparr>hs_entry := (hs_entry s)\<lparr>he_meta := meta\<rparr>, hs_starts := insert (sm_started_at meta) (hs_starts s)\<rparr>)"

definition health_begun :: "sandbox_meta \<Rightarrow> health_system" where
  "health_begun meta =
     \<lparr>hs_entry = \<lparr>he_meta = meta, he_health = None\<rparr>, hs_flight = [], hs_done = [], hs_starts = {sm_started_at meta}\<rparr>"

definition of_run :: "nat option \<Rightarrow> health_system \<Rightarrow> (probe \<times> nat \<times> nat) list" where
  "of_run run s = map snd (filter (\<lambda>c. fst c = run) (hs_done s))"

definition in_flight_of :: "nat option \<Rightarrow> health_system \<Rightarrow> due_check list" where
  "in_flight_of run s = filter (\<lambda>d. du_run_started d = run) (hs_flight s)"

definition current_run :: "health_system \<Rightarrow> nat option" where
  "current_run s = sm_started_at (he_meta (hs_entry s))"

definition health_inv :: "health_check \<Rightarrow> health_system \<Rightarrow> bool" where
  "health_inv check s \<longleftrightarrow>
     meta_check (he_meta (hs_entry s)) = Some check \<and> current_run s \<in> hs_starts s \<and>
     (\<forall>d \<in> set (hs_flight s). du_run_started d \<in> hs_starts s \<and> du_check d = check) \<and>
     (\<forall>c \<in> set (hs_done s). fst c \<in> hs_starts s) \<and>
     (case he_health (hs_entry s) of
        None \<Rightarrow> in_flight_of (current_run s) s = [] \<and> of_run (current_run s) s = []
      | Some t \<Rightarrow>
          (tk_run_started t \<noteq> current_run s \<longrightarrow>
             in_flight_of (current_run s) s = [] \<and> of_run (current_run s) s = []) \<and>
          tk_run_started t \<in> hs_starts s \<and> tracks check t (of_run (tk_run_started t) s) \<and>
          length (in_flight_of (tk_run_started t) s) = (if tk_in_flight t then 1 else 0))"

lemma check_retries: "check_from_config config = Some check \<Longrightarrow> 0 < ck_retries check"
  by (auto simp: check_from_config_def DEFAULT_RETRIES_def split: list.splits if_splits)

lemma meta_check_retries: "meta_check meta = Some check \<Longrightarrow> 0 < ck_retries check"
  by (auto simp: meta_check_def split: option.splits dest: check_retries)


lemma run_lists_simps:
  "of_run run (s\<lparr>hs_entry := e\<rparr>) = of_run run s"
  "of_run run (s\<lparr>hs_entry := e, hs_flight := fl\<rparr>) = of_run run s"
  "of_run run (s\<lparr>hs_entry := e, hs_starts := ss\<rparr>) = of_run run s"
  "in_flight_of run (s\<lparr>hs_entry := e, hs_starts := ss\<rparr>) = in_flight_of run s"
  by (simp_all add: of_run_def in_flight_of_def)

text \<open>A tick leaves the entry alone, or has a tracker of the current run look at the clock.\<close>

lemma take_due_entry_cases:
  assumes "take_due_entry now wall e = (e', due)" "meta_check (he_meta e) = Some check"
  shows "e' = e \<and> due = None \<or>
    (\<exists>t. (he_health e = Some t \<and> tk_run_started t = sm_started_at (he_meta e) \<or>
          (\<forall>u. he_health e = Some u \<longrightarrow> tk_run_started u \<noteq> sm_started_at (he_meta e)) \<and>
          (\<exists>started. t = tracker_new (sm_started_at (he_meta e)) started (ck_interval check))) \<and>
        e' = e\<lparr>he_health := Some (fst (take_due now t))\<rparr> \<and>
        due = (if snd (take_due now t)
               then Some \<lparr>du_id = sm_id (he_meta e), du_check = check, du_run_started = sm_started_at (he_meta e)\<rparr> else None))"
proof (cases "sm_status (he_meta e) = Running")
  case True
  let ?run = "sm_started_at (he_meta e)"
  define age where "age = (case ?run of None \<Rightarrow> 0 | Some r \<Rightarrow> if r \<le> wall then wall - r else 0)"
  define fresh where "fresh = tracker_new ?run (if age \<le> now then now - age else now) (ck_interval check)"
  define t where "t = (case he_health e of None \<Rightarrow> fresh | Some u \<Rightarrow> if tk_run_started u \<noteq> ?run then fresh else u)"
  have "(e', due) = (e\<lparr>he_health := Some (fst (take_due now t))\<rparr>,
      if snd (take_due now t) then Some \<lparr>du_id = sm_id (he_meta e), du_check = check, du_run_started = ?run\<rparr> else None)"
    using assms True
    by (cases "he_health e") (auto simp: take_due_entry_def Let_def t_def fresh_def age_def split: prod.splits)
  moreover have "he_health e = Some t \<and> tk_run_started t = ?run \<or>
      (\<forall>u. he_health e = Some u \<longrightarrow> tk_run_started u \<noteq> ?run) \<and> (\<exists>started. t = tracker_new ?run started (ck_interval check))"
    by (cases "he_health e") (auto simp: t_def fresh_def)
  ultimately show ?thesis by blast
next
  case False
  with assms show ?thesis by (simp add: take_due_entry_def)
qed

lemma tick_inv:
  assumes "health_inv check s" "take_due_entry now wall (hs_entry s) = (e, due)"
  shows "health_inv check (s\<lparr>hs_entry := e, hs_flight := hs_flight s @ (case due of None \<Rightarrow> [] | Some d \<Rightarrow> [d])\<rparr>)"
proof -
  have chk: "meta_check (he_meta (hs_entry s)) = Some check" "0 < ck_retries check"
    using assms(1) meta_check_retries by (auto simp: health_inv_def)
  consider (idle) "e = hs_entry s" "due = None"
    | (looked) t where "he_health (hs_entry s) = Some t \<and> tk_run_started t = current_run s \<or>
          (\<forall>u. he_health (hs_entry s) = Some u \<longrightarrow> tk_run_started u \<noteq> current_run s) \<and>
          (\<exists>started. t = tracker_new (current_run s) started (ck_interval check))"
        "e = (hs_entry s)\<lparr>he_health := Some (fst (take_due now t))\<rparr>"
        "due = (if snd (take_due now t) then Some \<lparr>du_id = sm_id (he_meta (hs_entry s)), du_check = check,
           du_run_started = current_run s\<rparr> else None)"
    using take_due_entry_cases [OF assms(2) chk(1)] unfolding current_run_def by blast
  then show ?thesis
  proof cases
    case idle
    with assms(1) show ?thesis by simp
  next
    case looked
    have t: "tk_run_started t = current_run s" "tracks check t (of_run (current_run s) s)"
        "length (in_flight_of (current_run s) s) = (if tk_in_flight t then 1 else 0)"
      using looked(1) assms(1) tracks_new [OF chk(2)]
      by (auto simp: health_inv_def tracker_new_def split: option.splits)
    then show ?thesis
      using assms(1) looked(2,3)
      by (auto simp: health_inv_def current_run_def in_flight_of_def of_run_def take_due_def tracks_def split: option.splits)
  qed
qed

lemma check_finish_inv:
  assumes "health_inv check s" "hs_flight s = fs @ due # gs"
    and "run_check_entry paused p began now due (Some (hs_entry s)) = (Some e, ev)"
  shows "health_inv check (s\<lparr>hs_entry := e, hs_flight := fs @ gs,
    hs_done := hs_done s @ (if paused then [] else [(du_run_started due, p, began, now)])\<rparr>)"
proof -
  have chk: "meta_check (he_meta (hs_entry s)) = Some check" "0 < ck_retries check" "du_check due = check"
      "du_run_started due \<in> hs_starts s"
    using assms(1,2) meta_check_retries by (auto simp: health_inv_def)
  let ?s = "s\<lparr>hs_entry := e, hs_flight := fs @ gs,
    hs_done := hs_done s @ (if paused then [] else [(du_run_started due, p, began, now)])\<rparr>"
  have lists: "length (in_flight_of r s) = length (in_flight_of r ?s) + (if du_run_started due = r then 1 else 0)"
      "of_run r ?s = of_run r s @ (if paused \<or> du_run_started due \<noteq> r then [] else [(p, began, now)])" for r
    using assms(2) by (simp_all add: in_flight_of_def of_run_def)
  have others: "(\<forall>d \<in> set (hs_flight ?s). du_run_started d \<in> hs_starts ?s \<and> du_check d = check) \<and>
      (\<forall>c \<in> set (hs_done ?s). fst c \<in> hs_starts ?s)"
    using assms(1,2) chk(4) by (auto simp: health_inv_def)
  have e: "e = (case he_health (hs_entry s) of
      None \<Rightarrow> hs_entry s
    | Some t \<Rightarrow> if tk_run_started t \<noteq> du_run_started due then hs_entry s
        else (hs_entry s)\<lparr>he_health := Some (if paused then tracker_skip check now t
                                        else fst (tracker_record p check began now t))\<rparr>)"
    using assms(3) chk(3) by (auto simp: run_check_entry_def split: option.splits prod.splits if_splits)
  then have cur: "current_run ?s = current_run s" "he_meta e = he_meta (hs_entry s)"
    by (simp_all add: current_run_def split: option.splits)
  have none: "in_flight_of r ?s = [] \<and> of_run r ?s = []" if "in_flight_of r s = []" "of_run r s = []" for r
    using lists [of r] that by (auto split: if_splits)
  show ?thesis
  proof (cases "he_health (hs_entry s)")
    case None
    with e assms(1) none [of "current_run s"] others cur show ?thesis by (simp add: health_inv_def)
  next
    case (Some t)
    let ?t = "if tk_run_started t \<noteq> du_run_started due then t
      else if paused then tracker_skip check now t else fst (tracker_record p check began now t)"
    have t: "tracks check t (of_run (tk_run_started t) s)" "tk_run_started t \<in> hs_starts s"
        "length (in_flight_of (tk_run_started t) s) = (if tk_in_flight t then 1 else 0)"
        "tk_run_started t \<noteq> current_run s \<Longrightarrow> in_flight_of (current_run s) s = [] \<and> of_run (current_run s) s = []"
      using assms(1) Some by (simp_all add: health_inv_def)
    have t': "tk_run_started ?t = tk_run_started t"
      by (simp add: tracker_skip_def tracker_record_kept)
    have "tracks check ?t (of_run (tk_run_started t) ?s)"
      using t(1) lists(2) [of "tk_run_started t"] tracks_record [OF chk(2) t(1)] by (auto simp: tracks_def tracker_skip_def)
    moreover have "length (in_flight_of (tk_run_started t) ?s) = (if tk_in_flight ?t then 1 else 0)"
      using t(3) lists(1) [of "tk_run_started t"] by (auto simp: tracker_skip_def tracker_record_kept split: if_splits)
    moreover have "he_health e = Some ?t" using e Some by simp
    ultimately show ?thesis
      using others cur t(2) t' none [of "current_run s"] t(4) assms(1) by (simp add: health_inv_def)
  qed
qed

lemma change_inv:
  assumes "health_inv check s" "meta_check meta = meta_check (he_meta (hs_entry s))"
    and "sm_started_at meta = sm_started_at (he_meta (hs_entry s)) \<or> sm_started_at meta \<notin> hs_starts s"
  shows "health_inv check (s\<lparr>hs_entry := (hs_entry s)\<lparr>he_meta := meta\<rparr>, hs_starts := insert (sm_started_at meta) (hs_starts s)\<rparr>)"
proof (cases "sm_started_at meta = current_run s")
  case True
  with assms show ?thesis
    by (auto simp: health_inv_def current_run_def in_flight_of_def of_run_def split: option.splits)
next
  case False
  with assms(3) have "sm_started_at meta \<notin> hs_starts s" by (simp add: current_run_def)
  then have "in_flight_of (sm_started_at meta) s = []" "of_run (sm_started_at meta) s = []"
    using assms(1) by (auto simp: health_inv_def in_flight_of_def of_run_def filter_empty_conv)
  with assms(1,2) show ?thesis
    by (auto simp: health_inv_def current_run_def in_flight_of_def of_run_def split: option.splits)
qed

lemma health_step_inv [preserve]: "health_step s t \<Longrightarrow> health_inv check s \<Longrightarrow> health_inv check t"
proof (induction rule: health_step.induct)
  case tick
  then show ?case by (intro tick_inv)
next
  case finish
  then show ?case by (intro check_finish_inv)
next
  case change
  then show ?case by (intro change_inv)
qed

interpretation health: invariant_system health_step "health_inv check" for check
  by unfold_locales (rule health_step_inv)

text \<open>
  C37: However ticks of the supervisor, results of checks and changes of the sandbox interleave, the
  health a sandbox reports is what the checks claimed for its current run, and no others, amount
  to: their status, their failing streak and the newest five of them. A result that comes late
  never shows in a newer run, a sandbox that runs and has a check always reports, and at most one
  check of the current run is in flight. A run is known by its recorded start.
\<close>

theorem check_only_own_run:
  assumes "meta_check meta = Some check" "health_step\<^sup>*\<^sup>* (health_begun meta) s"
  defines "checks \<equiv> of_run (current_run s) s"
    and "started \<equiv> (case he_health (hs_entry s) of Some t \<Rightarrow> tk_started_at t | None \<Rightarrow> 0)"
  shows "length (in_flight_of (current_run s) s) \<le> 1 \<and>
    (case reported_health (hs_entry s) of
       Some h \<Rightarrow>
         hl_status h = health_status_str (status_of check started (map (\<lambda>(p, b, n). (p, b)) checks)) \<and>
         hl_failing_streak h = streak_of check started (map (\<lambda>(p, b, n). (p, b)) checks) \<and>
         hl_log h = last_n 5 (map fst checks)
     | None \<Rightarrow> checks = [] \<and> sm_status (he_meta (hs_entry s)) \<noteq> Running)"
proof -
  have "health_inv check (health_begun meta)"
    using assms(1) by (simp add: health_inv_def health_begun_def current_run_def in_flight_of_def of_run_def)
  then have inv: "health_inv check s" by (rule health.run_keeps [OF assms(2)])
  have chk: "0 < ck_retries check" by (rule meta_check_retries [OF assms(1)])
  have none: "status_of check started [] = HStarting" "streak_of check started [] = 0"
    using chk by (simp_all add: status_of_def streak_of_def since_success_def)
  show ?thesis
  proof (cases "\<exists>t. he_health (hs_entry s) = Some t \<and> tk_run_started t = current_run s")
    case True
    then obtain t where t: "he_health (hs_entry s) = Some t" "tk_run_started t = current_run s" by blast
    then have "reported_health (hs_entry s) = Some (tracker_state t)" "started = tk_started_at t"
      by (simp_all add: reported_health_def current_run_def started_def)
    with inv t show ?thesis
      by (simp add: health_inv_def tracks_def tracker_state_def checks_def MAX_LOG_ENTRIES_def)
  next
    case False
    then have "reported_health (hs_entry s) =
        (if sm_status (he_meta (hs_entry s)) = Running then Some starting_state else None)"
      using inv by (auto simp: reported_health_def current_run_def health_inv_def split: option.split)
    moreover have "checks = []" "in_flight_of (current_run s) s = []"
      using inv False by (auto simp: health_inv_def checks_def split: option.splits)
    ultimately show ?thesis using none by (simp add: starting_state_def last_n_def)
  qed
qed

definition checked_meta :: "nat \<Rightarrow> sandbox_meta" where
  "checked_meta started =
     (let meta = demo_meta Running; opts = sm_options meta; sp = co_spec opts; guest = sp_guest sp
      in meta\<lparr>sm_started_at := Some started, sm_options := opts\<lparr>co_spec := sp\<lparr>sp_guest := guest\<lparr>go_healthcheck :=
           Some \<lparr>hc_test = [''CMD'', ''true''], hc_interval_ns = 1000000, hc_timeout_ns = 0,
                 hc_start_period_ns = 0, hc_retries = 1\<rparr>\<rparr>\<rparr>\<rparr>\<rparr>)"

theorem check_only_own_run_witness:
  "\<exists>s h. health_step\<^sup>*\<^sup>* (health_begun (checked_meta 0)) s \<and> map fst (hs_done s) = [Some 0] \<and>
     current_run s = Some 3000000 \<and> reported_health (hs_entry s) = Some h \<and> hl_status h = ''starting''"
proof -
  let ?ck = "\<lparr>ck_argv = [''true''], ck_interval = 1000000, ck_timeout = DEFAULT_TIMEOUT, ck_start_period = 0, ck_retries = 1\<rparr>"
  let ?p = "\<lparr>pr_start = 0, pr_end = 0, pr_exit_code = 1, pr_output = []\<rparr>"
  let ?t = "\<lparr>tk_run_started = Some 0, tk_started_at = 0, tk_status = HStarting, tk_failing_streak = 0, tk_log = [],
    tk_next_due = 1000000, tk_in_flight = True\<rparr>"
  let ?due = "\<lparr>du_id = ''a1'', du_check = ?ck, du_run_started = Some 0\<rparr>"
  let ?s0 = "health_begun (checked_meta 0)"
  let ?s1 = "?s0\<lparr>hs_entry := \<lparr>he_meta = checked_meta 0, he_health = Some ?t\<rparr>, hs_flight := hs_flight ?s0 @ (case Some ?due of None \<Rightarrow> [] | Some d \<Rightarrow> [d])\<rparr>"
  let ?s2 = "?s1\<lparr>hs_entry := (hs_entry ?s1)\<lparr>he_meta := checked_meta 3000000\<rparr>,
    hs_starts := insert (sm_started_at (checked_meta 3000000)) (hs_starts ?s1)\<rparr>"
  let ?e = "\<lparr>he_meta = checked_meta 3000000, he_health = Some (fst (tracker_record ?p ?ck 2000000 4000000 ?t))\<rparr>"
  let ?s3 = "?s2\<lparr>hs_entry := ?e, hs_flight := [] @ [], hs_done := hs_done ?s2 @ (if False then [] else [(du_run_started ?due, ?p, 2000000, 4000000)])\<rparr>"
  have m: "meta_check (checked_meta n) = Some ?ck" "sm_started_at (checked_meta n) = Some n"
      "sm_status (checked_meta n) = Running" "sm_id (checked_meta n) = ''a1''" for n
    by (simp_all add: meta_check_def checked_meta_def Let_def check_from_config_def demo_meta_def)
  have "health_step ?s0 ?s1"
    by (rule health_step.tick [where now = 2000000 and wall = 2000000])
      (simp add: take_due_entry_def m health_begun_def tracker_new_def take_due_def Let_def)
  moreover have "health_step ?s1 ?s2"
    by (rule health_step.change) (simp_all add: m health_begun_def)
  moreover have "health_step ?s2 ?s3"
    by (rule health_step.finish [where paused = False and fs = "[]" and gs = "[]" and due = ?due and ev = "Some EHealthUnhealthy"])
      (simp_all add: health_begun_def run_check_entry_def tracker_record_def Let_def)
  ultimately have run: "health_step\<^sup>*\<^sup>* ?s0 ?s3" by (meson converse_rtranclp_into_rtranclp rtranclp.rtrancl_refl)
  have cur: "current_run ?s3 = Some 3000000" "map fst (hs_done ?s3) = [Some 0]" "of_run (Some 3000000) ?s3 = []"
    by (simp_all add: current_run_def m of_run_def health_begun_def)
  have r: "reported_health (hs_entry ?s3) = Some starting_state"
    by (simp add: reported_health_def m tracker_record_kept)
  have h: "hl_status starting_state = ''starting''"
    using check_only_own_run [OF m(1) run] unfolding r cur
    by (simp add: status_of_def streak_of_def since_success_def)
  show ?thesis
    by (rule exI [of _ ?s3], rule exI [of _ starting_state], intro conjI) (fact run cur(1,2) r h)+
qed

end
