(* ===== verification/Volume.thy ===== *)
theory Volume
  imports Validate Store "HOL-Library.List_Lexorder" "HOL-Library.Char_ord" "HOL-Library.Multiset"
begin

text \<open>
  Named volumes, \<open>ward-core/src/volume/manager.rs\<close>: creation on first use, claims by sandboxes
  being created, removal when unused, and reloading at start.

  The table of volumes is iterated, so it is an association list. The disk keeps, for each volume
  directory, the contents of its \<open>volume.json\<close> if it has one. A fresh id (uuid), the clock, JSON
  and the outcome of each file operation are inputs. Times are nanoseconds.
\<close>

section \<open>State\<close>

definition VOLUMES_DIR :: string where "VOLUMES_DIR = ''volumes''"
definition DATA_DIR :: string where "DATA_DIR = ''data''"
definition CREATING_HOLDER :: string where "CREATING_HOLDER = ''a sandbox being created''"
definition IMPLICIT_VOLUME_SIZE_MB :: u32 where "IMPLICIT_VOLUME_SIZE_MB = 1024"

text \<open>\<open>Path::join\<close> with a relative path.\<close>

definition path_join :: "string \<Rightarrow> string \<Rightarrow> string" where
  "path_join p q = (if p = '''' \<or> ends_with p ''/'' then p @ q else p @ ''/'' @ q)"

record volume_entry =
  ve_id :: string
  ve_name :: string
  ve_size_mb :: u32
  ve_created_at :: nat
  ve_dir :: string
  ve_labels :: "(string \<times> string) list"

definition data_path :: "volume_entry \<Rightarrow> string" where
  "data_path e = path_join (ve_dir e) DATA_DIR"

record volume_meta =
  vmeta_id :: string
  vmeta_name :: string
  vmeta_size_mb :: u32
  vmeta_created_at_secs :: nat
  vmeta_labels :: "(string \<times> string) list"

record volume_manager =
  vm_data_dir :: string
  vm_volumes :: "(string \<times> volume_entry) list"
  vm_max_volumes :: nat
  vm_claims :: "string \<rightharpoonup> nat"
  vm_disk :: "(string \<times> bytes option) list"

record pb_volume_info =
  pv_mount_path :: string
  pv_id :: string
  pv_name :: string
  pv_size_mb :: u32
  pv_created_at :: nat
  pv_labels :: "(string \<times> string) list"

definition entry_to_pb :: "volume_entry \<Rightarrow> pb_volume_info" where
  "entry_to_pb e = \<lparr>pv_mount_path = data_path e, pv_id = ve_id e, pv_name = ve_name e,
     pv_size_mb = ve_size_mb e, pv_created_at = ve_created_at e, pv_labels = ve_labels e\<rparr>"

section \<open>Claims\<close>

definition volume_claim :: "string \<Rightarrow> volume_manager \<Rightarrow> volume_manager" where
  "volume_claim name vm = vm\<lparr>vm_claims := (vm_claims vm)(name \<mapsto> unwrap_or (vm_claims vm name) 0 + 1)\<rparr>"

definition claim_drop :: "string \<Rightarrow> volume_manager \<Rightarrow> volume_manager" where
  "claim_drop name vm =
     (case vm_claims vm name of
        None \<Rightarrow> vm
      | Some n \<Rightarrow>
          if n - 1 = 0 then vm\<lparr>vm_claims := (vm_claims vm)(name := None)\<rparr>
          else vm\<lparr>vm_claims := (vm_claims vm)(name \<mapsto> n - 1)\<rparr>)"

definition is_claimed :: "string \<Rightarrow> volume_manager \<Rightarrow> bool" where
  "is_claimed name vm \<longleftrightarrow> vm_claims vm name \<noteq> None"

section \<open>Creating\<close>

datatype write_outcome = WriteOk | CreateDirFailed io_kind | WriteFailed io_kind

definition meta_of :: "volume_entry \<Rightarrow> volume_meta" where
  "meta_of e = \<lparr>vmeta_id = ve_id e, vmeta_name = ve_name e, vmeta_size_mb = ve_size_mb e,
     vmeta_created_at_secs = ve_created_at e div 1000000000, vmeta_labels = ve_labels e\<rparr>"

text \<open>The disk after \<open>write_volume\<close>: on a failure at most a directory without a record is left.\<close>

definition write_volume :: "(volume_meta \<Rightarrow> bytes option) \<Rightarrow> write_outcome \<Rightarrow> volume_entry \<Rightarrow>
    (string \<times> bytes option) list \<Rightarrow> (string \<times> bytes option) list \<times> unit result" where
  "write_volume to_json out e disk =
     (case out of
        CreateDirFailed k \<Rightarrow> (disk, Inl (from_io ''create volume directory'' k))
      | _ \<Rightarrow>
          (case to_json (meta_of e) of
             None \<Rightarrow> (AList.update (ve_id e) None disk, Inl (Internal (Msg ''encode volume metadata: {e}'' [])))
           | Some json \<Rightarrow>
               (case out of
                  WriteFailed k \<Rightarrow>
                    (AList.update (ve_id e) None disk, Inl (from_io ''write volume metadata'' k))
                | _ \<Rightarrow> (AList.update (ve_id e) (Some json) disk, Inr ()))))"

definition insert_volume :: "(volume_meta \<Rightarrow> bytes option) \<Rightarrow> write_outcome \<Rightarrow> string \<Rightarrow> nat \<Rightarrow>
    string \<Rightarrow> u32 \<Rightarrow> (string \<times> string) list \<Rightarrow> bool \<Rightarrow> volume_manager \<Rightarrow> volume_manager \<times> pb_volume_info result" where
  "insert_volume to_json out new_id now name size_mb ls must_be_new vm =
     (case find (\<lambda>e. ve_name e = name) (map snd (vm_volumes vm)) of
        Some existing \<Rightarrow>
          if must_be_new
          then (vm, Inl (InvalidRequest (Msg ''volume {name} already exists'' [S name])))
          else (vm, Inr (entry_to_pb existing))
      | None \<Rightarrow>
          if length (vm_volumes vm) \<ge> vm_max_volumes vm
          then (vm, Inl (InvalidRequest (Msg ''volume limit reached ({}/{})''
                  [N (length (vm_volumes vm)), N (vm_max_volumes vm)])))
          else
            (let e = \<lparr>ve_id = new_id, ve_name = name, ve_size_mb = size_mb, ve_created_at = now,
                      ve_dir = path_join (path_join (vm_data_dir vm) VOLUMES_DIR) new_id, ve_labels = ls\<rparr>
             in case write_volume to_json out e (vm_disk vm) of
                  (disk, Inl err) \<Rightarrow> (vm\<lparr>vm_disk := disk\<rparr>, Inl err)
                | (disk, Inr _) \<Rightarrow>
                    (vm\<lparr>vm_disk := disk, vm_volumes := AList.update new_id e (vm_volumes vm)\<rparr>,
                     Inr (entry_to_pb e))))"

definition volume_create :: "(volume_meta \<Rightarrow> bytes option) \<Rightarrow> write_outcome \<Rightarrow> string \<Rightarrow> nat \<Rightarrow>
    string \<Rightarrow> u32 \<Rightarrow> (string \<times> string) list \<Rightarrow> volume_manager \<Rightarrow> volume_manager \<times> pb_volume_info result" where
  "volume_create to_json out new_id now name size_mb ls vm =
     (case and_then (volume_name name) (\<lambda>_. and_then (volume_size size_mb) (\<lambda>_. labels ls)) of
        Inl e \<Rightarrow> (vm, Inl e)
      | Inr _ \<Rightarrow> insert_volume to_json out new_id now name size_mb ls False vm)"

definition volume_ensure :: "(volume_meta \<Rightarrow> bytes option) \<Rightarrow> write_outcome \<Rightarrow> string \<Rightarrow> nat \<Rightarrow>
    string \<Rightarrow> volume_manager \<Rightarrow> volume_manager \<times> pb_volume_info result" where
  "volume_ensure to_json out new_id now name vm =
     (case volume_name name of
        Inl e \<Rightarrow> (vm, Inl e)
      | Inr _ \<Rightarrow> insert_volume to_json out new_id now name IMPLICIT_VOLUME_SIZE_MB [] False vm)"

definition volume_create_new :: "(volume_meta \<Rightarrow> bytes option) \<Rightarrow> write_outcome \<Rightarrow> string \<Rightarrow> nat \<Rightarrow>
    string \<Rightarrow> volume_manager \<Rightarrow> volume_manager \<times> pb_volume_info result" where
  "volume_create_new to_json out new_id now name vm =
     (case volume_name name of
        Inl e \<Rightarrow> (vm, Inl e)
      | Inr _ \<Rightarrow> insert_volume to_json out new_id now name IMPLICIT_VOLUME_SIZE_MB [] True vm)"

section \<open>Reading\<close>

definition volume_get :: "string \<Rightarrow> volume_manager \<Rightarrow> pb_volume_info result" where
  "volume_get i vm =
     and_then (entity_id i ''volume'') (\<lambda>_.
       case map_of (vm_volumes vm) i of
         Some e \<Rightarrow> Inr (entry_to_pb e)
       | None \<Rightarrow> Inl (VolumeNotFound i))"

definition volume_list :: "volume_manager \<Rightarrow> pb_volume_info list" where
  "volume_list vm = map (\<lambda>(_, e). entry_to_pb e) (vm_volumes vm)"

section \<open>Removing\<close>

text \<open>
  \<open>remove_if_unused\<close> holds the lock on the table from its start to the removal of the entry, but waits in
  between, and a claim needs only the lock of the claims: it may be taken or dropped at each of these points.
  So the removal is four parts: find the entry, look at the users and the claims, remove the record and the
  entry, and, without the lock, remove the directory. \<open>users\<close> are the sandboxes that mount the volume, the
  outcomes are those of \<open>remove_file\<close> on the record and of \<open>remove_dir_all\<close>.
\<close>

definition remove_begin :: "string \<Rightarrow> volume_manager \<Rightarrow> volume_entry result" where
  "remove_begin i vm =
     and_then (entity_id i ''volume'') (\<lambda>_.
       case map_of (vm_volumes vm) i of
         Some e \<Rightarrow> Inr e
       | None \<Rightarrow> Inl (VolumeNotFound i))"

definition remove_check :: "string list \<Rightarrow> volume_entry \<Rightarrow> volume_manager \<Rightarrow> unit result" where
  "remove_check users e vm =
     (let holders = users @ (if is_claimed (ve_name e) vm then [CREATING_HOLDER] else [])
      in if holders \<noteq> []
         then Inl (VolumeInUse (Msg ''remove {}: volume is in use - [{}]'' (S (ve_name e) # map S holders)))
         else Inr ())"

definition remove_commit :: "io_kind option \<Rightarrow> string \<Rightarrow> volume_manager \<Rightarrow> volume_manager \<times> unit result" where
  "remove_commit meta_out i vm =
     (case (if meta_out = Some NoEntry then None else meta_out) of
        Some k \<Rightarrow> (vm, Inl (from_io ''remove volume metadata'' k))
      | None \<Rightarrow> (vm\<lparr>vm_disk := AList.update i None (vm_disk vm), vm_volumes := AList.delete i (vm_volumes vm)\<rparr>, Inr ()))"

definition remove_dir :: "io_kind option \<Rightarrow> string \<Rightarrow> volume_manager \<Rightarrow> volume_manager \<times> unit result" where
  "remove_dir dir_out i vm =
     (case dir_out of
        Some k \<Rightarrow> (vm, Inl (from_io ''remove volume directory'' k))
      | None \<Rightarrow> (vm\<lparr>vm_disk := AList.delete i (vm_disk vm)\<rparr>, Inr ()))"

text \<open>The four in a row, when nothing comes in between.\<close>

definition remove_if_unused :: "(string \<Rightarrow> string list) \<Rightarrow> io_kind option \<Rightarrow> io_kind option \<Rightarrow> string \<Rightarrow>
    volume_manager \<Rightarrow> volume_manager \<times> unit result" where
  "remove_if_unused users meta_out dir_out i vm =
     (case and_then (remove_begin i vm) (\<lambda>e. remove_check (users (ve_name e)) e vm) of
        Inl err \<Rightarrow> (vm, Inl err)
      | Inr _ \<Rightarrow>
          (case remove_commit meta_out i vm of
             (vm1, Inl err) \<Rightarrow> (vm1, Inl err)
           | (vm1, Inr _) \<Rightarrow> remove_dir dir_out i vm1))"

definition volume_remove :: "io_kind option \<Rightarrow> io_kind option \<Rightarrow> string \<Rightarrow> volume_manager \<Rightarrow>
    volume_manager \<times> unit result" where
  "volume_remove meta_out dir_out i vm = remove_if_unused (\<lambda>_. []) meta_out dir_out i vm"

text \<open>The lookup by name is over before the removal takes the lock: \<open>vm0\<close> is the state then.\<close>

definition remove_unused_by_name :: "(string \<Rightarrow> string list) \<Rightarrow> io_kind option \<Rightarrow> io_kind option \<Rightarrow> string \<Rightarrow>
    volume_manager \<Rightarrow> volume_manager \<Rightarrow> volume_manager \<times> bool result" where
  "remove_unused_by_name users meta_out dir_out name vm0 vm =
     (case find (\<lambda>e. ve_name e = name) (map snd (vm_volumes vm0)) of
        None \<Rightarrow> (vm, Inr False)
      | Some e \<Rightarrow>
          (case remove_if_unused users meta_out dir_out (ve_id e) vm of
             (vm', Inr _) \<Rightarrow> (vm', Inr True)
           | (vm', Inl (VolumeInUse _)) \<Rightarrow> (vm', Inr False)
           | (vm', Inl (VolumeNotFound _)) \<Rightarrow> (vm', Inr False)
           | (vm', Inl err) \<Rightarrow> (vm', Inl err)))"

section \<open>Loading\<close>

definition read_entry :: "(bytes \<Rightarrow> volume_meta option) \<Rightarrow> string \<Rightarrow> string \<times> bytes option \<Rightarrow> volume_entry option" where
  "read_entry from_json root d =
     (case snd d of
        None \<Rightarrow> None
      | Some json \<Rightarrow>
          (case from_json json of
             None \<Rightarrow> None
           | Some meta \<Rightarrow>
               if fst d \<noteq> vmeta_id meta then None
               else (case volume_name (vmeta_name meta) of
                       Inl _ \<Rightarrow> None
                     | Inr _ \<Rightarrow> Some \<lparr>ve_id = vmeta_id meta, ve_name = vmeta_name meta,
                         ve_size_mb = vmeta_size_mb meta,
                         ve_created_at = vmeta_created_at_secs meta * 1000000000,
                         ve_dir = path_join root (fst d), ve_labels = vmeta_labels meta\<rparr>)))"

definition load_step :: "(bytes \<Rightarrow> volume_meta option) \<Rightarrow> string \<Rightarrow> (string \<times> volume_entry) list \<Rightarrow>
    string \<times> bytes option \<Rightarrow> (string \<times> volume_entry) list" where
  "load_step from_json root loaded d =
     (case read_entry from_json root d of
        None \<Rightarrow> loaded
      | Some e \<Rightarrow>
          if list_ex (\<lambda>v. ve_name v = ve_name e) (map snd loaded) then loaded
          else AList.update (ve_id e) e loaded)"

definition load_volumes :: "(bytes \<Rightarrow> volume_meta option) \<Rightarrow> string \<Rightarrow> (string \<times> bytes option) list \<Rightarrow>
    (string \<times> volume_entry) list" where
  "load_volumes from_json root dirs = foldl (load_step from_json root) [] (sort_key fst dirs)"

definition volumes_new :: "(bytes \<Rightarrow> volume_meta option) \<Rightarrow> string \<Rightarrow> nat \<Rightarrow> (string \<times> bytes option) list \<Rightarrow> volume_manager" where
  "volumes_new from_json data_dir max_volumes disk =
     \<lparr>vm_data_dir = data_dir,
      vm_volumes = load_volumes from_json (path_join data_dir VOLUMES_DIR) disk,
      vm_max_volumes = max_volumes, vm_claims = Map.empty, vm_disk = disk\<rparr>"

section \<open>Invariant\<close>

text \<open>
  Ids are keys, names are unique and valid, and the disk has a record for exactly the volumes in
  the table, which decodes to the entry's metadata.
\<close>

definition volumes_inv :: "(bytes \<Rightarrow> volume_meta option) \<Rightarrow> volume_manager \<Rightarrow> bool" where
  "volumes_inv from_json vm \<longleftrightarrow>
     keys_ok (vm_volumes vm) \<and> keys_ok (vm_disk vm) \<and>
     (\<forall>k e. map_of (vm_volumes vm) k = Some e \<longrightarrow> ve_id e = k \<and> volume_name (ve_name e) = Inr () \<and>
        ve_dir e = path_join (path_join (vm_data_dir vm) VOLUMES_DIR) k) \<and>
     (\<forall>k l e f. map_of (vm_volumes vm) k = Some e \<longrightarrow> map_of (vm_volumes vm) l = Some f \<longrightarrow>
        ve_name e = ve_name f \<longrightarrow> k = l) \<and>
     (\<forall>k e. map_of (vm_volumes vm) k = Some e \<longrightarrow>
        (\<exists>json. map_of (vm_disk vm) k = Some (Some json) \<and> from_json json = Some (meta_of e))) \<and>
     (\<forall>k json. map_of (vm_disk vm) k = Some (Some json) \<longrightarrow> (\<exists>e. map_of (vm_volumes vm) k = Some e))"

lemma find_name:
  assumes "keys_ok m"
  shows "find (\<lambda>e. ve_name e = name) (map snd m) = None \<longleftrightarrow> (\<forall>k e. map_of m k = Some e \<longrightarrow> ve_name e \<noteq> name)"
    and "find (\<lambda>e. ve_name e = name) (map snd m) = Some e \<Longrightarrow> (\<exists>k. map_of m k = Some e) \<and> ve_name e = name"
proof -
  have "e \<in> set (map snd m) \<longleftrightarrow> (\<exists>k. map_of m k = Some e)" for e
    using keys_ok_map_of [OF assms, of _ e] by force
  then show "find (\<lambda>e. ve_name e = name) (map snd m) = None \<longleftrightarrow> (\<forall>k e. map_of m k = Some e \<longrightarrow> ve_name e \<noteq> name)"
    "find (\<lambda>e. ve_name e = name) (map snd m) = Some e \<Longrightarrow> (\<exists>k. map_of m k = Some e) \<and> ve_name e = name"
    unfolding find_None_iff find_Some_iff by (blast, metis nth_mem)
qed

lemma volumes_inv_claims [simp]:
  "volumes_inv from_json (vm\<lparr>vm_claims := c\<rparr>) = volumes_inv from_json vm"
  by (simp add: volumes_inv_def)

lemma claims_keep [simp]:
  "vm_volumes (volume_claim name vm) = vm_volumes vm" "vm_max_volumes (volume_claim name vm) = vm_max_volumes vm"
  "vm_volumes (claim_drop name vm) = vm_volumes vm" "vm_max_volumes (claim_drop name vm) = vm_max_volumes vm"
  "vm_disk (volume_claim name vm) = vm_disk vm" "vm_disk (claim_drop name vm) = vm_disk vm"
  by (simp_all add: volume_claim_def claim_drop_def split: option.split)

lemma claim_inv [preserve]: "volumes_inv from_json vm \<Longrightarrow> volumes_inv from_json (volume_claim name vm)"
  by (simp add: volume_claim_def)

lemma claim_drop_inv [preserve]: "volumes_inv from_json vm \<Longrightarrow> volumes_inv from_json (claim_drop name vm)"
  by (simp add: claim_drop_def split: option.split)

lemma disk_none_inv:
  assumes "volumes_inv from_json vm" "map_of (vm_volumes vm) i = None"
  shows "volumes_inv from_json (vm\<lparr>vm_disk := AList.update i None (vm_disk vm)\<rparr>)"
    and "volumes_inv from_json (vm\<lparr>vm_disk := AList.delete i (vm_disk vm)\<rparr>)"
  using assms unfolding volumes_inv_def
  by (auto simp: update_conv' delete_conv')

lemma insert_inv:
  assumes "volumes_inv from_json vm" "map_of (vm_volumes vm) i = None" "ve_id e = i" "volume_name (ve_name e) = Inr ()"
    and "\<forall>k f. map_of (vm_volumes vm) k = Some f \<longrightarrow> ve_name f \<noteq> ve_name e"
    and "from_json json = Some (meta_of e)" "ve_dir e = path_join (path_join (vm_data_dir vm) VOLUMES_DIR) i"
  shows "volumes_inv from_json (vm\<lparr>vm_disk := AList.update i (Some json) (vm_disk vm),
    vm_volumes := AList.update i e (vm_volumes vm)\<rparr>)"
  using assms unfolding volumes_inv_def by (auto simp: update_conv') metis+

lemma delete_inv:
  assumes "volumes_inv from_json vm"
  shows "volumes_inv from_json (vm\<lparr>vm_disk := AList.update i None (vm_disk vm), vm_volumes := AList.delete i (vm_volumes vm)\<rparr>)"
  using assms unfolding volumes_inv_def by (auto simp: update_conv' delete_conv')

text \<open>A decoder inverts the encoder wherever the encoder succeeds, as serde promises.\<close>

definition json_inverts :: "('m \<Rightarrow> bytes option) \<Rightarrow> (bytes \<Rightarrow> 'm option) \<Rightarrow> bool" where
  "json_inverts to_json from_json \<longleftrightarrow> (\<forall>m b. to_json m = Some b \<longrightarrow> from_json b = Some m)"

lemma insert_volume_inv [preserve]:
  assumes "volumes_inv from_json vm" "json_inverts to_json from_json" "map_of (vm_volumes vm) new_id = None"
    and "volume_name name = Inr ()"
    and "insert_volume to_json out new_id now name sz ls must vm = (vm', r)"
  shows "volumes_inv from_json vm'"
proof (cases "find (\<lambda>e. ve_name e = name) (map snd (vm_volumes vm)) = None \<and> length (vm_volumes vm) < vm_max_volumes vm")
  case False
  then have "vm' = vm"
    using assms(5) by (auto simp: insert_volume_def split: option.splits if_splits)
  with assms(1) show ?thesis by simp
next
  case True
  have k: "keys_ok (vm_volumes vm)"
    using assms(1) by (simp add: volumes_inv_def)
  define e where "e = \<lparr>ve_id = new_id, ve_name = name, ve_size_mb = sz, ve_created_at = now,
      ve_dir = path_join (path_join (vm_data_dir vm) VOLUMES_DIR) new_id, ve_labels = ls\<rparr>"
  have "vm' = vm \<or> vm' = vm\<lparr>vm_disk := vm_disk vm\<rparr> \<or> vm' = vm\<lparr>vm_disk := AList.update new_id None (vm_disk vm)\<rparr> \<or>
      (\<exists>json. to_json (meta_of e) = Some json \<and> vm' = vm\<lparr>vm_disk := AList.update new_id (Some json) (vm_disk vm),
         vm_volumes := AList.update new_id e (vm_volumes vm)\<rparr>)"
    using assms(5) True
    by (auto simp: insert_volume_def write_volume_def Let_def e_def split: write_outcome.splits option.splits)
  moreover have "volumes_inv from_json (vm\<lparr>vm_disk := AList.update new_id (Some json) (vm_disk vm),
         vm_volumes := AList.update new_id e (vm_volumes vm)\<rparr>)" if "to_json (meta_of e) = Some json" for json
    using assms(2,4) that find_name(1) [OF k, of name] True
    by (intro insert_inv [OF assms(1,3)]) (auto simp: e_def json_inverts_def)
  ultimately show ?thesis
    using assms(1) disk_none_inv(1) [OF assms(1,3)] by auto
qed

lemma insert_volume_length:
  assumes "insert_volume to_json out new_id now name sz ls must vm = (vm', r)" "map_of (vm_volumes vm) new_id = None"
  shows "length (vm_volumes vm') \<le> max (length (vm_volumes vm)) (vm_max_volumes vm)" "vm_claims vm' = vm_claims vm"
    "vm_max_volumes vm' = vm_max_volumes vm"
  using assms
  by (auto simp: insert_volume_def write_volume_def Let_def length_update map_of_eq_None_iff
      split: write_outcome.splits option.splits if_splits)

lemma remove_commit_cases:
  assumes "remove_commit mo i vm = (vm', r)"
  shows "(\<exists>err. r = Inl err) \<and> vm' = vm \<or>
    r = Inr () \<and> vm' = vm\<lparr>vm_disk := AList.update i None (vm_disk vm), vm_volumes := AList.delete i (vm_volumes vm)\<rparr>"
  using assms by (auto simp: remove_commit_def split: option.splits if_splits)

lemma remove_commit_inv [preserve]: "volumes_inv from_json vm \<Longrightarrow> remove_commit mo i vm = (vm', r) \<Longrightarrow> volumes_inv from_json vm'"
  using delete_inv by (auto dest!: remove_commit_cases)

lemma remove_dir_inv [preserve]:
  "volumes_inv from_json vm \<Longrightarrow> map_of (vm_volumes vm) i = None \<Longrightarrow> remove_dir out i vm = (vm', r) \<Longrightarrow> volumes_inv from_json vm'"
  using disk_none_inv(2) by (auto simp: remove_dir_def split: option.splits)

lemma remove_keeps:
  "remove_commit mo i vm = (vm', r) \<Longrightarrow> vm_claims vm' = vm_claims vm \<and> vm_max_volumes vm' = vm_max_volumes vm \<and>
     vm_data_dir vm' = vm_data_dir vm \<and> length (vm_volumes vm') \<le> length (vm_volumes vm)"
  "remove_dir out i vm = (vm', r) \<Longrightarrow> vm_claims vm' = vm_claims vm \<and> vm_max_volumes vm' = vm_max_volumes vm \<and>
     vm_data_dir vm' = vm_data_dir vm \<and> vm_volumes vm' = vm_volumes vm"
  by (auto simp: remove_dir_def length_delete_le split: option.splits dest!: remove_commit_cases)

section \<open>Runs\<close>

text \<open>
  The steps of a volume manager, with the claims that are held at the moment, the removal that holds the lock
  on the table and the directories of removed volumes that are being deleted. Sandboxes being created take
  and drop claims at any time; creations and removals need the lock. New ids are fresh.
\<close>

datatype removal = VrUsers string volume_entry | VrClear string volume_entry

record volume_system =
  vs_volumes :: volume_manager
  vs_held :: "string multiset"
  vs_lock :: "removal option"
  vs_dirs :: "string set"

definition fresh_volume :: "string \<Rightarrow> volume_system \<Rightarrow> bool" where
  "fresh_volume i s \<longleftrightarrow> map_of (vm_volumes (vs_volumes s)) i = None \<and> i \<notin> vs_dirs s"

inductive volume_step :: "(volume_meta \<Rightarrow> bytes option) \<Rightarrow> volume_system \<Rightarrow> volume_system \<Rightarrow> bool" for to_json where
  claim: "volume_step to_json s (s\<lparr>vs_volumes := volume_claim name (vs_volumes s), vs_held := add_mset name (vs_held s)\<rparr>)"
| drop: "name \<in># vs_held s \<Longrightarrow>
    volume_step to_json s (s\<lparr>vs_volumes := claim_drop name (vs_volumes s), vs_held := vs_held s - {#name#}\<rparr>)"
| create: "vs_lock s = None \<Longrightarrow> fresh_volume new_id s \<Longrightarrow>
    volume_create to_json out new_id now name sz ls (vs_volumes s) = (vm', r) \<Longrightarrow> volume_step to_json s (s\<lparr>vs_volumes := vm'\<rparr>)"
| ensure: "vs_lock s = None \<Longrightarrow> fresh_volume new_id s \<Longrightarrow>
    volume_ensure to_json out new_id now name (vs_volumes s) = (vm', r) \<Longrightarrow> volume_step to_json s (s\<lparr>vs_volumes := vm'\<rparr>)"
| create_new: "vs_lock s = None \<Longrightarrow> fresh_volume new_id s \<Longrightarrow>
    volume_create_new to_json out new_id now name (vs_volumes s) = (vm', r) \<Longrightarrow> volume_step to_json s (s\<lparr>vs_volumes := vm'\<rparr>)"
| begin_remove: "vs_lock s = None \<Longrightarrow> remove_begin i (vs_volumes s) = Inr e \<Longrightarrow>
    volume_step to_json s (s\<lparr>vs_lock := Some (VrUsers i e)\<rparr>)"
| check: "vs_lock s = Some (VrUsers i e) \<Longrightarrow>
    volume_step to_json s (s\<lparr>vs_lock :=
      (case remove_check users e (vs_volumes s) of Inr _ \<Rightarrow> Some (VrClear i e) | Inl _ \<Rightarrow> None)\<rparr>)"
| commit: "vs_lock s = Some (VrClear i e) \<Longrightarrow> remove_commit mo i (vs_volumes s) = (vm', r) \<Longrightarrow>
    volume_step to_json s (s\<lparr>vs_volumes := vm', vs_lock := None,
      vs_dirs := (case r of Inr _ \<Rightarrow> insert i (vs_dirs s) | Inl _ \<Rightarrow> vs_dirs s)\<rparr>)"
| delete_dir: "i \<in> vs_dirs s \<Longrightarrow> remove_dir do i (vs_volumes s) = (vm', r) \<Longrightarrow>
    volume_step to_json s (s\<lparr>vs_volumes := vm', vs_dirs := vs_dirs s - {i}\<rparr>)"

text \<open>Every creation is one insertion of a valid name, or nothing.\<close>

lemma creations_insert:
  "volume_create to_json out new_id now name sz ls vm = (vm', r) \<Longrightarrow> vm' \<noteq> vm \<Longrightarrow>
     volume_name name = Inr () \<and> insert_volume to_json out new_id now name sz ls False vm = (vm', r)"
  "volume_ensure to_json out new_id now name vm = (vm', r) \<Longrightarrow> vm' \<noteq> vm \<Longrightarrow>
     volume_name name = Inr () \<and> insert_volume to_json out new_id now name IMPLICIT_VOLUME_SIZE_MB [] False vm = (vm', r)"
  "volume_create_new to_json out new_id now name vm = (vm', r) \<Longrightarrow> vm' \<noteq> vm \<Longrightarrow>
     volume_name name = Inr () \<and> insert_volume to_json out new_id now name IMPLICIT_VOLUME_SIZE_MB [] True vm = (vm', r)"
  by (auto simp: volume_create_def volume_ensure_def volume_create_new_def and_then_def split: sum.splits)

lemma volume_step_kinds:
  assumes "volume_step to_json s t"
  obtains (same) "t = s"
  | (claim) name where "t = s\<lparr>vs_volumes := volume_claim name (vs_volumes s), vs_held := add_mset name (vs_held s)\<rparr>"
  | (drop) name where "name \<in># vs_held s" "t = s\<lparr>vs_volumes := claim_drop name (vs_volumes s), vs_held := vs_held s - {#name#}\<rparr>"
  | (insert) out new_id now name sz ls must vm' r where "vs_lock s = None" "fresh_volume new_id s" "volume_name name = Inr ()"
      "insert_volume to_json out new_id now name sz ls must (vs_volumes s) = (vm', r)" "t = s\<lparr>vs_volumes := vm'\<rparr>"
  | (begin_remove) i e where "vs_lock s = None" "remove_begin i (vs_volumes s) = Inr e" "t = s\<lparr>vs_lock := Some (VrUsers i e)\<rparr>"
  | (check) i e users where "vs_lock s = Some (VrUsers i e)"
      "t = s\<lparr>vs_lock := (case remove_check users e (vs_volumes s) of Inr _ \<Rightarrow> Some (VrClear i e) | Inl _ \<Rightarrow> None)\<rparr>"
  | (commit) i e mo vm' r where "vs_lock s = Some (VrClear i e)" "remove_commit mo i (vs_volumes s) = (vm', r)"
      "t = s\<lparr>vs_volumes := vm', vs_lock := None, vs_dirs := (case r of Inr _ \<Rightarrow> Set.insert i (vs_dirs s) | Inl _ \<Rightarrow> vs_dirs s)\<rparr>"
  | (delete_dir) i do vm' r where "i \<in> vs_dirs s" "remove_dir do i (vs_volumes s) = (vm', r)"
      "t = s\<lparr>vs_volumes := vm', vs_dirs := vs_dirs s - {i}\<rparr>"
  using assms
proof (cases rule: volume_step.cases)
  case (create new_id out now name sz ls vm' r)
  then show ?thesis using creations_insert(1) [OF create(4)] insert [OF create(2,3)] same by (cases "vm' = vs_volumes s") auto
next
  case (ensure new_id out now name vm' r)
  then show ?thesis using creations_insert(2) [OF ensure(4)] insert [OF ensure(2,3)] same by (cases "vm' = vs_volumes s") auto
next
  case (create_new new_id out now name vm' r)
  then show ?thesis using creations_insert(3) [OF create_new(4)] insert [OF create_new(2,3)] same by (cases "vm' = vs_volumes s") auto
qed (use claim drop begin_remove check commit delete_dir in blast)+

definition claims_match :: "(string \<rightharpoonup> nat) \<Rightarrow> string multiset \<Rightarrow> bool" where
  "claims_match claims held \<longleftrightarrow> (\<forall>x. claims x = (if count held x = 0 then None else Some (count held x)))"

lemma claim_match: "claims_match (vm_claims vm) held \<Longrightarrow> claims_match (vm_claims (volume_claim name vm)) (add_mset name held)"
  by (auto simp: claims_match_def volume_claim_def count_eq_zero_iff)

lemma drop_match:
  assumes "claims_match (vm_claims vm) held" "0 < count held name"
  shows "claims_match (vm_claims (claim_drop name vm)) (held - {#name#})"
proof -
  have "vm_claims vm name = Some (count held name)"
    using assms by (simp add: claims_match_def)
  then have "vm_claims (claim_drop name vm) =
      (if count held name - 1 = 0 then (vm_claims vm)(name := None) else (vm_claims vm)(name \<mapsto> count held name - 1))"
    by (simp add: claim_drop_def)
  with assms show ?thesis by (auto simp: claims_match_def count_eq_zero_iff)
qed

fun lock_matches :: "removal option \<Rightarrow> (string \<times> volume_entry) list \<Rightarrow> bool" where
  "lock_matches None vols \<longleftrightarrow> True"
| "lock_matches (Some (VrUsers i e)) vols \<longleftrightarrow> map_of vols i = Some e"
| "lock_matches (Some (VrClear i e)) vols \<longleftrightarrow> map_of vols i = Some e"

definition volumes_good :: "(volume_meta \<Rightarrow> bytes option) \<Rightarrow> (bytes \<Rightarrow> volume_meta option) \<Rightarrow> nat \<Rightarrow> volume_system \<Rightarrow> bool" where
  "volumes_good to_json from_json n s \<longleftrightarrow>
     (json_inverts to_json from_json \<longrightarrow> volumes_inv from_json (vs_volumes s)) \<and>
     claims_match (vm_claims (vs_volumes s)) (vs_held s) \<and>
     length (vm_volumes (vs_volumes s)) \<le> max n (vm_max_volumes (vs_volumes s)) \<and>
     (\<forall>i \<in> vs_dirs s. map_of (vm_volumes (vs_volumes s)) i = None) \<and>
     lock_matches (vs_lock s) (vm_volumes (vs_volumes s))"

lemma insert_volume_table:
  assumes "insert_volume to_json out new_id now name sz ls must vm = (vm', r)" "j \<noteq> new_id"
  shows "map_of (vm_volumes vm') j = map_of (vm_volumes vm) j"
  using assms by (auto simp: insert_volume_def Let_def update_conv' split: option.splits if_splits prod.splits sum.splits)

lemma remove_begin_found: "remove_begin i vm = Inr e \<Longrightarrow> map_of (vm_volumes vm) i = Some e"
  by (auto simp: remove_begin_def and_then_def split: sum.splits option.splits)

interpretation volumes: invariant_system "volume_step to_json" "volumes_good to_json from_json n" for to_json from_json n
proof
  fix s t
  assume step: "volume_step to_json s t" and good: "volumes_good to_json from_json n s"
  from step show "volumes_good to_json from_json n t"
  proof (cases rule: volume_step_kinds)
    case same
    with good show ?thesis by simp
  next
    case (claim name)
    with good claim_match show ?thesis by (simp add: volumes_good_def claim_inv)
  next
    case (drop name)
    with good drop_match [of "vs_volumes s" "vs_held s" name] show ?thesis by (simp add: volumes_good_def claim_drop_inv)
  next
    case (insert out new_id now name sz ls must vm' r)
    have new: "map_of (vm_volumes (vs_volumes s)) new_id = None" "new_id \<notin> vs_dirs s"
      using insert(2) by (simp_all add: fresh_volume_def)
    have dirs: "map_of (vm_volumes vm') j = None" if "j \<in> vs_dirs s" for j
    proof -
      have "j \<noteq> new_id" using that new(2) by blast
      with that good show ?thesis by (simp add: insert_volume_table [OF insert(4)] volumes_good_def)
    qed
    show ?thesis
      using good insert(1,5) dirs insert_volume_inv [OF _ _ new(1) insert(3,4)] insert_volume_length [OF insert(4) new(1)]
      by (auto simp: volumes_good_def)
  next
    case (begin_remove i e)
    with good remove_begin_found show ?thesis by (simp add: volumes_good_def)
  next
    case (check i e users)
    with good show ?thesis by (simp add: volumes_good_def split: sum.splits)
  next
    case (commit i e mo vm' r)
    with good remove_commit_inv [OF _ commit(2)] remove_keeps(1) [OF commit(2)] remove_commit_cases [OF commit(2)] show ?thesis
      by (auto simp: volumes_good_def delete_conv')
  next
    case (delete_dir i do vm' r)
    with good remove_dir_inv [OF _ _ delete_dir(2)] remove_keeps(2) [OF delete_dir(2)] show ?thesis
      by (auto simp: volumes_good_def)
  qed
qed

section \<open>Reloading\<close>

text \<open>The entry a restarted daemon reads back: the record keeps whole seconds.\<close>

definition reloaded :: "volume_entry \<Rightarrow> volume_entry" where
  "reloaded e = e\<lparr>ve_created_at := ve_created_at e div 1000000000 * 1000000000\<rparr>"

definition read_all :: "(bytes \<Rightarrow> volume_meta option) \<Rightarrow> string \<Rightarrow> (string \<times> bytes option) list \<Rightarrow> (string \<times> volume_entry) list" where
  "read_all from_json root ds =
     List.map_filter (\<lambda>d. map_option (Pair (fst d)) (read_entry from_json root d)) ds"

lemma read_entry_id: "read_entry from_json root d = Some e \<Longrightarrow> ve_id e = fst d"
  by (auto simp: read_entry_def split: option.splits if_splits sum.splits)

lemma update_fresh: "k \<notin> fst ` set m \<Longrightarrow> AList.update k v m = m @ [(k, v)]"
  by (induction m) auto

lemma load_foldl:
  assumes "distinct (map fst (m @ read_all from_json root ds))"
    "distinct (map (ve_name \<circ> snd) (m @ read_all from_json root ds))"
  shows "foldl (load_step from_json root) m ds = m @ read_all from_json root ds"
  using assms
proof (induction ds arbitrary: m)
  case Nil
  then show ?case by (simp add: read_all_def map_filter_simps)
next
  case (Cons d ds)
  show ?case
  proof (cases "read_entry from_json root d")
    case None
    with Cons show ?thesis by (simp add: read_all_def load_step_def map_filter_simps)
  next
    case (Some e)
    then have r: "read_all from_json root (d # ds) = (fst d, e) # read_all from_json root ds"
      by (simp add: read_all_def map_filter_simps)
    have "fst d \<notin> fst ` set m" "ve_name e \<notin> (ve_name \<circ> snd) ` set m"
      using Cons.prems by (simp_all add: r)
    then have "load_step from_json root m d = m @ [(fst d, e)]"
      using Some read_entry_id [OF Some] by (simp add: load_step_def list_ex_iff update_fresh image_iff) (metis comp_apply)
    moreover have "foldl (load_step from_json root) (m @ [(fst d, e)]) ds = (m @ [(fst d, e)]) @ read_all from_json root ds"
      using Cons.prems by (intro Cons.IH) (simp_all add: r)
    ultimately show ?thesis by (simp add: r)
  qed
qed

lemma read_all_set: "(k, e) \<in> set (read_all from_json root ds) \<longleftrightarrow>
    (\<exists>v. (k, v) \<in> set ds \<and> read_entry from_json root (k, v) = Some e)"
  by (force simp: read_all_def List.map_filter_def)

lemma read_all_fst: "distinct (map fst ds) \<Longrightarrow> distinct (map fst (read_all from_json root ds))"
proof (induction ds)
  case (Cons d ds)
  have "fst ` set (read_all from_json root ds) \<subseteq> fst ` set ds"
    using read_all_set [of _ _ from_json root ds] by force
  with Cons show ?case by (auto simp: read_all_def map_filter_simps split: option.split)
qed (simp add: read_all_def map_filter_simps)

lemma load_volumes_map:
  assumes "keys_ok ds"
    and "\<And>k l v w e f. map_of ds k = Some v \<Longrightarrow> map_of ds l = Some w \<Longrightarrow> read_entry from_json root (k, v) = Some e \<Longrightarrow>
      read_entry from_json root (l, w) = Some f \<Longrightarrow> ve_name e = ve_name f \<Longrightarrow> k = l"
  shows "map_of (load_volumes from_json root ds) k =
     (case map_of ds k of None \<Rightarrow> None | Some v \<Rightarrow> read_entry from_json root (k, v))"
proof -
  let ?s = "sort_key fst ds" and ?r = "read_all from_json root (sort_key fst ds)"
  have s: "keys_ok ?s"
    using assms(1) by (simp add: keys_ok_def distinct_map)
  have mem: "(k, e) \<in> set ?r \<longleftrightarrow> (\<exists>v. map_of ds k = Some v \<and> read_entry from_json root (k, v) = Some e)" for k e
    by (simp add: read_all_set keys_ok_map_of [OF assms(1)])
  have f: "distinct (map fst ?r)"
    using s by (simp add: keys_ok_def read_all_fst)
  moreover have "inj_on (ve_name \<circ> snd) (set ?r)"
  proof (rule inj_onI)
    fix x y
    assume "x \<in> set ?r" "y \<in> set ?r" and n: "(ve_name \<circ> snd) x = (ve_name \<circ> snd) y"
    then obtain v w where v: "map_of ds (fst x) = Some v" "read_entry from_json root (fst x, v) = Some (snd x)"
      and w: "map_of ds (fst y) = Some w" "read_entry from_json root (fst y, w) = Some (snd y)"
      using mem [of "fst x" "snd x"] mem [of "fst y" "snd y"] by auto
    have "fst x = fst y"
      using assms(2) [OF v(1) w(1) v(2) w(2)] n by simp
    with v w show "x = y" by (simp add: prod_eq_iff)
  qed
  ultimately have "load_volumes from_json root ds = ?r"
    using load_foldl [of "[]" from_json root ?s] by (simp add: load_volumes_def distinct_map)
  moreover have "map_of ?r k = Some e \<longleftrightarrow> (\<exists>v. map_of ds k = Some v \<and> read_entry from_json root (k, v) = Some e)" for e
    using mem [of k e] f by (simp add: map_of_eq_Some_iff)
  ultimately show ?thesis
    by (cases "map_of ds k"; cases "map_of ?r k") (auto, metis option.exhaust, metis)
qed

lemma inv_reload:
  assumes "volumes_inv from_json vm"
  shows "map_of (vm_volumes (volumes_new from_json (vm_data_dir vm) n (vm_disk vm))) =
    map_option reloaded \<circ> map_of (vm_volumes vm)"
proof -
  let ?root = "path_join (vm_data_dir vm) VOLUMES_DIR"
  have read: "(case map_of (vm_disk vm) k of None \<Rightarrow> None | Some v \<Rightarrow> read_entry from_json ?root (k, v)) =
      map_option reloaded (map_of (vm_volumes vm) k)" for k
  proof (cases "map_of (vm_volumes vm) k")
    case None
    with assms show ?thesis
      by (auto simp: volumes_inv_def read_entry_def split: option.split)
  next
    case (Some e)
    with assms obtain json where "map_of (vm_disk vm) k = Some (Some json)" "from_json json = Some (meta_of e)"
      "ve_id e = k" "volume_name (ve_name e) = Inr ()" "ve_dir e = path_join ?root k"
      unfolding volumes_inv_def by metis
    with Some show ?thesis by (simp add: read_entry_def meta_of_def reloaded_def)
  qed
  have unique: "k = l" if h: "map_of (vm_disk vm) k = Some v" "map_of (vm_disk vm) l = Some w"
    "read_entry from_json ?root (k, v) = Some e" "read_entry from_json ?root (l, w) = Some f" "ve_name e = ve_name f" for k l v w e f
  proof -
    have "map_option reloaded (map_of (vm_volumes vm) k) = Some e" "map_option reloaded (map_of (vm_volumes vm) l) = Some f"
      unfolding read [symmetric] using h(1-4) by simp_all
    then obtain e' f' where "map_of (vm_volumes vm) k = Some e'" "e = reloaded e'" "map_of (vm_volumes vm) l = Some f'" "f = reloaded f'"
      by (auto simp: map_option_eq_Some)
    then have "map_of (vm_volumes vm) k = Some e'" "map_of (vm_volumes vm) l = Some f'" "ve_name e' = ve_name f'"
      using h(5) by (simp_all add: reloaded_def)
    then show ?thesis
      using assms unfolding volumes_inv_def by blast
  qed
  show ?thesis
    using assms by (intro ext) (simp add: volumes_new_def volumes_inv_def load_volumes_map [OF _ unique] read)
qed


section \<open>What runs guarantee\<close>

definition started :: "(bytes \<Rightarrow> volume_meta option) \<Rightarrow> string \<Rightarrow> nat \<Rightarrow> volume_system" where
  "started from_json dir n =
     \<lparr>vs_volumes = volumes_new from_json dir n [], vs_held = {#}, vs_lock = None, vs_dirs = {}\<rparr>"

lemma started_good: "volumes_good to_json from_json 0 (started from_json dir n)"
  by (simp add: started_def volumes_good_def volumes_new_def volumes_inv_def load_volumes_def claims_match_def)

lemmas volumes_run = volumes.run_keeps [OF _ started_good]

lemma step_const:
  assumes "volume_step to_json s t"
  shows "vm_max_volumes (vs_volumes t) = vm_max_volumes (vs_volumes s) \<and> vm_data_dir (vs_volumes t) = vm_data_dir (vs_volumes s)"
  using assms
proof (cases rule: volume_step_kinds)
  case insert
  then show ?thesis
    by (auto simp: insert_volume_def Let_def split: option.splits if_splits prod.splits sum.splits)
next
  case commit
  with remove_keeps(1) [OF commit(2)] show ?thesis by simp
next
  case delete_dir
  with remove_keeps(2) [OF delete_dir(2)] show ?thesis by simp
qed (simp_all add: volume_claim_def claim_drop_def split: option.split)

lemma run_const:
  assumes "(volume_step to_json)\<^sup>*\<^sup>* (started from_json dir n) s"
  shows "vm_max_volumes (vs_volumes s) = n" "vm_data_dir (vs_volumes s) = dir"
proof -
  have "(volume_step to_json)\<^sup>*\<^sup>* a b \<Longrightarrow> vm_max_volumes (vs_volumes b) = vm_max_volumes (vs_volumes a) \<and>
      vm_data_dir (vs_volumes b) = vm_data_dir (vs_volumes a)" for a b
    by (induction rule: rtranclp_induct) (simp, metis step_const)
  from this [OF assms] show "vm_max_volumes (vs_volumes s) = n" "vm_data_dir (vs_volumes s) = dir"
    by (simp_all add: started_def volumes_new_def)
qed

text \<open>A run used by the witnesses: a claim on a name, then the creation of the volume.\<close>

definition demo_vmeta :: volume_meta where
  "demo_vmeta = \<lparr>vmeta_id = ''a1'', vmeta_name = ''data'', vmeta_size_mb = IMPLICIT_VOLUME_SIZE_MB,
     vmeta_created_at_secs = 5, vmeta_labels = []\<rparr>"

definition demo_vmeta_json :: "volume_meta \<Rightarrow> bytes option" where
  "demo_vmeta_json m = (if m = demo_vmeta then Some ''{}'' else None)"

definition demo_vmeta_parse :: "bytes \<Rightarrow> volume_meta option" where
  "demo_vmeta_parse b = (if b = ''{}'' then Some demo_vmeta else None)"

definition demo_claimed :: volume_manager where
  "demo_claimed = volume_claim ''data'' (volumes_new demo_vmeta_parse ''/d'' 4 [])"

definition demo_created :: volume_manager where
  "demo_created = fst (volume_ensure demo_vmeta_json WriteOk ''a1'' 5000000007 ''data'' demo_claimed)"

lemma demo_inverts: "json_inverts demo_vmeta_json demo_vmeta_parse"
  by (simp add: json_inverts_def demo_vmeta_json_def demo_vmeta_parse_def)

lemma demo_fresh: "map_of (vm_volumes demo_claimed) ''a1'' = None"
  by code_simp

definition demo_volumes :: volume_system where
  "demo_volumes = \<lparr>vs_volumes = demo_created, vs_held = {#''data''#}, vs_lock = None, vs_dirs = {}\<rparr>"

lemma demo_volume_run: "(volume_step demo_vmeta_json)\<^sup>*\<^sup>* (started demo_vmeta_parse ''/d'' 4) demo_volumes"
proof -
  let ?s1 = "\<lparr>vs_volumes = demo_claimed, vs_held = {#''data''#}, vs_lock = None, vs_dirs = {}\<rparr>"
  have "volume_step demo_vmeta_json (started demo_vmeta_parse ''/d'' 4) ?s1"
    using volume_step.claim [of demo_vmeta_json "started demo_vmeta_parse ''/d'' 4" "''data''"]
    by (simp add: started_def demo_claimed_def)
  moreover have "volume_step demo_vmeta_json ?s1 (?s1\<lparr>vs_volumes := demo_created\<rparr>)"
    by (rule volume_step.ensure [of _ "''a1''" demo_vmeta_json WriteOk 5000000007 "''data''" _ "snd (volume_ensure demo_vmeta_json WriteOk
      ''a1'' 5000000007 ''data'' demo_claimed)"]) (simp_all add: fresh_volume_def demo_fresh demo_created_def)
  then have "volume_step demo_vmeta_json ?s1 demo_volumes" by (simp add: demo_volumes_def)
  ultimately show ?thesis by (rule rtranclp.rtrancl_into_rtrancl [OF r_into_rtranclp])
qed

definition demo_entry :: volume_entry where
  "demo_entry = \<lparr>ve_id = ''a1'', ve_name = ''data'', ve_size_mb = IMPLICIT_VOLUME_SIZE_MB, ve_created_at = 5000000007,
     ve_dir = ''/d/volumes/a1'', ve_labels = []\<rparr>"

lemma demo_name: "volume_name ''data'' = Inr ()"
  by code_simp

lemma demo_created_entry: "map_of (vm_volumes demo_created) ''a1'' = Some demo_entry"
  by (simp add: demo_created_def demo_entry_def volume_ensure_def demo_name insert_volume_def demo_claimed_def volume_claim_def
      volumes_new_def load_volumes_def write_volume_def meta_of_def demo_vmeta_json_def demo_vmeta_def path_join_def VOLUMES_DIR_def
      ends_with_def Let_def)

text \<open>
  C38: Whatever the order of creations, removals, claims and drops after a start with an empty data
  directory, also while a removal is under way, two volumes never share a name, there are never more
  than the limit, every volume has its record on disk, and the claim table counts exactly the claims
  that are held.
\<close>
theorem volumes_run_invariant:
  assumes "json_inverts to_json from_json" "(volume_step to_json)\<^sup>*\<^sup>* (started from_json dir n) s"
  shows "volumes_inv from_json (vs_volumes s) \<and> length (vm_volumes (vs_volumes s)) \<le> n \<and>
    (is_claimed name (vs_volumes s) \<longleftrightarrow> name \<in># vs_held s) \<and>
    (name \<in># vs_held s \<longrightarrow> vm_claims (vs_volumes s) name = Some (count (vs_held s) name))"
proof -
  have "volumes_good to_json from_json 0 s"
    by (rule volumes_run [OF assms(2)])
  with assms(1) run_const [OF assms(2)]
  show ?thesis
    by (auto simp: volumes_good_def claims_match_def is_claimed_def count_eq_zero_iff)
qed

theorem volumes_run_invariant_witness:
  "volumes_inv demo_vmeta_parse demo_created \<and> length (vm_volumes demo_created) \<le> 4 \<and> is_claimed ''data'' demo_created \<and>
   vm_claims demo_created ''data'' = Some 1"
  using volumes_run_invariant [OF demo_inverts demo_volume_run, of "''data''"] by (simp add: demo_volumes_def)

text \<open>
  What a claim protects: a volume that no removal has cleared, its name claimed; and the steps during which
  the claim is held.
\<close>

definition protected :: "string \<Rightarrow> volume_entry \<Rightarrow> volume_system \<Rightarrow> bool" where
  "protected i e s \<longleftrightarrow> map_of (vm_volumes (vs_volumes s)) i = Some e \<and> ve_name e \<in># vs_held s \<and>
     (\<forall>f. vs_lock s \<noteq> Some (VrClear i f))"

definition held_step :: "(volume_meta \<Rightarrow> bytes option) \<Rightarrow> string \<Rightarrow> volume_system \<Rightarrow> volume_system \<Rightarrow> bool" where
  "held_step to_json name s t \<longleftrightarrow> volume_step to_json s t \<and> name \<in># vs_held t"

lemma protected_step:
  assumes "volumes_good to_json from_json n s" "protected i e s" "held_step to_json (ve_name e) s t"
  shows "protected i e t"
proof -
  have step: "volume_step to_json s t" and held: "ve_name e \<in># vs_held t" using assms(3) by (simp_all add: held_step_def)
  have p: "map_of (vm_volumes (vs_volumes s)) i = Some e" "\<And>f. vs_lock s \<noteq> Some (VrClear i f)"
    using assms(2) by (auto simp: protected_def)
  have claimed: "is_claimed (ve_name e) (vs_volumes s)"
    using assms(1,2) by (auto simp: protected_def volumes_good_def claims_match_def is_claimed_def count_eq_zero_iff)
  from step show ?thesis
  proof (cases rule: volume_step_kinds)
    case (insert out new_id now name sz ls must vm' r)
    then have "i \<noteq> new_id" using p(1) by (auto simp: fresh_volume_def)
    with insert p held show ?thesis by (simp add: protected_def insert_volume_table [OF insert(4)])
  next
    case (check j f users)
    show ?thesis
    proof (cases "j = i")
      case True
      with check(1) assms(1) p(1) have "f = e" by (simp add: volumes_good_def)
      with claimed check(2) p(1) held show ?thesis by (simp add: protected_def remove_check_def)
    next
      case False
      with check p held show ?thesis by (auto simp: protected_def split: sum.splits)
    qed
  next
    case (commit j f mo vm' r)
    then have "j \<noteq> i" using p(2) by auto
    with commit p held remove_commit_cases [OF commit(2)] show ?thesis by (auto simp: protected_def delete_conv')
  next
    case (delete_dir j do vm' r)
    with p held remove_keeps(2) [OF delete_dir(2)] show ?thesis by (simp add: protected_def)
  qed (use p held in \<open>auto simp: protected_def\<close>)
qed

text \<open>
  C39: A claim protects the volume of its name: from any moment at which a sandbox being created holds a
  claim and no removal has yet found the volume unused, for as long as the claim is held, no operation of
  anyone removes or changes the volume, however creations, removals and other claims interleave.
\<close>
theorem claimed_not_removed:
  assumes "(volume_step to_json)\<^sup>*\<^sup>* (started from_json dir n) s" "protected i e s"
    and "(held_step to_json (ve_name e))\<^sup>*\<^sup>* s t"
  shows "map_of (vm_volumes (vs_volumes t)) i = Some e \<and> (\<forall>f. vs_lock t \<noteq> Some (VrClear i f))"
proof -
  from assms(3) have "volumes_good to_json from_json 0 t \<and> protected i e t"
  proof (induction rule: rtranclp_induct)
    case base
    show ?case using volumes_run [OF assms(1)] assms(2) by simp
  next
    case (step y z)
    then show ?case using protected_step volumes.step_keeps by (meson held_step_def)
  qed
  then show ?thesis by (simp add: protected_def)
qed

lemma demo_removal_refused:
  "(held_step demo_vmeta_json ''data'')\<^sup>*\<^sup>* demo_volumes (demo_volumes\<lparr>vs_lock := None\<rparr>)"
  "volume_step demo_vmeta_json demo_volumes (demo_volumes\<lparr>vs_lock := Some (VrUsers ''a1'' demo_entry)\<rparr>)"
proof -
  let ?s = "demo_volumes\<lparr>vs_lock := Some (VrUsers ''a1'' demo_entry)\<rparr>"
  have "entity_id ''a1'' ''volume'' = Inr ()" by code_simp
  then show begun: "volume_step demo_vmeta_json demo_volumes ?s"
    by (intro volume_step.begin_remove) (simp_all add: demo_volumes_def remove_begin_def demo_created_entry)
  have "vm_claims demo_created ''data'' = Some 1"
    using volumes_run [OF demo_volume_run] by (simp add: demo_volumes_def volumes_good_def claims_match_def)
  then have "remove_check [] demo_entry (vs_volumes ?s) = Inl (VolumeInUse (Msg ''remove {}: volume is in use - [{}]''
      [S ''data'', S CREATING_HOLDER]))"
    by (simp add: remove_check_def is_claimed_def demo_entry_def demo_volumes_def)
  then have "volume_step demo_vmeta_json ?s (demo_volumes\<lparr>vs_lock := None\<rparr>)"
    using volume_step.check [of ?s "''a1''" demo_entry demo_vmeta_json "[]"] by simp
  then have "held_step demo_vmeta_json ''data'' ?s (demo_volumes\<lparr>vs_lock := None\<rparr>)"
    by (simp add: held_step_def demo_volumes_def)
  moreover have "held_step demo_vmeta_json ''data'' demo_volumes ?s"
    using begun by (simp add: held_step_def demo_volumes_def)
  ultimately show "(held_step demo_vmeta_json ''data'')\<^sup>*\<^sup>* demo_volumes (demo_volumes\<lparr>vs_lock := None\<rparr>)"
    by (meson r_into_rtranclp rtranclp.rtrancl_into_rtrancl)
qed

theorem claimed_not_removed_witness:
  "volume_step demo_vmeta_json demo_volumes (demo_volumes\<lparr>vs_lock := Some (VrUsers ''a1'' demo_entry)\<rparr>) \<and>
   map_of (vm_volumes (vs_volumes (demo_volumes\<lparr>vs_lock := None\<rparr>))) ''a1'' = Some demo_entry"
proof -
  have "protected ''a1'' demo_entry demo_volumes"
    by (simp add: protected_def demo_volumes_def demo_created_entry) (simp add: demo_entry_def)
  moreover have "ve_name demo_entry = ''data''" by (simp add: demo_entry_def)
  ultimately show ?thesis
    using claimed_not_removed [OF demo_volume_run, of "''a1''" demo_entry] demo_removal_refused by simp
qed

text \<open>
  C40: A daemon restarted after any run reads back exactly the volumes it had, creation times
  rounded down to seconds.
\<close>
theorem reload_preserves:
  assumes "json_inverts to_json from_json" "(volume_step to_json)\<^sup>*\<^sup>* (started from_json dir n) s"
  shows "map_of (vm_volumes (volumes_new from_json dir m (vm_disk (vs_volumes s)))) =
    map_option reloaded \<circ> map_of (vm_volumes (vs_volumes s))"
  using inv_reload [of from_json "vs_volumes s" m] volumes_run [OF assms(2)] assms(1) run_const(2) [OF assms(2)]
  by (simp add: volumes_good_def)

theorem reload_preserves_witness:
  "map_of (vm_volumes (volumes_new demo_vmeta_parse ''/d'' 4 (vm_disk demo_created))) ''a1'' =
     Some (demo_entry\<lparr>ve_created_at := 5000000000\<rparr>)"
  using reload_preserves [OF demo_inverts demo_volume_run, of 4]
  by (simp add: demo_volumes_def demo_created_entry reloaded_def demo_entry_def)

end
