(* ===== verification/Manager.thy ===== *)
theory Manager
  imports Broker Egress OutputBuf Volume Health Restart
begin

text \<open>
  The state of the sandbox manager and the sections of its operations that run under one lock,
  \<open>ward-core/src/sandbox/manager.rs\<close>.

  The manager is one record. Times are nanoseconds; the clock, the outcome of a save and the
  results of backend calls are arguments. \<open>mg_disk\<close> is what the record store holds per sandbox,
  which theory \<open>Store\<close> models down to system calls: a save that reports an error may or may not have
  replaced the record. \<open>mg_exit\<close> is the watch channel of each main process, by pid: the raw
  wait status and whether the guest's OOM killer was active.
\<close>

section \<open>State\<close>

definition WAIT_STATUS_EXIT_SHIFT :: nat where "WAIT_STATUS_EXIT_SHIFT = 8"
definition WAIT_STATUS_SIGNAL_MASK :: int where "WAIT_STATUS_SIGNAL_MASK = 127"
definition WAIT_STATUS_EXIT_MASK :: int where "WAIT_STATUS_EXIT_MASK = 255"
definition SIGNAL_EXIT_BASE :: int where "SIGNAL_EXIT_BASE = 128"
definition EXEC_FAILED_EXIT :: int where "EXEC_FAILED_EXIT = 126"
definition UNKNOWN_EXIT :: int where "UNKNOWN_EXIT = 255"
definition STOP_GRACE_SECONDS :: nat where "STOP_GRACE_SECONDS = 10"

record sandbox_entry =
  se_egress :: egress_proxy
  se_timeout :: "nat option"
  se_ttl :: "nat option"
  se_meta :: sandbox_meta
  se_listeners :: "published_port list"
  se_health :: "tracker option"

record process_record =
  pr_sandbox_id :: string
  pr_output :: bool
  pr_stdin :: bool

record main_process =
  mp_pid :: string
  mp_output :: output_buffer
  mp_stdin :: bool
  mp_control :: bool

record 'c manager =
  mg_entries :: "(string \<times> sandbox_entry) list"
  mg_mains :: "string \<rightharpoonup> main_process"
  mg_exit :: "string \<rightharpoonup> int \<times> bool"
  mg_processes :: "string \<rightharpoonup> process_record"
  mg_broker :: "'c broker_state"
  mg_volumes :: "volume_manager option"
  mg_events :: event_log
  mg_disk :: "string \<rightharpoonup> sandbox_meta"
  mg_store :: bool
  mg_pending :: "string set"
  mg_permits :: nat
  mg_max_sandboxes :: nat
  mg_allow_host_mounts :: bool
  mg_exited_ttl :: "nat option"
  mg_output_cap :: nat
  mg_restarts :: "restart_request list"
  mg_delays :: "string \<rightharpoonup> nat"
  mg_active :: int

definition manager_new :: "nat \<Rightarrow> bool \<Rightarrow> 'c manager" where
  "manager_new max_sandboxes allow_host_mounts =
     \<lparr>mg_entries = [], mg_mains = Map.empty, mg_exit = Map.empty, mg_processes = Map.empty,
      mg_broker = broker_new, mg_volumes = None, mg_events = log_with_bound EVENT_BOUND,
      mg_disk = Map.empty, mg_store = False, mg_pending = {}, mg_permits = max_sandboxes,
      mg_max_sandboxes = max_sandboxes, mg_allow_host_mounts = allow_host_mounts,
      mg_exited_ttl = None, mg_output_cap = MAIN_OUTPUT_CAP,
      mg_restarts = [], mg_delays = Map.empty, mg_active = 0\<rparr>"

definition entry_of :: "'c manager \<Rightarrow> string \<Rightarrow> sandbox_entry option" where
  "entry_of m i = map_of (mg_entries m) i"

definition put_entry :: "string \<Rightarrow> sandbox_entry \<Rightarrow> 'c manager \<Rightarrow> 'c manager" where
  "put_entry i e m = m\<lparr>mg_entries := AList.update i e (mg_entries m)\<rparr>"

definition name_of :: "sandbox_entry \<Rightarrow> string" where
  "name_of e = sp_name (co_spec (sm_options (se_meta e)))"

definition spec_of :: "sandbox_entry \<Rightarrow> sandbox_spec" where
  "spec_of e = co_spec (sm_options (se_meta e))"

definition emit_meta :: "nat \<Rightarrow> event_action \<Rightarrow> sandbox_meta \<Rightarrow> int option \<Rightarrow> 'c manager \<Rightarrow> 'c manager" where
  "emit_meta now action meta code m =
     m\<lparr>mg_events := emit ((case code of Some c \<Rightarrow> with_exit_code c (event_new now action meta)
                                       | None \<Rightarrow> event_new now action meta)) (mg_events m)\<rparr>"

definition emit_event :: "nat \<Rightarrow> string \<Rightarrow> event_action \<Rightarrow> int option \<Rightarrow> 'c manager \<Rightarrow> 'c manager" where
  "emit_event now i action code m =
     (case entry_of m i of Some e \<Rightarrow> emit_meta now action (se_meta e) code m | None \<Rightarrow> m)"

section \<open>Exit status\<close>

text \<open>A raw status is an \<open>i32\<close>; the shift is arithmetic.\<close>

definition decode_wait_status :: "int \<Rightarrow> int" where
  "decode_wait_status raw =
     (let signal = and raw WAIT_STATUS_SIGNAL_MASK
      in if signal = 0 then and (drop_bit WAIT_STATUS_EXIT_SHIFT raw) WAIT_STATUS_EXIT_MASK
         else SIGNAL_EXIT_BASE + signal)"

definition end_reason_of :: "int \<Rightarrow> bool \<Rightarrow> end_reason" where
  "end_reason_of raw oom_killed =
     (let signal = and raw WAIT_STATUS_SIGNAL_MASK
      in if signal = 0 then REndExited
         else if signal = SIGKILL \<and> oom_killed then REndOom
         else REndSignal)"

text \<open>\<open>code << 8\<close> on an \<open>i32\<close> drops the bits shifted out.\<close>

definition event_wait_status :: "int option \<Rightarrow> int option \<Rightarrow> int option" where
  "event_wait_status wait_status exit_code =
     (case wait_status of
        Some raw \<Rightarrow> Some raw
      | None \<Rightarrow> map_option (\<lambda>code. signed_take_bit 31 (push_bit WAIT_STATUS_EXIT_SHIFT code)) exit_code)"

datatype main_end = NoMain | MainExited int end_reason | MainUnknown

section \<open>Saving and committing\<close>

datatype save_outcome = Saved | NotSaved io_kind | SavedButFailed io_kind

definition persist_meta :: "save_outcome \<Rightarrow> sandbox_meta \<Rightarrow> 'c manager \<Rightarrow> 'c manager \<times> unit result" where
  "persist_meta out meta m =
     (let write = m\<lparr>mg_disk := (mg_disk m)(sm_id meta \<mapsto> meta)\<rparr>
      in if \<not> mg_store m then (m, Inr ())
         else (case out of
                 Saved \<Rightarrow> (write, Inr ())
               | NotSaved k \<Rightarrow> (m, Inl (from_io (''persist sandbox '' @ sm_id meta) k))
               | SavedButFailed k \<Rightarrow> (write, Inl (from_io (''persist sandbox '' @ sm_id meta) k))))"

definition has_ended :: "sandbox_status \<Rightarrow> bool" where
  "has_ended status \<longleftrightarrow> status = Exited \<or> status = Stopped"

definition NANOS :: nat where "NANOS = 1000000000"

definition exited_ttl_of :: "resource_limits \<Rightarrow> nat option \<Rightarrow> nat option" where
  "exited_ttl_of resources dflt =
     (if rl_exited_ttl_seconds resources = 0 then dflt
      else Some (unat (rl_exited_ttl_seconds resources) * NANOS))"

text \<open>The timer left armed is the time it fires.\<close>

definition rearm_exited_ttl :: "nat option \<Rightarrow> nat \<Rightarrow> nat \<Rightarrow> sandbox_entry \<Rightarrow> sandbox_entry" where
  "rearm_exited_ttl dflt ended_at now e =
     e\<lparr>se_ttl := (if \<not> has_ended (sm_status (se_meta e)) then None
                  else map_option (\<lambda>ttl. max (ended_at + ttl) now)
                         (exited_ttl_of (co_resources (sm_options (se_meta e))) dflt))\<rparr>"

definition stamp_times :: "sandbox_status \<Rightarrow> nat \<Rightarrow> sandbox_meta \<Rightarrow> sandbox_meta" where
  "stamp_times next now meta =
     (case next of
        Running \<Rightarrow>
          if sm_status meta \<noteq> Running \<and> sp_command (co_spec (sm_options meta)) \<noteq> []
          then meta\<lparr>sm_started_at := Some now\<rparr> else meta
      | Exited \<Rightarrow> meta\<lparr>sm_finished_at := Some now\<rparr>
      | Stopped \<Rightarrow> meta\<lparr>sm_finished_at := Some (unwrap_or (sm_finished_at meta) now)\<rparr>
      | _ \<Rightarrow> meta)"

definition commit_meta_ended :: "save_outcome \<Rightarrow> nat \<Rightarrow> sandbox_status \<Rightarrow> int option \<Rightarrow> end_reason option \<Rightarrow>
    sandbox_entry \<Rightarrow> 'c manager \<Rightarrow> 'c manager \<times> sandbox_entry \<times> unit result" where
  "commit_meta_ended out now status exit_code reason e m =
     (let new = (stamp_times status now (se_meta e))
                  \<lparr>sm_status := status, sm_exit_code := exit_code, sm_end_reason := reason\<rparr>
      in case persist_meta out new m of
           (m', Inl err) \<Rightarrow> (m', e, Inl err)
         | (m', Inr _) \<Rightarrow> (m', rearm_exited_ttl (mg_exited_ttl m) now now (e\<lparr>se_meta := new\<rparr>), Inr ()))"

definition commit_meta :: "save_outcome \<Rightarrow> nat \<Rightarrow> sandbox_status \<Rightarrow> int option \<Rightarrow>
    sandbox_entry \<Rightarrow> 'c manager \<Rightarrow> 'c manager \<times> sandbox_entry \<times> unit result" where
  "commit_meta out now status exit_code e m =
     commit_meta_ended out now status exit_code
       (if status = Creating then None else sm_end_reason (se_meta e)) e m"

text \<open>The shape \<open>record_state\<close>, \<open>record_ended\<close> and \<open>set_state\<close> share: look the entry up, commit, put it back.\<close>

definition at_entry :: "string \<Rightarrow> 'c manager \<Rightarrow>
    (sandbox_entry \<Rightarrow> 'c manager \<Rightarrow> 'c manager \<times> sandbox_entry \<times> 'r result) \<Rightarrow> 'c manager \<times> 'r result" where
  "at_entry i m f =
     (case entry_of m i of
        None \<Rightarrow> (m, Inl (SandboxNotFound i))
      | Some e \<Rightarrow> (case f e m of (m', e', r) \<Rightarrow> (put_entry i e' m', r)))"

definition record_state :: "save_outcome \<Rightarrow> nat \<Rightarrow> string \<Rightarrow> sandbox_status \<Rightarrow> int option \<Rightarrow> 'c manager \<Rightarrow>
    'c manager \<times> unit result" where
  "record_state out now i status exit_code m = at_entry i m (commit_meta out now status exit_code)"

definition record_ended :: "save_outcome \<Rightarrow> nat \<Rightarrow> string \<Rightarrow> sandbox_status \<Rightarrow> int option \<Rightarrow> end_reason option \<Rightarrow>
    'c manager \<Rightarrow> 'c manager \<times> unit result" where
  "record_ended out now i status exit_code reason m =
     at_entry i m (commit_meta_ended out now status exit_code reason)"

definition set_state :: "save_outcome \<Rightarrow> nat \<Rightarrow> string \<Rightarrow> sandbox_status \<Rightarrow> 'c manager \<Rightarrow> 'c manager \<times> unit result" where
  "set_state out now i status m =
     at_entry i m (\<lambda>e. commit_meta out now status (sm_exit_code (se_meta e)) e)"

section \<open>Beginning a stop and a start\<close>

definition wrong_state :: "string \<Rightarrow> sandbox_status \<Rightarrow> string \<Rightarrow> api_error" where
  "wrong_state i status action =
     InvalidRequest (Msg ''sandbox {id} is {state}, cannot {action}''
       [S i, S (case status of Creating \<Rightarrow> ''creating'' | Running \<Rightarrow> ''running'' | Stopped \<Rightarrow> ''stopped''
                 | Failed \<Rightarrow> ''failed'' | Exited \<Rightarrow> ''exited'' | Stopping \<Rightarrow> ''stopping''), S action])"

definition set_manual :: "bool \<Rightarrow> sandbox_entry \<Rightarrow> sandbox_entry" where
  "set_manual b e = e\<lparr>se_meta := (se_meta e)\<lparr>sm_manually_stopped := b\<rparr>\<rparr>"

definition begin_stop :: "save_outcome \<Rightarrow> nat \<Rightarrow> string \<Rightarrow> 'c manager \<Rightarrow>
    'c manager \<times> (sandbox_status \<times> sandbox_meta) option result" where
  "begin_stop out now i m =
     (case entry_of m i of
        None \<Rightarrow> (m, Inl (SandboxNotFound i))
      | Some e \<Rightarrow>
          if sm_status (se_meta e) = Stopped then (m, Inr None)
          else if sm_status (se_meta e) = Running \<or> sm_status (se_meta e) = Exited
          then (case commit_meta out now Stopping (sm_exit_code (se_meta e)) (set_manual True e) m of
                  (m', e', Inr _) \<Rightarrow> (put_entry i e' m', Inr (Some (sm_status (se_meta e), se_meta e)))
                | (m', e', Inl err) \<Rightarrow>
                    (put_entry i (set_manual (sm_manually_stopped (se_meta e)) e') m', Inl err))
          else (m, Inl (wrong_state i (sm_status (se_meta e)) ''stop'')))"

definition begin_start :: "save_outcome \<Rightarrow> nat \<Rightarrow> string \<Rightarrow> 'c manager \<Rightarrow>
    'c manager \<times> communication_policy option result" where
  "begin_start out now i m =
     (case entry_of m i of
        None \<Rightarrow> (m, Inl (SandboxNotFound i))
      | Some e \<Rightarrow>
          if sm_status (se_meta e) = Running then (m, Inr None)
          else if sm_status (se_meta e) \<in> {Stopped, Exited, Failed}
          then (case commit_meta out now Creating None (set_manual False e) m of
                  (m', e', Inr _) \<Rightarrow> (put_entry i e' m', Inr (Some (co_comms (sm_options (se_meta e')))))
                | (m', e', Inl err) \<Rightarrow>
                    (put_entry i (set_manual (sm_manually_stopped (se_meta e)) e') m', Inl err))
          else (m, Inl (wrong_state i (sm_status (se_meta e)) ''start'')))"

definition commit_running_and_register :: "save_outcome \<Rightarrow> nat \<Rightarrow> string \<Rightarrow> communication_policy \<Rightarrow> 'c manager \<Rightarrow>
    'c manager \<times> unit result" where
  "commit_running_and_register out now i comms m =
     (case set_state out now i Running m of
        (m', Inl err) \<Rightarrow> (m', Inl err)
      | (m', Inr _) \<Rightarrow> (m'\<lparr>mg_broker := register_sandbox i comms (mg_broker m')\<rparr>, Inr ()))"

section \<open>Sections of the other operations\<close>

definition close_listeners :: "string \<Rightarrow> 'c manager \<Rightarrow> 'c manager" where
  "close_listeners i m =
     (case entry_of m i of None \<Rightarrow> m | Some e \<Rightarrow> put_entry i (e\<lparr>se_listeners := []\<rparr>) m)"

definition set_listeners :: "string \<Rightarrow> published_port list \<Rightarrow> 'c manager \<Rightarrow> 'c manager" where
  "set_listeners i ls m =
     (case entry_of m i of None \<Rightarrow> m | Some e \<Rightarrow> put_entry i (e\<lparr>se_listeners := ls\<rparr>) m)"

text \<open>The request carries whole milliseconds of run time.\<close>

definition request_restart :: "sandbox_entry \<Rightarrow> int \<Rightarrow> 'c manager \<Rightarrow> 'c manager" where
  "request_restart e code m =
     (let meta = se_meta e
      in if sp_auto_remove (spec_of e) \<or>
            \<not> wants_restart (sp_restart (spec_of e)) code (sm_restart_count meta) then m
         else m\<lparr>mg_restarts := mg_restarts m @
                [\<lparr>rr_id = sm_id meta, rr_exit_code = code,
                  rr_ran_for = (case (sm_started_at meta, sm_finished_at meta) of
                                  (Some start, Some fin) \<Rightarrow> if start \<le> fin then (fin - start) div 1000000 else 0
                                | _ \<Rightarrow> 0),
                  rr_finished_at = sm_finished_at meta\<rparr>]\<rparr>)"

text \<open>The locked part of \<open>mark_exited_on_main_end\<close>.\<close>

definition mark_exited :: "save_outcome \<Rightarrow> nat \<Rightarrow> string \<Rightarrow> string \<Rightarrow> int \<Rightarrow> bool \<Rightarrow> 'c manager \<Rightarrow> 'c manager \<times> bool" where
  "mark_exited out now i pid raw oom m =
     (case entry_of m i of
        None \<Rightarrow> (m, False)
      | Some e \<Rightarrow>
          if map_option mp_pid (mg_mains m i) \<noteq> Some pid \<or> sm_status (se_meta e) \<noteq> Running then (m, False)
          else (let code = decode_wait_status raw
                in case commit_meta_ended out now Exited (Some code) (Some (end_reason_of raw oom)) e m of
                     (m', e', Inl _) \<Rightarrow> (put_entry i e' m', True)
                   | (m', e', Inr _) \<Rightarrow>
                       (request_restart e' code
                          ((put_entry i e' m')\<lparr>mg_events := emit
                             ((with_exit_code code (event_new now EDie (se_meta e')))\<lparr>ev_reason := sm_end_reason (se_meta e')\<rparr>)
                             (mg_events m')\<rparr>), True)))"

text \<open>Taking the entry out of the map returns its permit; the timers it had are dropped with it.\<close>

definition take_entry :: "string \<Rightarrow> 'c manager \<Rightarrow> 'c manager \<times> sandbox_entry option" where
  "take_entry i m =
     (case entry_of m i of
        None \<Rightarrow> (m, None)
      | Some e \<Rightarrow> (m\<lparr>mg_entries := AList.delete i (mg_entries m), mg_permits := mg_permits m + 1\<rparr>, Some e))"

definition auto_remove_take :: "string \<Rightarrow> string \<Rightarrow> 'c manager \<Rightarrow> 'c manager \<times> sandbox_entry option" where
  "auto_remove_take i pid m =
     (let exited = (case entry_of m i of Some e \<Rightarrow> sm_status (se_meta e) = Exited | None \<Rightarrow> False);
          same_run = map_option mp_pid (mg_mains m i) = Some pid
      in if exited \<and> same_run then take_entry i m else (m, None))"

definition remove_if_still_ended_take :: "string \<Rightarrow> 'c manager \<Rightarrow> 'c manager \<times> sandbox_entry option" where
  "remove_if_still_ended_take i m =
     (case entry_of m i of
        None \<Rightarrow> (m, None)
      | Some e \<Rightarrow> if has_ended (sm_status (se_meta e)) then take_entry i m else (m, None))"

definition purge_processes :: "string \<Rightarrow> 'c manager \<Rightarrow> 'c manager" where
  "purge_processes i m =
     m\<lparr>mg_processes := (\<lambda>pid. case mg_processes m pid of
          Some rec \<Rightarrow> if pr_sandbox_id rec = i then None else Some rec | None \<Rightarrow> None)\<rparr>"

definition remove_main :: "string \<Rightarrow> 'c manager \<Rightarrow> 'c manager" where
  "remove_main i m = m\<lparr>mg_mains := (mg_mains m)(i := None)\<rparr>"

definition deregister :: "string \<Rightarrow> 'c manager \<Rightarrow> 'c manager" where
  "deregister i m = m\<lparr>mg_broker := deregister_sandbox i (mg_broker m)\<rparr>"

definition cleanup_events :: "nat \<Rightarrow> sandbox_meta \<Rightarrow> end_reason option \<Rightarrow> 'c manager \<Rightarrow> 'c manager" where
  "cleanup_events now meta reason m =
     (let m1 = m\<lparr>mg_active := mg_active m - 1\<rparr>;
          m2 = (if sm_status meta = Running
                then m1\<lparr>mg_events := emit
                   ((with_exit_code (unwrap_or (sm_exit_code meta) (SIGNAL_EXIT_BASE + SIGKILL))
                       (event_new now EDie meta))\<lparr>ev_reason := reason\<rparr>) (mg_events m1)\<rparr>
                else m1)
      in emit_meta now EDestroy meta None m2)"

text \<open>The locked part of \<open>fail_main_start\<close>: whether there was a running sandbox to fail.\<close>

definition fail_main_start :: "save_outcome \<Rightarrow> nat \<Rightarrow> string \<Rightarrow> 'c manager \<Rightarrow> 'c manager \<times> bool" where
  "fail_main_start out now i m =
     (case entry_of m i of
        None \<Rightarrow> (m, False)
      | Some e \<Rightarrow>
          if sm_status (se_meta e) \<noteq> Running then (m, False)
          else (case commit_meta out now Failed (sm_exit_code (se_meta e)) e m of
                  (m', e', r) \<Rightarrow> (put_entry i e' m', True)))"

text \<open>The second part of \<open>spawn_main\<close>, under the entries lock.\<close>

definition record_main :: "string \<Rightarrow> string \<Rightarrow> bool \<Rightarrow> bool \<Rightarrow> 'c manager \<Rightarrow> 'c manager \<times> unit result" where
  "record_main i pid stdin control m =
     (case entry_of m i of
        None \<Rightarrow> (m, Inl (SandboxNotFound i))
      | Some _ \<Rightarrow>
          (m\<lparr>mg_mains := (mg_mains m)(i \<mapsto>
               \<lparr>mp_pid = pid, mp_output = (case mg_mains m i of Some old \<Rightarrow> mp_output old
                                           | None \<Rightarrow> buffer_new (mg_output_cap m)),
                mp_stdin = stdin, mp_control = control\<rparr>)\<rparr>, Inr ()))"

section \<open>Restart bookkeeping\<close>

definition set_count :: "u32 \<Rightarrow> sandbox_meta \<Rightarrow> sandbox_meta" where
  "set_count n meta = meta\<lparr>sm_restart_count := n\<rparr>"

definition claim_restart :: "save_outcome \<Rightarrow> restart_request \<Rightarrow> 'c manager \<Rightarrow> 'c manager \<times> bool" where
  "claim_restart out request m =
     (case entry_of m (rr_id request) of
        None \<Rightarrow> (m\<lparr>mg_delays := (mg_delays m)(rr_id request := None)\<rparr>, False)
      | Some e \<Rightarrow>
          (let meta = se_meta e
           in if \<not> (sm_status meta = Exited \<and> \<not> sm_manually_stopped meta \<and> \<not> sm_had_secrets meta \<and>
                    sm_finished_at meta = rr_finished_at request) \<or>
                 \<not> wants_restart (sp_restart (spec_of e)) (rr_exit_code request) (sm_restart_count meta)
              then (m, False)
              else (let new = set_count (sm_restart_count meta + 1) meta
                    in case persist_meta out new m of
                         (m', Inl _) \<Rightarrow> (m', False)
                       | (m', Inr _) \<Rightarrow> (put_entry (rr_id request) (e\<lparr>se_meta := new\<rparr>) m', True))))"

definition clear_restart_history :: "save_outcome \<Rightarrow> string \<Rightarrow> 'c manager \<Rightarrow> 'c manager \<times> unit result" where
  "clear_restart_history out i m0 =
     (let m = m0\<lparr>mg_delays := (mg_delays m0)(i := None)\<rparr>
      in case entry_of m i of
           None \<Rightarrow> (m, Inr ())
         | Some e \<Rightarrow>
             if sm_restart_count (se_meta e) = 0 then (m, Inr ())
             else (let new = set_count 0 (se_meta e)
                   in case persist_meta out new m of
                        (m', Inl err) \<Rightarrow> (m', Inl err)
                      | (m', Inr _) \<Rightarrow> (put_entry i (e\<lparr>se_meta := new\<rparr>) m', Inr ())))"

definition mark_manually_stopped :: "save_outcome \<Rightarrow> string \<Rightarrow> 'c manager \<Rightarrow> 'c manager \<times> unit result" where
  "mark_manually_stopped out i m =
     (case entry_of m i of
        None \<Rightarrow> (m, Inr ())
      | Some e \<Rightarrow>
          if sm_manually_stopped (se_meta e) then (m, Inr ())
          else (let e' = set_manual True e
                in case persist_meta out (se_meta e') m of
                     (m', Inl err) \<Rightarrow> (m', Inl err)
                   | (m', Inr _) \<Rightarrow> (put_entry i e' m', Inr ())))"

definition restart_delay :: "restart_request \<Rightarrow> 'c manager \<Rightarrow> 'c manager" where
  "restart_delay request m =
     m\<lparr>mg_delays := (mg_delays m)(rr_id request \<mapsto>
        next_delay (mg_delays m (rr_id request)) (rr_ran_for request))\<rparr>"

definition due_at_boot :: "'c manager \<Rightarrow> string list" where
  "due_at_boot m =
     map fst (filter (\<lambda>(_, e). sm_status (se_meta e) \<in> {Stopped, Exited} \<and> \<not> sm_had_secrets (se_meta e) \<and>
        restarts_at_boot (sp_restart (spec_of e)) (sm_manually_stopped (se_meta e))) (mg_entries m))"

section \<open>Names and references\<close>

definition name_in_use :: "string \<Rightarrow> string option \<Rightarrow> api_error" where
  "name_in_use name holder = NameInUse name holder"

text \<open>\<open>NameReservation::claim\<close> and its drop.\<close>

definition reservation_claim :: "string \<Rightarrow> 'c manager \<Rightarrow> 'c manager \<times> bool" where
  "reservation_claim name m =
     (if name \<in> mg_pending m then (m, False) else (m\<lparr>mg_pending := insert name (mg_pending m)\<rparr>, True))"

definition reservation_drop :: "string \<Rightarrow> 'c manager \<Rightarrow> 'c manager" where
  "reservation_drop name m = m\<lparr>mg_pending := mg_pending m - {name}\<rparr>"

definition holder_of :: "string \<Rightarrow> 'c manager \<Rightarrow> string option" where
  "holder_of name m = map_option fst (find (\<lambda>(_, e). name_of e = name) (mg_entries m))"

text \<open>\<open>resolve\<close>; \<open>matches.join\<close> is the list of matches in the message.\<close>

definition resolve :: "string \<Rightarrow> 'c manager \<Rightarrow> string result" where
  "resolve reference m =
     and_then (sandbox_reference reference) (\<lambda>_.
       case holder_of reference m of
         Some i \<Rightarrow> Inr i
       | None \<Rightarrow>
           if entry_of m reference \<noteq> None then Inr reference
           else (case sort (filter (\<lambda>i. starts_with i reference) (map fst (mg_entries m))) of
                   [] \<Rightarrow> Inl (SandboxNotFound reference)
                 | [i] \<Rightarrow> Inr i
                 | matches \<Rightarrow> Inl (AmbiguousReference
                     (Msg ''ID prefix {reference} matches several sandboxes: {}'' (S reference # map S matches)))))"

text \<open>\<open>authorize\<close>; the entry may go between the resolution and the lookup, in \<open>m2\<close>.\<close>

definition token_hash_eq :: "string \<Rightarrow> string \<Rightarrow> bool" where
  "token_hash_eq a b \<longleftrightarrow> a = b"

definition authorize :: "(bytes \<Rightarrow> u8 list) \<Rightarrow> string \<Rightarrow> string \<Rightarrow> 'c manager \<Rightarrow> 'c manager \<Rightarrow> unit result" where
  "authorize sha256 reference token m1 m2 =
     and_then (resolve reference m1) (\<lambda>i.
       case entry_of m2 i of
         None \<Rightarrow> Inl (SandboxNotFound i)
       | Some e \<Rightarrow>
           if token_hash_eq (sm_token_hash (se_meta e)) (hash_token sha256 token) then Inr ()
           else Inl (PermissionDenied (Msg ''token does not match sandbox {sandbox_id}'' [S i])))"

definition set_name :: "string \<Rightarrow> sandbox_entry \<Rightarrow> sandbox_entry" where
  "set_name name e =
     e\<lparr>se_meta := (se_meta e)\<lparr>sm_options := (sm_options (se_meta e))
        \<lparr>co_spec := (spec_of e)\<lparr>sp_name := name\<rparr>\<rparr>\<rparr>\<rparr>"

text \<open>The locked part of \<open>rename\<close>.\<close>

definition rename_locked :: "save_outcome \<Rightarrow> nat \<Rightarrow> string \<Rightarrow> string \<Rightarrow> 'c manager \<Rightarrow> 'c manager \<times> unit result" where
  "rename_locked out now i new_name m =
     (case holder_of new_name m of
        Some h \<Rightarrow>
          (m, Inl (if h = i then InvalidRequest (Msg ''sandbox {id} is already named {new_name}'' [S i, S new_name])
                   else name_in_use new_name (Some h)))
      | None \<Rightarrow>
          (case entry_of m i of
             None \<Rightarrow> (m, Inl (SandboxNotFound i))
           | Some e \<Rightarrow>
               (let e' = set_name new_name e
                in case persist_meta out (se_meta e') m of
                     (m', Inl err) \<Rightarrow> (m', Inl err)
                   | (m', Inr _) \<Rightarrow> (emit_meta now ERename (se_meta e') None (put_entry i e' m'), Inr ()))))"

section \<open>Extending the allowlist\<close>

definition new_domains :: "string list \<Rightarrow> string list \<Rightarrow> string list" where
  "new_domains known domains =
     foldl (\<lambda>added d. if d \<notin> set known \<and> d \<notin> set added then added @ [d] else added) [] domains"

definition extend_domains :: "string list \<Rightarrow> sandbox_entry \<Rightarrow> sandbox_entry" where
  "extend_domains added e =
     e\<lparr>se_meta := (se_meta e)\<lparr>sm_options := (sm_options (se_meta e))
        \<lparr>co_egress := (co_egress (sm_options (se_meta e)))
           \<lparr>ep_domains := ep_domains (co_egress (sm_options (se_meta e))) @ added\<rparr>\<rparr>\<rparr>\<rparr>"

text \<open>\<open>add_egress_allow\<close> after the reference is resolved; \<open>backend\<close> is the result of the backend call.\<close>

definition add_egress_allow :: "save_outcome \<Rightarrow> nat \<Rightarrow> api_error option \<Rightarrow> string \<Rightarrow> string list \<Rightarrow> 'c manager \<Rightarrow>
    'c manager \<times> string list result" where
  "add_egress_allow out now backend reference domains m =
     (case and_then (egress_domains domains) (\<lambda>_. resolve reference m) of
        Inl err \<Rightarrow> (m, Inl err)
      | Inr i \<Rightarrow>
          (case entry_of m i of
             None \<Rightarrow> (m, Inl (SandboxNotFound i))
           | Some e \<Rightarrow>
               (let policy = co_egress (sm_options (se_meta e));
                    added = new_domains (ep_domains policy) domains;
                    e' = extend_domains added e
                in case ep_mode policy of
                     EgressOpen \<Rightarrow> (m, Inr [])
                   | EgressDeny \<Rightarrow> (m, Inl (InvalidRequest
                       (Msg ''sandbox was created with egress deny; recreate it with --egress allowlist'' [])))
                   | EgressAllowlist \<Rightarrow>
                       if added = [] then (m, Inr added)
                       else if length (ep_domains policy) + length added > MAX_EGRESS_DOMAINS
                       then (m, Inl (InvalidRequest
                               (Msg ''the allowlist is limited to {} domains'' [N MAX_EGRESS_DOMAINS])))
                       else (case persist_meta out (se_meta e') m of
                               (m', Inl err) \<Rightarrow> (m', Inl err)
                             | (m', Inr _) \<Rightarrow>
                                 (let m2 = put_entry i e' m'
                                  in case backend of
                                       Some err \<Rightarrow> (m2, Inl err)
                                     | None \<Rightarrow> (emit_meta now EUpdate (se_meta e') None m2, Inr added))))))"

section \<open>Reloading\<close>

definition adopted_entry :: "nat \<Rightarrow> nat option \<Rightarrow> sandbox_meta \<Rightarrow> sandbox_entry" where
  "adopted_entry now dflt meta =
     (let timeout = unat (rl_timeout_seconds (co_resources (sm_options meta)))
      in rearm_exited_ttl dflt (unwrap_or (sm_finished_at meta) now) now
           \<lparr>se_egress = egress_new (sm_id meta) (co_egress (sm_options meta)),
            se_timeout = (if timeout > 0 then Some (sm_created_at meta + timeout * NANOS) else None), se_ttl = None,
            se_meta = meta, se_listeners = [], se_health = None\<rparr>)"

text \<open>
  \<open>adopt_persisted\<close>: \<open>deleted\<close> tells whether the store could delete a record, \<open>refused\<close> whether
  the backend refused the sandbox.
\<close>

definition adopt_persisted :: "nat \<Rightarrow> bool \<Rightarrow> bool \<Rightarrow> sandbox_meta \<Rightarrow> 'c manager \<Rightarrow> 'c manager" where
  "adopt_persisted now deleted refused meta m =
     (let timeout = unat (rl_timeout_seconds (co_resources (sm_options meta)));
          expired = (timeout > 0 \<and> sm_created_at meta + timeout * NANOS < now)
      in if \<not> mg_store m then m
         else if expired \<or> (sp_auto_remove (co_spec (sm_options meta)) \<and> sm_status meta \<noteq> Running)
         then (if deleted then m\<lparr>mg_disk := (mg_disk m)(sm_id meta := None)\<rparr> else m)
         else if mg_permits m = 0 \<or> refused then m
         else put_entry (sm_id meta) (adopted_entry now (mg_exited_ttl m) meta)
                (m\<lparr>mg_permits := mg_permits m - 1\<rparr>))"

text \<open>
  \<open>restore\<close>: the records the store loaded, each with the time it is looked at and the two outcomes.
  The starts at boot of \<open>due_at_boot\<close> are tasks of their own.
\<close>

definition restore :: "(nat \<times> bool \<times> bool \<times> sandbox_meta) list \<Rightarrow> 'c manager \<Rightarrow> 'c manager" where
  "restore metas m = fold (\<lambda>(now, deleted, refused, meta). adopt_persisted now deleted refused meta) metas m"

end
