(* ===== verification/Lifecycle.thy ===== *)
theory Lifecycle
  imports Manager
begin

text \<open>
  The operations of the sandbox manager as tasks that interleave, \<open>ward-core/src/sandbox/manager.rs\<close>.

  A task is a request or a background job with a program counter. One section of a task is what the
  code does between two points where it waits for something: at most one lock is taken, and nothing
  else runs in between. A section is a function of the task's place, the manager's state and an
  environment that holds the clock, the results of the calls the section makes to the backend, the disk
  and the port forwarder, and whether the event stream of a main process ended without an exit. A system is the manager with its tasks; a step runs a section of
  one of them, adds a task, or lets a main process end.
\<close>

record env =
  en_now :: nat
  en_save :: save_outcome
  en_backend :: "api_error option"
  en_paused :: bool
  en_id :: string
  en_pid :: string
  en_ports :: "published_port list result"
  en_write :: write_outcome
  en_owner :: "string result"
  en_closed :: bool
  en_removed :: "io_kind option"

section \<open>Stop\<close>

fun died_with :: "main_end \<Rightarrow> int option" where
  "died_with NoMain = Some 0"
| "died_with (MainExited code _) = Some code"
| "died_with MainUnknown = None"

definition main_end_of :: "(int \<times> bool) option \<Rightarrow> main_end" where
  "main_end_of ended =
     (case ended of
        None \<Rightarrow> MainUnknown
      | Some (raw, oom) \<Rightarrow> MainExited (decode_wait_status raw) (end_reason_of raw oom))"

definition recorded_status :: "string \<Rightarrow> 'c manager \<Rightarrow> sandbox_status result" where
  "recorded_status i m =
     (case entry_of m i of Some e \<Rightarrow> Inr (sm_status (se_meta e)) | None \<Rightarrow> Inl (SandboxNotFound i))"

definition not_running :: "string \<Rightarrow> api_error" where
  "not_running i = InvalidRequest (Msg ''Container {id} is not running'' [S i])"

text \<open>
  The wait after the stop signal, in seconds: the request's, else the sandbox's, else the default. A negative
  value is no limit, None.
\<close>

definition grace_period :: "int option \<Rightarrow> nat option" where
  "grace_period grace_seconds =
     (case grace_seconds of
        None \<Rightarrow> Some STOP_GRACE_SECONDS
      | Some seconds \<Rightarrow> (if 0 \<le> seconds then Some (nat seconds) else None))"

definition grace_for :: "string \<Rightarrow> int option \<Rightarrow> 'c manager \<Rightarrow> nat option" where
  "grace_for i requested m =
     grace_period (case requested of
       Some s \<Rightarrow> Some s
     | None \<Rightarrow> (case entry_of m i of Some e \<Rightarrow> sp_stop_timeout (spec_of e) | None \<Rightarrow> None))"

text \<open>
  \<open>thaw_if_paused\<close>, a section at a time: \<open>is_paused\<close> reads the recorded status and asks the backend only
  about a running sandbox, then the backend thaws it.
\<close>

datatype thaw_pc = ThStatus | ThAsk | ThThaw | ThEmit | ThDone "unit result"

fun thaw_section :: "env \<Rightarrow> string \<Rightarrow> thaw_pc \<Rightarrow> 'c manager \<Rightarrow> thaw_pc \<times> 'c manager" where
  "thaw_section en i ThStatus m =
     (case recorded_status i m of
        Inl err \<Rightarrow> (ThDone (Inl err), m)
      | Inr status \<Rightarrow> (if status = Running then ThAsk else ThDone (Inr ()), m))"
| "thaw_section en i ThAsk m =
     (case en_backend en of
        Some err \<Rightarrow> (ThDone (Inl err), m)
      | None \<Rightarrow> (if en_paused en then ThThaw else ThDone (Inr ()), m))"
| "thaw_section en i ThThaw m =
     (case en_backend en of
        Some err \<Rightarrow> (ThDone (Inl err), m)
      | None \<Rightarrow> (ThEmit, m))"
| "thaw_section en i ThEmit m = (ThDone (Inr ()), emit_event (en_now en) i EUnpause None m)"
| "thaw_section en i (ThDone r) m = (ThDone r, m)"

fun record_stopped :: "env \<Rightarrow> string \<Rightarrow> main_end \<Rightarrow> 'c manager \<Rightarrow> 'c manager \<times> unit result" where
  "record_stopped en i NoMain m = set_state (en_save en) (en_now en) i Stopped m"
| "record_stopped en i (MainExited code reason) m =
     record_ended (en_save en) (en_now en) i Stopped (Some code) (Some reason) m"
| "record_stopped en i MainUnknown m = record_state (en_save en) (en_now en) i Stopped None m"

datatype stop_pc =
    StBegin
  | StThaw sandbox_status sandbox_meta thaw_pc
  | StClose sandbox_status sandbox_meta
  | StSignal sandbox_status sandbox_meta
  | StWait sandbox_status sandbox_meta string
  | StForce sandbox_status sandbox_meta string
  | StBackend sandbox_status sandbox_meta main_end
  | StFailClose sandbox_status sandbox_meta "int option" api_error
  | StFailState sandbox_status sandbox_meta "int option" api_error
  | StFailDie sandbox_status sandbox_meta "int option" api_error
  | StPurge sandbox_status sandbox_meta main_end
  | StDereg sandbox_status sandbox_meta main_end
  | StRecord sandbox_status sandbox_meta main_end
  | StDie sandbox_status sandbox_meta main_end
  | StStop sandbox_meta
  | StDone "unit result"

definition emit_die_if_was_running :: "nat \<Rightarrow> sandbox_meta \<Rightarrow> sandbox_status \<Rightarrow> int option \<Rightarrow> 'c manager \<Rightarrow> 'c manager" where
  "emit_die_if_was_running now meta before code m =
     (if before = Running then emit_meta now EDie meta code m else m)"

text \<open>
  The section after a wait runs once the process has ended, its event stream has closed or the time is up. At
  \<open>StWait\<close> the time is the grace period, which need not have an end: then a process that lives on keeps the stop
  where it is. At \<open>StForce\<close> the process was sent SIGKILL and the wait is at most the default.
\<close>

fun stop_section :: "env \<Rightarrow> nat option \<Rightarrow> string \<Rightarrow> stop_pc \<Rightarrow> 'c manager \<Rightarrow> stop_pc \<times> 'c manager" where
  "stop_section en grace i StBegin m =
     (case begin_stop (en_save en) (en_now en) i m of
        (m', Inl err) \<Rightarrow> (StDone (Inl err), m')
      | (m', Inr None) \<Rightarrow> (StDone (Inr ()), m')
      | (m', Inr (Some (before, meta))) \<Rightarrow> (StThaw before meta ThStatus, m'))"
| "stop_section en grace i (StThaw before meta pc) m =
     (case thaw_section en i pc m of
        (ThDone _, m') \<Rightarrow> (StClose before meta, m')
      | (pc', m') \<Rightarrow> (StThaw before meta pc', m'))"
| "stop_section en grace i (StClose before meta) m = (StSignal before meta, close_listeners i m)"
| "stop_section en grace i (StSignal before meta) m =
     (case mg_mains m i of
        None \<Rightarrow> (StBackend before meta NoMain, m)
      | Some main \<Rightarrow> (StWait before meta (mp_pid main), m))"
| "stop_section en grace i (StWait before meta pid) m =
     (if mg_exit m pid \<noteq> None then (StBackend before meta (main_end_of (mg_exit m pid)), m)
      else if en_closed en \<or> grace \<noteq> None then (StForce before meta pid, m)
      else (StWait before meta pid, m))"
| "stop_section en grace i (StForce before meta pid) m = (StBackend before meta (main_end_of (mg_exit m pid)), m)"
| "stop_section en grace i (StBackend before meta me) m =
     (case en_backend en of
        Some err \<Rightarrow> (StFailClose before meta (died_with me) err, m)
      | None \<Rightarrow> (StPurge before meta me, m))"
| "stop_section en grace i (StFailClose before meta code err) m =
     (StFailState before meta code err, close_listeners i m)"
| "stop_section en grace i (StFailState before meta code err) m =
     (StFailDie before meta code err, fst (set_state (en_save en) (en_now en) i Failed m))"
| "stop_section en grace i (StFailDie before meta code err) m =
     (StDone (Inl err), emit_die_if_was_running (en_now en) meta before code m)"
| "stop_section en grace i (StPurge before meta me) m = (StDereg before meta me, purge_processes i m)"
| "stop_section en grace i (StDereg before meta me) m = (StRecord before meta me, deregister i m)"
| "stop_section en grace i (StRecord before meta me) m =
     (case record_stopped en i me m of
        (m', Inl err) \<Rightarrow> (StDone (Inl err), m')
      | (m', Inr _) \<Rightarrow> (StDie before meta me, m'))"
| "stop_section en grace i (StDie before meta me) m =
     (StStop meta, emit_die_if_was_running (en_now en) meta before (died_with me) m)"
| "stop_section en grace i (StStop meta) m = (StDone (Inr ()), emit_meta (en_now en) EStop meta None m)"
| "stop_section en grace i (StDone r) m = (StDone r, m)"

section \<open>Start\<close>

datatype start_pc =
    SaBegin
  | SaClose communication_policy
  | SaBoot communication_policy
  | SaReopen communication_policy
  | SaSetListeners communication_policy "published_port list"
  | SaQuota communication_policy
  | SaFailClose api_error
  | SaFailState api_error
  | SaCommit communication_policy
  | SaEmit
  | SaSpawn
  | SaRecordMain string bool
  | SaFailMain api_error
  | SaFailMainClose api_error
  | SaFailMainDie api_error
  | SaFailMainDereg api_error
  | SaDone "unit result"

text \<open>A main process that was recorded: its watcher \<open>mark_exited_on_main_end\<close> starts.\<close>

type_synonym watch = "string \<times> bool"

text \<open>
  The first part of \<open>spawn_main\<close>: nothing to run, a refusal, or the process that started, with
  whether the sandbox removes itself.
\<close>

datatype spawn_result = NothingToRun | SpawnFailed api_error | Spawned string bool

definition spawn_main :: "env \<Rightarrow> string \<Rightarrow> 'c manager \<Rightarrow> spawn_result" where
  "spawn_main en i m =
     (case entry_of m i of
        None \<Rightarrow> SpawnFailed (SandboxNotFound i)
      | Some e \<Rightarrow>
          if sp_command (spec_of e) = [] then NothingToRun
          else (case en_backend en of
                  Some err \<Rightarrow> SpawnFailed err
                | None \<Rightarrow> Spawned (en_pid en) (sp_auto_remove (spec_of e))))"

text \<open>The quota is applied after a boot when the recorded limits have one.\<close>

definition reapply_cpu_quota :: "env \<Rightarrow> string \<Rightarrow> 'c manager \<Rightarrow> unit result" where
  "reapply_cpu_quota en i m =
     (case entry_of m i of
        None \<Rightarrow> Inl (SandboxNotFound i)
      | Some e \<Rightarrow>
          (let quota = rl_nano_cpus (co_resources (sm_options (se_meta e)))
           in if quota = 0 then Inr ()
              else (case en_backend en of
                      Some err \<Rightarrow> Inl (Internal (Msg ''cannot apply the CPU limit of {} nano CPUs: {e}'' [N (unat quota)]))
                    | None \<Rightarrow> Inr ())))"

fun start_section :: "env \<Rightarrow> string \<Rightarrow> start_pc \<Rightarrow> 'c manager \<Rightarrow> start_pc \<times> 'c manager \<times> watch option" where
  "start_section en i SaBegin m =
     (case begin_start (en_save en) (en_now en) i m of
        (m', Inl err) \<Rightarrow> (SaDone (Inl err), m', None)
      | (m', Inr None) \<Rightarrow> (SaDone (Inr ()), m', None)
      | (m', Inr (Some comms)) \<Rightarrow> (SaClose comms, m', None))"
| "start_section en i (SaClose comms) m = (SaBoot comms, close_listeners i m, None)"
| "start_section en i (SaBoot comms) m =
     (case en_backend en of
        Some err \<Rightarrow> (SaFailClose err, m, None)
      | None \<Rightarrow> (SaReopen comms, m, None))"
| "start_section en i (SaReopen comms) m =
     (case entry_of m i of
        None \<Rightarrow> (SaQuota comms, m, None)
      | Some _ \<Rightarrow>
          (case en_ports en of
             Inl err \<Rightarrow> (SaFailClose err, m, None)
           | Inr ports \<Rightarrow> (SaSetListeners comms ports, m, None)))"
| "start_section en i (SaSetListeners comms ports) m = (SaQuota comms, set_listeners i ports m, None)"
| "start_section en i (SaQuota comms) m =
     (case reapply_cpu_quota en i m of
        Inl err \<Rightarrow> (SaFailClose err, m, None)
      | Inr _ \<Rightarrow> (SaCommit comms, m, None))"
| "start_section en i (SaFailClose err) m = (SaFailState err, close_listeners i m, None)"
| "start_section en i (SaFailState err) m =
     (SaDone (Inl err), fst (set_state (en_save en) (en_now en) i Failed m), None)"
| "start_section en i (SaCommit comms) m =
     (case commit_running_and_register (en_save en) (en_now en) i comms m of
        (m', Inl err) \<Rightarrow> (SaDone (Inl err), m', None)
      | (m', Inr _) \<Rightarrow> (SaEmit, m', None))"
| "start_section en i SaEmit m = (SaSpawn, emit_event (en_now en) i EStart None m, None)"
| "start_section en i SaSpawn m =
     (case spawn_main en i m of
        NothingToRun \<Rightarrow> (SaDone (Inr ()), m, None)
      | SpawnFailed err \<Rightarrow> (SaFailMain err, m, None)
      | Spawned pid auto \<Rightarrow> (SaRecordMain pid auto, m, None))"
| "start_section en i (SaRecordMain pid auto) m =
     (case record_main i pid True True m of
        (m', Inl err) \<Rightarrow> (SaFailMain err, m', None)
      | (m', Inr _) \<Rightarrow> (SaDone (Inr ()), m', Some (pid, auto)))"
| "start_section en i (SaFailMain err) m =
     (case fail_main_start (en_save en) (en_now en) i m of
        (m', False) \<Rightarrow> (SaDone (Inl err), m', None)
      | (m', True) \<Rightarrow> (SaFailMainClose err, m', None))"
| "start_section en i (SaFailMainClose err) m = (SaFailMainDie err, close_listeners i m, None)"
| "start_section en i (SaFailMainDie err) m =
     (SaFailMainDereg err, emit_event (en_now en) i EDie (Some EXEC_FAILED_EXIT) m, None)"
| "start_section en i (SaFailMainDereg err) m = (SaDone (Inl err), deregister i m, None)"
| "start_section en i (SaDone r) m = (SaDone r, m, None)"

section \<open>Volumes in use\<close>

text \<open>\<open>volume_users_in\<close>: the sandboxes that mount the volume.\<close>

definition volume_users_in :: "'c manager \<Rightarrow> string \<Rightarrow> string list" where
  "volume_users_in m name =
     map fst (filter (\<lambda>(_, e). list_ex (\<lambda>mt. mnt_volume mt = Some name) (co_mounts (sm_options (se_meta e))))
       (mg_entries m))"

definition anonymous_names :: "mount list \<Rightarrow> string list" where
  "anonymous_names mounts = List.map_filter mnt_volume (filter mnt_anonymous mounts)"

definition on_volumes :: "(volume_manager \<Rightarrow> volume_manager) \<Rightarrow> 'c manager \<Rightarrow> 'c manager" where
  "on_volumes f m = m\<lparr>mg_volumes := map_option f (mg_volumes m)\<rparr>"

text \<open>
  \<open>remove_if_unused\<close> of a volume \<open>v\<close>, a section at a time: find it, read its users under the entries lock, look at
  the claims, remove the record and the entry, remove the directory. The write lock on the volumes, which
  the code holds through the first four, is not part of the sections: theory \<open>Volume\<close> has it.
\<close>

datatype removal_pc =
    VlFind
  | VlUsers volume_entry
  | VlCheck volume_entry "string list"
  | VlCommit
  | VlDir
  | VlDone "unit result"

definition with_volumes :: "(volume_manager \<Rightarrow> volume_manager \<times> unit result) \<Rightarrow> 'c manager \<Rightarrow> 'c manager \<times> unit result" where
  "with_volumes f m =
     (case mg_volumes m of
        None \<Rightarrow> (m, Inr ())
      | Some vm \<Rightarrow> (case f vm of (vm', r) \<Rightarrow> (m\<lparr>mg_volumes := Some vm'\<rparr>, r)))"

fun removal_section :: "env \<Rightarrow> string \<Rightarrow> removal_pc \<Rightarrow> 'c manager \<Rightarrow> removal_pc \<times> 'c manager" where
  "removal_section en v VlFind m =
     (case mg_volumes m of
        None \<Rightarrow> (VlDone (Inr ()), m)
      | Some vm \<Rightarrow> (case remove_begin v vm of Inl err \<Rightarrow> VlDone (Inl err) | Inr e \<Rightarrow> VlUsers e, m))"
| "removal_section en v (VlUsers e) m = (VlCheck e (volume_users_in m (ve_name e)), m)"
| "removal_section en v (VlCheck e users) m =
     (case with_volumes (\<lambda>vm. (vm, remove_check users e vm)) m of
        (m', Inl err) \<Rightarrow> (VlDone (Inl err), m')
      | (m', Inr _) \<Rightarrow> (VlCommit, m'))"
| "removal_section en v VlCommit m =
     (case with_volumes (remove_commit (en_removed en) v) m of
        (m', Inl err) \<Rightarrow> (VlDone (Inl err), m')
      | (m', Inr _) \<Rightarrow> (VlDir, m'))"
| "removal_section en v VlDir m =
     (case with_volumes (remove_dir (en_removed en) v) m of (m', r) \<Rightarrow> (VlDone r, m'))"
| "removal_section en v (VlDone r) m = (VlDone r, m)"

definition volume_named :: "string \<Rightarrow> 'c manager \<Rightarrow> string option" where
  "volume_named name m =
     (case mg_volumes m of
        None \<Rightarrow> None
      | Some vm \<Rightarrow> map_option ve_id (find (\<lambda>e. ve_name e = name) (map snd (vm_volumes vm))))"

text \<open>\<open>release_anonymous_volumes\<close>: one volume after the other.\<close>

datatype release_pc =
    RlNext "string list"
  | RlRemove "string list" string removal_pc

fun release_section :: "env \<Rightarrow> release_pc \<Rightarrow> 'c manager \<Rightarrow> release_pc \<times> 'c manager" where
  "release_section en (RlNext []) m = (RlNext [], m)"
| "release_section en (RlNext (name # names)) m =
     (case volume_named name m of
        None \<Rightarrow> (RlNext names, m)
      | Some v \<Rightarrow> (RlRemove names v VlFind, m))"
| "release_section en (RlRemove names v pc) m =
     (case removal_section en v pc m of
        (VlDone _, m') \<Rightarrow> (RlNext names, m')
      | (pc', m') \<Rightarrow> (RlRemove names v pc', m'))"

section \<open>Remove\<close>

datatype remove_pc =
    RmBegin bool
  | RmPurge "sandbox_entry option" "end_reason option"
  | RmMain "sandbox_entry option" "end_reason option"
  | RmDereg "sandbox_entry option" "end_reason option"
  | RmBackend "sandbox_entry option" "end_reason option"
  | RmRelease sandbox_entry "end_reason option" "api_error option" release_pc
  | RmEvents sandbox_entry "end_reason option" "api_error option"
  | RmDone "api_error option"

text \<open>
  \<open>cleanup_sandbox_inner\<close> and \<open>finish_cleanup\<close>. The listeners of the entry it took are closed and
  the backend removes the sandbox in one section: nothing the manager shares is touched.
\<close>

fun remove_section :: "env \<Rightarrow> string \<Rightarrow> remove_pc \<Rightarrow> 'c manager \<Rightarrow> remove_pc \<times> 'c manager" where
  "remove_section en i (RmBegin from_timeout) m =
     (case take_entry i m of
        (m', removed) \<Rightarrow> (RmPurge removed (if from_timeout then Some REndTimeout else None), m'))"
| "remove_section en i (RmPurge removed reason) m = (RmMain removed reason, purge_processes i m)"
| "remove_section en i (RmMain removed reason) m = (RmDereg removed reason, remove_main i m)"
| "remove_section en i (RmDereg removed reason) m = (RmBackend removed reason, deregister i m)"
| "remove_section en i (RmBackend removed reason) m =
     (case removed of
        None \<Rightarrow> (RmDone (en_backend en), m)
      | Some e \<Rightarrow>
          (RmRelease e reason (en_backend en)
             (RlNext (if sp_auto_remove (spec_of e) then anonymous_names (co_mounts (sm_options (se_meta e))) else [])),
           m))"
| "remove_section en i (RmRelease e reason r pc) m =
     (if pc = RlNext [] then (RmEvents e reason r, m)
      else (case release_section en pc m of (pc', m') \<Rightarrow> (RmRelease e reason r pc', m')))"
| "remove_section en i (RmEvents e reason r) m =
     (RmDone r, cleanup_events (en_now en) (se_meta e) reason m)"
| "remove_section en i (RmDone r) m = (RmDone r, m)"

text \<open>\<open>remove_with_volumes\<close> once the reference is resolved.\<close>

datatype remove_op_pc =
    RvMounts bool
  | RvClean "string list" remove_pc
  | RvRelease release_pc
  | RvDone "api_error option"

fun remove_op_section :: "env \<Rightarrow> string \<Rightarrow> remove_op_pc \<Rightarrow> 'c manager \<Rightarrow> remove_op_pc \<times> 'c manager" where
  "remove_op_section en i (RvMounts remove_volumes) m =
     (RvClean (case entry_of m i of
                 Some e \<Rightarrow> if remove_volumes then anonymous_names (co_mounts (sm_options (se_meta e))) else []
               | None \<Rightarrow> []) (RmBegin False), m)"
| "remove_op_section en i (RvClean names pc) m =
     (case remove_section en i pc m of
        (RmDone (Some err), m') \<Rightarrow> (RvDone (Some err), m')
      | (RmDone None, m') \<Rightarrow> (RvRelease (RlNext names), m')
      | (pc', m') \<Rightarrow> (RvClean names pc', m'))"
| "remove_op_section en i (RvRelease pc) m =
     (if pc = RlNext [] then (RvDone None, m)
      else (case release_section en pc m of (pc', m') \<Rightarrow> (RvRelease pc', m')))"
| "remove_op_section en i (RvDone r) m = (RvDone r, m)"

section \<open>The watcher of a main process, and restarts\<close>

datatype watch_pc = WaWait | WaAutoRemove | WaRemove remove_pc | WaDone

text \<open>A watcher waits until its process has ended, or its event stream has.\<close>

fun watch_section :: "env \<Rightarrow> string \<Rightarrow> string \<Rightarrow> bool \<Rightarrow> watch_pc \<Rightarrow> 'c manager \<Rightarrow> watch_pc \<times> 'c manager" where
  "watch_section en i pid auto WaWait m =
     (case mg_exit m pid of
        None \<Rightarrow> (if en_closed en then WaDone else WaWait, m)
      | Some (raw, oom) \<Rightarrow>
          (case mark_exited (en_save en) (en_now en) i pid raw oom m of
             (m', marked) \<Rightarrow> (if marked \<and> auto then WaAutoRemove else WaDone, m')))"
| "watch_section en i pid auto WaAutoRemove m =
     (case auto_remove_take i pid m of
        (m', None) \<Rightarrow> (WaDone, m')
      | (m', Some e) \<Rightarrow> (WaRemove (RmPurge (Some e) None), m'))"
| "watch_section en i pid auto (WaRemove pc) m =
     (case remove_section en i pc m of
        (RmDone r, m') \<Rightarrow> (WaDone, m')
      | (pc', m') \<Rightarrow> (WaRemove pc', m'))"
| "watch_section en i pid auto WaDone m = (WaDone, m)"

text \<open>The exited TTL fires: \<open>remove_if_still_ended\<close>.\<close>

datatype ttl_pc = TtTake | TtRemove remove_pc | TtDone

fun ttl_section :: "env \<Rightarrow> string \<Rightarrow> ttl_pc \<Rightarrow> 'c manager \<Rightarrow> ttl_pc \<times> 'c manager" where
  "ttl_section en i TtTake m =
     (case remove_if_still_ended_take i m of
        (m', None) \<Rightarrow> (TtDone, m')
      | (m', Some e) \<Rightarrow> (TtRemove (RmPurge (Some e) None), m'))"
| "ttl_section en i (TtRemove pc) m =
     (case remove_section en i pc m of
        (RmDone r, m') \<Rightarrow> (TtDone, m')
      | (pc', m') \<Rightarrow> (TtRemove pc', m'))"
| "ttl_section en i TtDone m = (TtDone, m)"

text \<open>\<open>restart_after_exit\<close>: the delay, the claim, the start.\<close>

datatype restart_pc = ReDelay | ReClaim | ReStart start_pc

fun restart_section :: "env \<Rightarrow> restart_request \<Rightarrow> restart_pc \<Rightarrow> 'c manager \<Rightarrow> restart_pc \<times> 'c manager \<times> watch option" where
  "restart_section en rq ReDelay m = (ReClaim, restart_delay rq m, None)"
| "restart_section en rq ReClaim m =
     (case claim_restart (en_save en) rq m of
        (m', True) \<Rightarrow> (ReStart SaBegin, m', None)
      | (m', False) \<Rightarrow> (ReStart (SaDone (Inr ())), m', None))"
| "restart_section en rq (ReStart pc) m =
     (case start_section en (rr_id rq) pc m of (pc', m', w) \<Rightarrow> (ReStart pc', m', w))"

section \<open>Create\<close>

text \<open>
  \<open>create\<close> once the request has passed the checks that only look at the request. Its locals are the
  options it builds, the volume claims, the name reservation and the permit it holds, and from the
  boot on the new sandbox. Dropping what is held at a return is one section.
\<close>

record create_locals =
  cl_opts :: create_opts
  cl_claims :: "string list"
  cl_reserved :: bool
  cl_permit :: bool
  cl_id :: string
  cl_created_at :: nat
  cl_token_hash :: string
  cl_secrets :: bool
  cl_listeners :: "published_port list"
  cl_volumes_from :: "string list"
  cl_tmpfs :: "string list"
  cl_presented :: string

datatype create_pc =
    CrMounts "mount list"
  | CrEnsure mount string "mount list"
  | CrInherit "string list"
  | CrInheritFrom string string bool "string list"
  | CrReserve
  | CrCheckName
  | CrAuthorize
  | CrPermit
  | CrImage
  | CrBoot
  | CrListen
  | CrPersist
  | CrInsert
  | CrDropName
  | CrRegister
  | CrEmitCreate
  | CrEmitStart
  | CrSecrets
  | CrSpawn
  | CrRecordMain string bool
  | CrFailMain api_error
  | CrFailMainClose api_error
  | CrFailMainDie api_error
  | CrRemove api_error
  | CrRemoving api_error string remove_op_pc
  | CrFinish
  | CrAbort api_error
  | CrDone "string result"

definition cl_name :: "create_locals \<Rightarrow> string" where
  "cl_name l = sp_name (co_spec (cl_opts l))"

definition add_mount :: "mount \<Rightarrow> create_locals \<Rightarrow> create_locals" where
  "add_mount mt l = l\<lparr>cl_opts := (cl_opts l)\<lparr>co_mounts := co_mounts (cl_opts l) @ [mt]\<rparr>\<rparr>"

text \<open>The second half of \<open>claim_volume\<close>: the claim is held, the volume is found or made.\<close>

definition provide_volume :: "(volume_meta \<Rightarrow> bytes option) \<Rightarrow> env \<Rightarrow> mount \<Rightarrow> string \<Rightarrow> 'c manager \<Rightarrow> 'c manager \<times> string result" where
  "provide_volume to_json en mt name m =
     (case mg_volumes m of
        None \<Rightarrow> (m, Inl (InvalidRequest (Msg ''this daemon cannot mount named volumes'' [])))
      | Some vm \<Rightarrow>
          (case (if mnt_anonymous mt then volume_create_new to_json (en_write en) (en_id en) (en_now en) name vm
                 else volume_ensure to_json (en_write en) (en_id en) (en_now en) name vm) of
             (vm', r) \<Rightarrow> (m\<lparr>mg_volumes := Some vm'\<rparr>, map_sum id pv_mount_path r)))"

text \<open>
  The mounts of one source sandbox, read and claimed under the entries lock: a mount whose target is
  taken is skipped.
\<close>

definition inherit_one :: "bool \<Rightarrow> mount \<Rightarrow> create_locals \<times> 'c manager \<Rightarrow> create_locals \<times> 'c manager" where
  "inherit_one ro mt lm =
     (case lm of (l, m) \<Rightarrow>
        if mnt_target mt \<in> set (cl_tmpfs l) \<or> mnt_target mt \<in> mnt_target ` set (co_mounts (cl_opts l))
        then (l, m)
        else (case (mnt_volume mt, mg_volumes m) of
                (Some name, Some vm) \<Rightarrow>
                  (add_mount (mt\<lparr>mnt_readonly := mnt_readonly mt \<or> ro\<rparr>) (l\<lparr>cl_claims := cl_claims l @ [name]\<rparr>),
                   m\<lparr>mg_volumes := Some (volume_claim name vm)\<rparr>)
              | _ \<Rightarrow> (add_mount (mt\<lparr>mnt_readonly := mnt_readonly mt \<or> ro\<rparr>) l, m)))"

definition inherit_from :: "bool \<Rightarrow> mount list \<Rightarrow> create_locals \<times> 'c manager \<Rightarrow> create_locals \<times> 'c manager" where
  "inherit_from ro mts lm = fold (inherit_one ro) mts lm"

text \<open>A \<open>volumes_from\<close> entry: the sandbox and whether its mounts become read only.\<close>

definition volumes_from_spec :: "string \<Rightarrow> (string \<times> bool) result" where
  "volumes_from_spec spec =
     (case split_once (CHR '':'') spec of
        None \<Rightarrow> Inr (spec, False)
      | Some (reference, mode) \<Rightarrow>
          if mode = ''rw'' then Inr (reference, False)
          else if mode = ''ro'' then Inr (reference, True)
          else Inl (InvalidRequest (Msg ''invalid volumes-from mode {other} in {spec}: use ro or rw'' [S mode, S spec])))"

definition new_meta :: "create_locals \<Rightarrow> sandbox_meta" where
  "new_meta l =
     \<lparr>sm_id = cl_id l, sm_options = cl_opts l, sm_created_at = cl_created_at l, sm_status = Running,
      sm_exit_code = None,
      sm_started_at = (if sp_command (co_spec (cl_opts l)) = [] then None else Some (cl_created_at l)),
      sm_finished_at = None, sm_end_reason = None, sm_token_hash = cl_token_hash l,
      sm_had_secrets = cl_secrets l, sm_restart_count = 0, sm_manually_stopped = False\<rparr>"

definition new_entry :: "create_locals \<Rightarrow> nat \<Rightarrow> sandbox_entry" where
  "new_entry l now =
     (let timeout = unat (rl_timeout_seconds (co_resources (cl_opts l)))
      in \<lparr>se_egress = egress_new (cl_id l) (co_egress (cl_opts l)),
          se_timeout = (if timeout > 0 then Some (now + timeout * NANOS) else None), se_ttl = None,
          se_meta = new_meta l, se_listeners = cl_listeners l, se_health = None\<rparr>)"

definition release_held :: "create_locals \<Rightarrow> 'c manager \<Rightarrow> 'c manager" where
  "release_held l m =
     (let m1 = (if cl_permit l then m\<lparr>mg_permits := mg_permits m + 1\<rparr> else m);
          m2 = (if cl_reserved l then reservation_drop (cl_name l) m1 else m1)
      in on_volumes (fold claim_drop (cl_claims l)) m2)"

text \<open>
  What is fixed for the life of the daemon: the encoder of volume records, the token hash, and whether
  the network backend is the one that can enforce an allowlist.
\<close>

record world =
  wd_json :: "volume_meta \<Rightarrow> bytes option"
  wd_sha256 :: "bytes \<Rightarrow> u8 list"
  wd_smoltcp :: bool

fun create_section :: "world \<Rightarrow> env \<Rightarrow> create_pc \<Rightarrow> create_locals \<Rightarrow> 'c manager \<Rightarrow>
    create_pc \<times> create_locals \<times> 'c manager \<times> watch option" where
  "create_section wd en (CrMounts []) l m = (CrInherit (cl_volumes_from l), l, m, None)"
| "create_section wd en (CrMounts (mt # mts)) l m =
     (case mnt_volume mt of
        None \<Rightarrow>
          (case mount_ok (mnt_source mt) (mnt_target mt) (mnt_readonly mt) (mg_allow_host_mounts m) of
             Inl err \<Rightarrow> (CrAbort err, l, m, None)
           | Inr _ \<Rightarrow> (CrMounts mts, add_mount (mt\<lparr>mnt_anonymous := False\<rparr>) l, m, None))
      | Some name \<Rightarrow>
          (case and_then (volume_mount name (mnt_target mt))
                  (\<lambda>_. if mnt_anonymous mt then anonymous_volume_name name else Inr ()) of
             Inl err \<Rightarrow> (CrAbort err, l, m, None)
           | Inr _ \<Rightarrow>
               (case mg_volumes m of
                  None \<Rightarrow> (CrAbort (InvalidRequest (Msg ''this daemon cannot mount named volumes'' [])), l, m, None)
                | Some vm \<Rightarrow>
                    (CrEnsure mt name mts, l\<lparr>cl_claims := cl_claims l @ [name]\<rparr>,
                     m\<lparr>mg_volumes := Some (volume_claim name vm)\<rparr>, None))))"
| "create_section wd en (CrEnsure mt name mts) l m =
     (case provide_volume (wd_json wd) en mt name m of
        (m', Inl err) \<Rightarrow> (CrAbort err, l, m', None)
      | (m', Inr source) \<Rightarrow> (CrMounts mts, add_mount (mt\<lparr>mnt_source := source\<rparr>) l, m', None))"
| "create_section wd en (CrInherit []) l m =
     (case and_then (try_each (\<lambda>mt. if mnt_volume mt = None
              then mount_ok (mnt_source mt) (mnt_target mt) (mnt_readonly mt) (mg_allow_host_mounts m) else Inr ())
             (co_mounts (cl_opts l))) (\<lambda>_. try_each (\<lambda>vid. entity_id vid ''volume'') (co_volume_ids (cl_opts l))) of
        Inl err \<Rightarrow> (CrAbort err, l, m, None)
      | Inr _ \<Rightarrow> (CrReserve, l, m, None))"
| "create_section wd en (CrInherit (spec # specs)) l m =
     (case and_then (volumes_from_spec spec) (\<lambda>(reference, ro).
             and_then (resolve reference m) (\<lambda>i. Inr (i, reference, ro))) of
        Inl err \<Rightarrow> (CrAbort err, l, m, None)
      | Inr (i, reference, ro) \<Rightarrow> (CrInheritFrom i reference ro specs, l, m, None))"
| "create_section wd en (CrInheritFrom i reference ro specs) l m =
     (case entry_of m i of
        None \<Rightarrow> (CrAbort (SandboxNotFound reference), l, m, None)
      | Some e \<Rightarrow>
          (case inherit_from ro (co_mounts (sm_options (se_meta e))) (l, m) of
             (l', m') \<Rightarrow> (CrInherit specs, l', m', None)))"
| "create_section wd en CrReserve l m =
     (if cl_name l = '''' then (CrAuthorize, l, m, None)
      else (case sandbox_name (cl_name l) of
              Inl err \<Rightarrow> (CrAbort err, l, m, None)
            | Inr _ \<Rightarrow>
                (case reservation_claim (cl_name l) m of
                   (m', False) \<Rightarrow> (CrAbort (name_in_use (cl_name l) None), l, m', None)
                 | (m', True) \<Rightarrow> (CrCheckName, l\<lparr>cl_reserved := True\<rparr>, m', None))))"
| "create_section wd en CrCheckName l m =
     (case holder_of (cl_name l) m of
        Some h \<Rightarrow> (CrAbort (name_in_use (cl_name l) (Some h)), l, m, None)
      | None \<Rightarrow> (CrAuthorize, l, m, None))"
| "create_section wd en CrAuthorize l m =
     (if ep_mode (co_egress (cl_opts l)) = EgressAllowlist \<and> \<not> wd_smoltcp wd
      then (CrAbort (InvalidRequest (Msg ''egress mode Allowlist requires the smoltcp network backend'' [])), l, m, None)
      else case co_from_snapshot (cl_opts l) of
        None \<Rightarrow> (CrPermit, l, m, None)
      | Some _ \<Rightarrow>
          (case and_then (en_owner en) (\<lambda>owner. authorize (wd_sha256 wd) owner (cl_presented l) m m) of
             Inl err \<Rightarrow> (CrAbort err, l, m, None)
           | Inr _ \<Rightarrow> (CrPermit, l, m, None)))"
| "create_section wd en CrPermit l m =
     (if mg_permits m = 0
      then (CrAbort (InvalidRequest (Msg ''sandbox limit reached ({}/{})''
              [N (length (mg_entries m)), N (mg_max_sandboxes m)])), l, m, None)
      else (CrImage, l\<lparr>cl_permit := True, cl_id := en_id en\<rparr>, m\<lparr>mg_permits := mg_permits m - 1\<rparr>, None))"
| "create_section wd en CrImage l m =
     (case en_backend en of
        Some err \<Rightarrow> (CrAbort err, l, m, None)
      | None \<Rightarrow> (CrBoot, l, m, None))"
| "create_section wd en CrBoot l m =
     (case en_backend en of
        Some err \<Rightarrow> (CrAbort err, l, m, None)
      | None \<Rightarrow> (CrListen, l\<lparr>cl_created_at := en_now en\<rparr>, m, None))"
| "create_section wd en CrListen l m =
     (case en_ports en of
        Inl err \<Rightarrow> (CrAbort err, l, m, None)
      | Inr ports \<Rightarrow>
          (CrPersist,
           l\<lparr>cl_listeners := ports,
             cl_opts := (cl_opts l)\<lparr>co_spec := (co_spec (cl_opts l))\<lparr>sp_published_ports := ports\<rparr>\<rparr>\<rparr>, m, None))"
| "create_section wd en CrPersist l m =
     (case persist_meta (en_save en) (new_meta l) m of
        (m', Inl err) \<Rightarrow> (CrAbort err, l, m', None)
      | (m', Inr _) \<Rightarrow> (CrInsert, l, m', None))"
| "create_section wd en CrInsert l m =
     (CrDropName, l\<lparr>cl_permit := False\<rparr>, put_entry (cl_id l) (new_entry l (en_now en)) m, None)"
| "create_section wd en CrDropName l m =
     (CrRegister, l\<lparr>cl_reserved := False\<rparr>, if cl_reserved l then reservation_drop (cl_name l) m else m, None)"
| "create_section wd en CrRegister l m =
     (CrEmitCreate, l,
      m\<lparr>mg_broker := register_sandbox (cl_id l) (co_comms (cl_opts l)) (mg_broker m), mg_active := mg_active m + 1\<rparr>, None)"
| "create_section wd en CrEmitCreate l m = (CrEmitStart, l, emit_event (en_now en) (cl_id l) ECreate None m, None)"
| "create_section wd en CrEmitStart l m = (CrSecrets, l, emit_event (en_now en) (cl_id l) EStart None m, None)"
| "create_section wd en CrSecrets l m =
     (case (if cl_secrets l then en_backend en else None) of
        Some err \<Rightarrow> (CrFailMain err, l, m, None)
      | None \<Rightarrow> (CrSpawn, l, m, None))"
| "create_section wd en CrSpawn l m =
     (case spawn_main en (cl_id l) m of
        NothingToRun \<Rightarrow> (CrFinish, l, m, None)
      | SpawnFailed err \<Rightarrow> (CrFailMain err, l, m, None)
      | Spawned pid auto \<Rightarrow> (CrRecordMain pid auto, l, m, None))"
| "create_section wd en (CrRecordMain pid auto) l m =
     (case record_main (cl_id l) pid True True m of
        (m', Inl err) \<Rightarrow> (CrFailMain err, l, m', None)
      | (m', Inr _) \<Rightarrow> (CrFinish, l, m', Some (pid, auto)))"
| "create_section wd en (CrFailMain err) l m =
     (case fail_main_start (en_save en) (en_now en) (cl_id l) m of
        (m', False) \<Rightarrow> (CrRemove err, l, m', None)
      | (m', True) \<Rightarrow> (CrFailMainClose err, l, m', None))"
| "create_section wd en (CrFailMainClose err) l m = (CrFailMainDie err, l, close_listeners (cl_id l) m, None)"
| "create_section wd en (CrFailMainDie err) l m =
     (CrRemove err, l, emit_event (en_now en) (cl_id l) EDie (Some EXEC_FAILED_EXIT) m, None)"
| "create_section wd en (CrRemove err) l m =
     (case resolve (cl_id l) m of
        Inl _ \<Rightarrow> (CrAbort err, l, m, None)
      | Inr i \<Rightarrow> (CrRemoving err i (RvMounts False), l, m, None))"
| "create_section wd en (CrRemoving err i pc) l m =
     (case remove_op_section en i pc m of
        (RvDone r, m') \<Rightarrow> (CrAbort err, l, m', None)
      | (pc', m') \<Rightarrow> (CrRemoving err i pc', l, m', None))"
| "create_section wd en CrFinish l m =
     (CrDone (Inr (cl_id l)), l\<lparr>cl_claims := []\<rparr>, release_held l (m\<lparr>mg_active := mg_active m + 1\<rparr>), None)"
| "create_section wd en (CrAbort err) l m =
     (CrDone (Inl err), l\<lparr>cl_claims := [], cl_reserved := False, cl_permit := False\<rparr>, release_held l m, None)"
| "create_section wd en (CrDone r) l m = (CrDone r, l, m, None)"

section \<open>The operations of clients\<close>

text \<open>
  \<open>stop_with_signal\<close> once the reference is resolved: the grace period, the stop, the description of the
  sandbox, which the backend is asked for, and a sandbox that removes itself goes after the stop.
\<close>

datatype stop_op_pc =
    SpGrace "int option"
  | SpStop "nat option" stop_pc
  | SpInfo
  | SpAuto
  | SpRemove remove_op_pc
  | SpDone "unit result"

fun stop_op_section :: "env \<Rightarrow> string \<Rightarrow> stop_op_pc \<Rightarrow> 'c manager \<Rightarrow> stop_op_pc \<times> 'c manager" where
  "stop_op_section en i (SpGrace requested) m = (SpStop (grace_for i requested m) StBegin, m)"
| "stop_op_section en i (SpStop grace pc) m =
     (case stop_section en grace i pc m of
        (StDone (Inl err), m') \<Rightarrow> (SpDone (Inl err), m')
      | (StDone (Inr _), m') \<Rightarrow> (SpInfo, m')
      | (pc', m') \<Rightarrow> (SpStop grace pc', m'))"
| "stop_op_section en i SpInfo m = ((case en_backend en of Some err \<Rightarrow> SpDone (Inl err) | None \<Rightarrow> SpAuto), m)"
| "stop_op_section en i SpAuto m =
     (case entry_of m i of
        Some e \<Rightarrow> if sp_auto_remove (spec_of e) then (SpRemove (RvMounts False), m) else (SpDone (Inr ()), m)
      | None \<Rightarrow> (SpDone (Inr ()), m))"
| "stop_op_section en i (SpRemove pc) m =
     (case remove_op_section en i pc m of
        (RvDone r, m') \<Rightarrow> (SpDone (case r of None \<Rightarrow> Inr () | Some err \<Rightarrow> Inl err), m')
      | (pc', m') \<Rightarrow> (SpRemove pc', m'))"
| "stop_op_section en i (SpDone r) m = (SpDone r, m)"

definition RESTART_WITHOUT_SECRETS :: api_error where
  "RESTART_WITHOUT_SECRETS = InvalidRequest (Msg ''this sandbox was created with --secret; secrets are not kept across restarts, create it again with ward run'' [])"

definition refuse_if_had_secrets :: "string \<Rightarrow> 'c manager \<Rightarrow> unit result" where
  "refuse_if_had_secrets i m =
     (case entry_of m i of
        Some e \<Rightarrow> err_when (sm_had_secrets (se_meta e)) RESTART_WITHOUT_SECRETS
      | None \<Rightarrow> Inr ())"

text \<open>\<open>start\<close> and \<open>restart_with_signal\<close> once the reference is resolved.\<close>

datatype start_op_pc = SoStatus | SoSecrets | SoClear | SoStart start_pc | SoInfo | SoDone "unit result"

fun start_op_section :: "env \<Rightarrow> string \<Rightarrow> start_op_pc \<Rightarrow> 'c manager \<Rightarrow> start_op_pc \<times> 'c manager \<times> watch option" where
  "start_op_section en i SoStatus m =
     (case recorded_status i m of
        Inl err \<Rightarrow> (SoDone (Inl err), m, None)
      | Inr status \<Rightarrow> (if status = Running then SoClear else SoSecrets, m, None))"
| "start_op_section en i SoSecrets m =
     (case refuse_if_had_secrets i m of
        Inl err \<Rightarrow> (SoDone (Inl err), m, None)
      | Inr _ \<Rightarrow> (SoClear, m, None))"
| "start_op_section en i SoClear m =
     (case clear_restart_history (en_save en) i m of
        (m', Inl err) \<Rightarrow> (SoDone (Inl err), m', None)
      | (m', Inr _) \<Rightarrow> (SoStart SaBegin, m', None))"
| "start_op_section en i (SoStart pc) m =
     (case start_section en i pc m of
        (SaDone (Inl err), m', w) \<Rightarrow> (SoDone (Inl err), m', w)
      | (SaDone (Inr _), m', w) \<Rightarrow> (SoInfo, m', w)
      | (pc', m', w) \<Rightarrow> (SoStart pc', m', w))"
| "start_op_section en i SoInfo m = (SoDone (case en_backend en of Some err \<Rightarrow> Inl err | None \<Rightarrow> Inr ()), m, None)"
| "start_op_section en i (SoDone r) m = (SoDone r, m, None)"

datatype restart_op_pc =
    RoSecrets "int option"
  | RoStatus "int option"
  | RoGrace "int option"
  | RoStop "nat option" stop_pc
  | RoClear
  | RoStart start_pc
  | RoInfo
  | RoDone "unit result"

fun restart_op_section :: "env \<Rightarrow> string \<Rightarrow> restart_op_pc \<Rightarrow> 'c manager \<Rightarrow> restart_op_pc \<times> 'c manager \<times> watch option" where
  "restart_op_section en i (RoSecrets requested) m =
     (case refuse_if_had_secrets i m of
        Inl err \<Rightarrow> (RoDone (Inl err), m, None)
      | Inr _ \<Rightarrow> (RoStatus requested, m, None))"
| "restart_op_section en i (RoStatus requested) m =
     (case recorded_status i m of
        Inl err \<Rightarrow> (RoDone (Inl err), m, None)
      | Inr status \<Rightarrow> (if status = Failed then RoClear else RoGrace requested, m, None))"
| "restart_op_section en i (RoGrace requested) m = (RoStop (grace_for i requested m) StBegin, m, None)"
| "restart_op_section en i (RoStop grace pc) m =
     (case stop_section en grace i pc m of
        (StDone (Inl err), m') \<Rightarrow> (RoDone (Inl err), m', None)
      | (StDone (Inr _), m') \<Rightarrow> (RoClear, m', None)
      | (pc', m') \<Rightarrow> (RoStop grace pc', m', None))"
| "restart_op_section en i RoClear m =
     (case clear_restart_history (en_save en) i m of
        (m', Inl err) \<Rightarrow> (RoDone (Inl err), m', None)
      | (m', Inr _) \<Rightarrow> (RoStart SaBegin, m', None))"
| "restart_op_section en i (RoStart pc) m =
     (case start_section en i pc m of
        (SaDone (Inl err), m', w) \<Rightarrow> (RoDone (Inl err), m', w)
      | (SaDone (Inr _), m', w) \<Rightarrow> (RoInfo, m', w)
      | (pc', m', w) \<Rightarrow> (RoStart pc', m', w))"
| "restart_op_section en i RoInfo m = (RoDone (case en_backend en of Some err \<Rightarrow> Inl err | None \<Rightarrow> Inr ()), m, None)"
| "restart_op_section en i (RoDone r) m = (RoDone r, m, None)"

text \<open>\<open>rename\<close> once the reference is resolved: claim, check and set, drop.\<close>

datatype rename_pc = RnClaim | RnSet | RnDrop "unit result" | RnDone "unit result"

fun rename_section :: "env \<Rightarrow> string \<Rightarrow> string \<Rightarrow> rename_pc \<Rightarrow> 'c manager \<Rightarrow> rename_pc \<times> 'c manager" where
  "rename_section en i name RnClaim m =
     (case sandbox_name name of
        Inl err \<Rightarrow> (RnDone (Inl err), m)
      | Inr _ \<Rightarrow>
          (case reservation_claim name m of
             (m', False) \<Rightarrow> (RnDone (Inl (name_in_use name None)), m')
           | (m', True) \<Rightarrow> (RnSet, m')))"
| "rename_section en i name RnSet m =
     (case rename_locked (en_save en) (en_now en) i name m of (m', r) \<Rightarrow> (RnDrop r, m'))"
| "rename_section en i name (RnDrop r) m = (RnDone r, reservation_drop name m)"
| "rename_section en i name (RnDone r) m = (RnDone r, m)"

text \<open>\<open>signal_main_process\<close> once the reference is resolved; 0 stands for SIGKILL.\<close>

datatype signal_pc = SgStatus | SgMain | SgMark int | SgSend int bool | SgThaw thaw_pc | SgDone "unit result"

definition no_main_process :: "string \<Rightarrow> api_error" where
  "no_main_process i = InvalidRequest (Msg ''sandbox {id} has no main process'' [S i])"

definition stop_signal_of :: "string \<Rightarrow> 'c manager \<Rightarrow> int" where
  "stop_signal_of i m =
     (case entry_of m i of
        None \<Rightarrow> SIGTERM
      | Some e \<Rightarrow> unwrap_or (signal_parse (sp_stop_signal (spec_of e))) SIGTERM)"

fun signal_section :: "env \<Rightarrow> string \<Rightarrow> int \<Rightarrow> signal_pc \<Rightarrow> 'c manager \<Rightarrow> signal_pc \<times> 'c manager" where
  "signal_section en i sig SgStatus m =
     (if \<not> (0 \<le> sig \<and> sig \<le> MAX_SIGNAL) then (SgDone (Inl (InvalidRequest (Msg ''invalid signal: {signal}'' [Z sig]))), m)
      else (case recorded_status i m of
              Inl err \<Rightarrow> (SgDone (Inl err), m)
            | Inr status \<Rightarrow> (if status = Running then SgMain else SgDone (Inl (not_running i)), m)))"
| "signal_section en i sig SgMain m =
     (case mg_mains m i of
        None \<Rightarrow> (SgDone (Inl (no_main_process i)), m)
      | Some main \<Rightarrow>
          if \<not> mp_control main then (SgDone (Inl (no_main_process i)), m)
          else if mg_exit m (mp_pid main) \<noteq> None then (SgDone (Inl (not_running i)), m)
          else (SgMark (if sig = 0 then SIGKILL else sig), m))"
| "signal_section en i sig (SgMark s) m =
     (let ends_main = (s = SIGKILL \<or> s = stop_signal_of i m)
      in if ends_main
         then (case mark_manually_stopped (en_save en) i m of
                 (m', Inl err) \<Rightarrow> (SgDone (Inl err), m')
               | (m', Inr _) \<Rightarrow> (SgSend s True, m'))
         else (SgSend s False, m))"
| "signal_section en i sig (SgSend s ends_main) m =
     (case en_backend en of
        Some err \<Rightarrow> (SgDone (Inl (ProcessNotFound ''0'')), m)
      | None \<Rightarrow> (if ends_main then SgThaw ThStatus else SgDone (Inr ()), m))"
| "signal_section en i sig (SgThaw pc) m =
     (case thaw_section en i pc m of
        (ThDone r, m') \<Rightarrow> (SgDone r, m')
      | (pc', m') \<Rightarrow> (SgThaw pc', m'))"
| "signal_section en i sig (SgDone r) m = (SgDone r, m)"

text \<open>\<open>pause\<close> and \<open>unpause\<close> once the reference is resolved; both describe the sandbox at the end.\<close>

datatype pause_pc = PaStatus | PaCheck | PaAsk | PaFreeze | PaEmit | PaInfo | PaDone "unit result"

fun pause_section :: "env \<Rightarrow> string \<Rightarrow> pause_pc \<Rightarrow> 'c manager \<Rightarrow> pause_pc \<times> 'c manager" where
  "pause_section en i PaStatus m =
     (case recorded_status i m of
        Inl err \<Rightarrow> (PaDone (Inl err), m)
      | Inr status \<Rightarrow> (if status = Running then PaCheck else PaDone (Inl (not_running i)), m))"
| "pause_section en i PaCheck m =
     (case recorded_status i m of
        Inl err \<Rightarrow> (PaDone (Inl err), m)
      | Inr status \<Rightarrow> (if status = Running then PaAsk else PaFreeze, m))"
| "pause_section en i PaAsk m =
     (case en_backend en of
        Some err \<Rightarrow> (PaDone (Inl err), m)
      | None \<Rightarrow>
          (if en_paused en then PaDone (Inl (InvalidRequest (Msg ''Container {id} is already paused'' [S i])))
           else PaFreeze, m))"
| "pause_section en i PaFreeze m =
     (case en_backend en of
        Some err \<Rightarrow> (PaDone (Inl err), m)
      | None \<Rightarrow> (PaEmit, m))"
| "pause_section en i PaEmit m = (PaInfo, emit_event (en_now en) i EPause None m)"
| "pause_section en i PaInfo m = (PaDone (case en_backend en of Some err \<Rightarrow> Inl err | None \<Rightarrow> Inr ()), m)"
| "pause_section en i (PaDone r) m = (PaDone r, m)"

definition not_paused :: "string \<Rightarrow> api_error" where
  "not_paused i = InvalidRequest (Msg ''Container {id} is not paused'' [S i])"

datatype unpause_pc = UpStatus | UpCheck | UpAsk | UpThaw | UpEmit | UpInfo | UpDone "unit result"

fun unpause_section :: "env \<Rightarrow> string \<Rightarrow> unpause_pc \<Rightarrow> 'c manager \<Rightarrow> unpause_pc \<times> 'c manager" where
  "unpause_section en i UpStatus m =
     (case recorded_status i m of
        Inl err \<Rightarrow> (UpDone (Inl err), m)
      | Inr status \<Rightarrow> (if status = Running then UpCheck else UpDone (Inl (not_running i)), m))"
| "unpause_section en i UpCheck m =
     (case recorded_status i m of
        Inl err \<Rightarrow> (UpDone (Inl err), m)
      | Inr status \<Rightarrow> (if status = Running then UpAsk else UpDone (Inl (not_paused i)), m))"
| "unpause_section en i UpAsk m =
     (case en_backend en of
        Some err \<Rightarrow> (UpDone (Inl err), m)
      | None \<Rightarrow> (if en_paused en then UpThaw else UpDone (Inl (not_paused i)), m))"
| "unpause_section en i UpThaw m =
     (case en_backend en of
        Some err \<Rightarrow> (UpDone (Inl err), m)
      | None \<Rightarrow> (UpEmit, m))"
| "unpause_section en i UpEmit m = (UpInfo, emit_event (en_now en) i EUnpause None m)"
| "unpause_section en i UpInfo m = (UpDone (case en_backend en of Some err \<Rightarrow> Inl err | None \<Rightarrow> Inr ()), m)"
| "unpause_section en i (UpDone r) m = (UpDone r, m)"

section \<open>The system\<close>

datatype task =
    TStop string stop_op_pc
  | TStart string start_op_pc
  | TRestart string restart_op_pc
  | TRemove string remove_op_pc
  | TTimeout string remove_pc
  | TTtl string ttl_pc
  | TWatch string string bool watch_pc
  | TSupervised restart_request restart_pc
  | TCreate create_pc create_locals
  | TRename string string rename_pc
  | TVolume string removal_pc
  | TSignal string int signal_pc
  | TPause string pause_pc
  | TUnpause string unpause_pc

definition watch_task :: "string \<Rightarrow> watch option \<Rightarrow> task list" where
  "watch_task i w = (case w of None \<Rightarrow> [] | Some (pid, auto) \<Rightarrow> [TWatch i pid auto WaWait])"

fun task_section :: "world \<Rightarrow> env \<Rightarrow> task \<Rightarrow> 'c manager \<Rightarrow> task \<times> 'c manager \<times> task list" where
  "task_section wd en (TStop i pc) m = (case stop_op_section en i pc m of (pc', m') \<Rightarrow> (TStop i pc', m', []))"
| "task_section wd en (TStart i pc) m =
     (case start_op_section en i pc m of (pc', m', w) \<Rightarrow> (TStart i pc', m', watch_task i w))"
| "task_section wd en (TRestart i pc) m =
     (case restart_op_section en i pc m of (pc', m', w) \<Rightarrow> (TRestart i pc', m', watch_task i w))"
| "task_section wd en (TRemove i pc) m = (case remove_op_section en i pc m of (pc', m') \<Rightarrow> (TRemove i pc', m', []))"
| "task_section wd en (TTimeout i pc) m = (case remove_section en i pc m of (pc', m') \<Rightarrow> (TTimeout i pc', m', []))"
| "task_section wd en (TTtl i pc) m = (case ttl_section en i pc m of (pc', m') \<Rightarrow> (TTtl i pc', m', []))"
| "task_section wd en (TWatch i pid auto pc) m =
     (case watch_section en i pid auto pc m of (pc', m') \<Rightarrow> (TWatch i pid auto pc', m', []))"
| "task_section wd en (TSupervised rq pc) m =
     (case restart_section en rq pc m of (pc', m', w) \<Rightarrow> (TSupervised rq pc', m', watch_task (rr_id rq) w))"
| "task_section wd en (TCreate pc l) m =
     (case create_section wd en pc l m of (pc', l', m', w) \<Rightarrow> (TCreate pc' l', m', watch_task (cl_id l) w))"
| "task_section wd en (TRename i name pc) m =
     (case rename_section en i name pc m of (pc', m') \<Rightarrow> (TRename i name pc', m', []))"
| "task_section wd en (TVolume v pc) m = (case removal_section en v pc m of (pc', m') \<Rightarrow> (TVolume v pc', m', []))"
| "task_section wd en (TSignal i sig pc) m =
     (case signal_section en i sig pc m of (pc', m') \<Rightarrow> (TSignal i sig pc', m', []))"
| "task_section wd en (TPause i pc) m = (case pause_section en i pc m of (pc', m') \<Rightarrow> (TPause i pc', m', []))"
| "task_section wd en (TUnpause i pc) m = (case unpause_section en i pc m of (pc', m') \<Rightarrow> (TUnpause i pc', m', []))"

text \<open>
  What a client, the supervisor or a timer may start. A start at boot goes straight to
  \<open>start_resolved\<close>.
\<close>

definition locals_fresh :: "create_locals \<Rightarrow> bool" where
  "locals_fresh l \<longleftrightarrow> cl_claims l = [] \<and> \<not> cl_reserved l \<and> \<not> cl_permit l \<and> co_mounts (cl_opts l) = [] \<and> cl_id l = ''''"

fun initial :: "task \<Rightarrow> bool" where
  "initial (TStop i pc) \<longleftrightarrow> (\<exists>requested. pc = SpGrace requested)"
| "initial (TStart i pc) \<longleftrightarrow> pc = SoStatus \<or> pc = SoStart SaBegin"
| "initial (TRestart i pc) \<longleftrightarrow> (\<exists>requested. pc = RoSecrets requested)"
| "initial (TRemove i pc) \<longleftrightarrow> (\<exists>b. pc = RvMounts b)"
| "initial (TTimeout i pc) \<longleftrightarrow> pc = RmBegin True"
| "initial (TTtl i pc) \<longleftrightarrow> pc = TtTake"
| "initial (TWatch i pid auto pc) \<longleftrightarrow> False"
| "initial (TSupervised rq pc) \<longleftrightarrow> pc = ReDelay"
| "initial (TCreate pc l) \<longleftrightarrow> (\<exists>mts. pc = CrMounts mts) \<and> locals_fresh l"
| "initial (TRename i name pc) \<longleftrightarrow> pc = RnClaim"
| "initial (TVolume v pc) \<longleftrightarrow> pc = VlFind"
| "initial (TSignal i sig pc) \<longleftrightarrow> pc = SgStatus"
| "initial (TPause i pc) \<longleftrightarrow> pc = PaStatus"
| "initial (TUnpause i pc) \<longleftrightarrow> pc = UpStatus"

type_synonym 'c sys = "'c manager \<times> task list"

text \<open>Ids and pids come from a generator that never repeats one.\<close>

fun task_ids :: "task \<Rightarrow> string set" where
  "task_ids (TStop i pc) = {i}"
| "task_ids (TStart i pc) = {i}"
| "task_ids (TRestart i pc) = {i}"
| "task_ids (TRemove i pc) = {i}"
| "task_ids (TTimeout i pc) = {i}"
| "task_ids (TTtl i pc) = {i}"
| "task_ids (TWatch i pid auto pc) = {i, pid}"
| "task_ids (TSupervised rq pc) = {rr_id rq}"
| "task_ids (TCreate pc l) = {cl_id l}"
| "task_ids (TRename i name pc) = {i}"
| "task_ids (TVolume v pc) = {v}"
| "task_ids (TSignal i sig pc) = {i}"
| "task_ids (TPause i pc) = {i}"
| "task_ids (TUnpause i pc) = {i}"

definition fresh_id :: "string \<Rightarrow> 'c sys \<Rightarrow> bool" where
  "fresh_id i s \<longleftrightarrow>
     i \<noteq> '''' \<and> entry_of (fst s) i = None \<and> mg_mains (fst s) i = None \<and> i \<notin> \<Union> (task_ids ` set (snd s)) \<and>
     mg_exit (fst s) i = None \<and> (\<forall>k main. mg_mains (fst s) k = Some main \<longrightarrow> mp_pid main \<noteq> i)"

inductive sys_step :: "world \<Rightarrow> (env \<Rightarrow> bool) \<Rightarrow> 'c sys \<Rightarrow> 'c sys \<Rightarrow> bool" for wd ok where
  runs: "k < length ts \<Longrightarrow> ok en \<Longrightarrow> fresh_id (en_id en) (m, ts) \<Longrightarrow> fresh_id (en_pid en) (m, ts) \<Longrightarrow>
    task_section wd en (ts ! k) m = (t', m', new) \<Longrightarrow> sys_step wd ok (m, ts) (m', ts[k := t'] @ new)"
| arrive: "initial t \<Longrightarrow> sys_step wd ok (m, ts) (m, ts @ [t])"
| main_ends: "mg_exit m pid = None \<Longrightarrow> sys_step wd ok (m, ts) (m\<lparr>mg_exit := (mg_exit m)(pid \<mapsto> (raw, oom))\<rparr>, ts)"

lemmas sys_step_cases = sys_step.cases [consumes 1, case_names runs arrive main_ends]

end
