(* ===== verification/Sections.thy ===== *)
theory Sections
  imports Lifecycle
begin

text \<open>
  What the sections of theory \<open>Lifecycle\<close> may change: each has one of the few effects of the predicate
  \<open>effect\<close>, which is all that theory \<open>Interleaving\<close> needs to know of them.
\<close>

section \<open>What a section may change\<close>

definition idnames :: "'c manager \<Rightarrow> (string \<times> string) list" where
  "idnames m = map (\<lambda>(i, e). (i, name_of e)) (mg_entries m)"

text \<open>The part of the state that decides names, ids and capacity.\<close>

definition frame :: "'c manager \<Rightarrow> (string \<times> string) list \<times> nat \<times> nat \<times> string set" where
  "frame m = (idnames m, mg_permits m, mg_max_sandboxes m, mg_pending m)"

definition st_of :: "'c manager \<Rightarrow> string \<Rightarrow> sandbox_status option" where
  "st_of m i = map_option (\<lambda>e. sm_status (se_meta e)) (entry_of m i)"

lemma map_update_same:
  assumes "map_of xs i = Some e" "f e' = f e"
  shows "map (\<lambda>(i, e). (i, f e)) (AList.update i e' xs) = map (\<lambda>(i, e). (i, f e)) xs"
  using assms by (induction xs) (auto split: if_splits)

lemma entry_of_put [simp]: "entry_of (put_entry i e m) j = (if j = i then Some e else entry_of m j)"
  by (simp add: entry_of_def put_entry_def update_conv')

lemma put_entry_fields [simp]:
  "mg_permits (put_entry i e m) = mg_permits m" "mg_max_sandboxes (put_entry i e m) = mg_max_sandboxes m"
  "mg_pending (put_entry i e m) = mg_pending m" "mg_mains (put_entry i e m) = mg_mains m"
  "mg_exit (put_entry i e m) = mg_exit m" "mg_disk (put_entry i e m) = mg_disk m" "mg_store (put_entry i e m) = mg_store m"
  "mg_broker (put_entry i e m) = mg_broker m" "mg_volumes (put_entry i e m) = mg_volumes m"
  "mg_exited_ttl (put_entry i e m) = mg_exited_ttl m"
  by (simp_all add: put_entry_def)

lemma frame_put:
  assumes "entry_of m i = Some e" "name_of e' = name_of e"
  shows "frame (put_entry i e' m) = frame m"
  using map_update_same [of "mg_entries m" i e name_of e'] assms
  by (simp add: frame_def idnames_def put_entry_def entry_of_def)

text \<open>What \<open>persist_meta\<close> leaves alone: everything but the disk.\<close>

definition disk_only :: "'c manager \<Rightarrow> 'c manager \<Rightarrow> bool" where
  "disk_only m m' \<longleftrightarrow> (\<exists>d. m' = m\<lparr>mg_disk := d\<rparr>)"

lemma persist_disk_only: "persist_meta out meta m = (m', r) \<Longrightarrow> disk_only m m'"
  by (auto simp: persist_meta_def disk_only_def Let_def split: if_splits save_outcome.splits)
     (metis manager.unfold_congs(8) manager.surjective manager.update_convs(8))+

lemma disk_onlyD:
  assumes "disk_only m m'"
  shows "mg_entries m' = mg_entries m" "entry_of m' = entry_of m" "frame m' = frame m" "st_of m' = st_of m"
    "mg_mains m' = mg_mains m" "mg_exit m' = mg_exit m" "mg_broker m' = mg_broker m" "mg_volumes m' = mg_volumes m"
    "mg_store m' = mg_store m" "mg_exited_ttl m' = mg_exited_ttl m"
  using assms by (auto simp: disk_only_def entry_of_def frame_def idnames_def st_of_def fun_eq_iff)

lemma stamp_times_keeps [simp]:
  "sm_options (stamp_times status now meta) = sm_options meta" "sm_id (stamp_times status now meta) = sm_id meta"
  "sm_had_secrets (stamp_times status now meta) = sm_had_secrets meta"
  "sm_restart_count (stamp_times status now meta) = sm_restart_count meta"
  "sm_manually_stopped (stamp_times status now meta) = sm_manually_stopped meta"
  by (simp_all add: stamp_times_def split: sandbox_status.split)

lemma rearm_keeps [simp]:
  "se_meta (rearm_exited_ttl d a n e) = se_meta e" "name_of (rearm_exited_ttl d a n e) = name_of e"
  "spec_of (rearm_exited_ttl d a n e) = spec_of e" "se_listeners (rearm_exited_ttl d a n e) = se_listeners e"
  by (simp_all add: rearm_exited_ttl_def name_of_def spec_of_def)

lemma set_manual_keeps [simp]:
  "name_of (set_manual b e) = name_of e" "sm_status (se_meta (set_manual b e)) = sm_status (se_meta e)"
  "sm_id (se_meta (set_manual b e)) = sm_id (se_meta e)"
  "set_manual (sm_manually_stopped (se_meta e)) (set_manual b e) = e"
  by (simp_all add: set_manual_def name_of_def)

text \<open>A commit that fails leaves the entry as it was; one that succeeds has the new state.\<close>

lemma commit_ended_effect:
  assumes "commit_meta_ended out now status code reason e m = (m', e', r)"
  shows "disk_only m m'" "name_of e' = name_of e" "sm_id (se_meta e') = sm_id (se_meta e)"
    "r = Inl err \<Longrightarrow> e' = e" "r = Inr u \<Longrightarrow> sm_status (se_meta e') = status"
  using assms
  by (auto simp: commit_meta_ended_def Let_def name_of_def dest: persist_disk_only split: prod.splits sum.splits)

lemma commit_meta_effect:
  assumes "commit_meta out now status code e m = (m', e', r)"
  shows "disk_only m m'" "name_of e' = name_of e" "sm_id (se_meta e') = sm_id (se_meta e)"
    "r = Inl err \<Longrightarrow> e' = e" "r = Inr u \<Longrightarrow> sm_status (se_meta e') = status"
  using commit_ended_effect [OF assms [unfolded commit_meta_def]] by auto

text \<open>
  A change of at most the entry \<open>i\<close>, from status \<open>a\<close> to \<open>b\<close> with \<open>R a b\<close>, that keeps its name; of the
  names, ids, reservations and permits nothing changes.
\<close>

definition touches :: "(sandbox_status \<Rightarrow> sandbox_status \<Rightarrow> bool) \<Rightarrow> string \<Rightarrow> 'c manager \<Rightarrow> 'c manager \<Rightarrow> bool" where
  "touches R i m m' \<longleftrightarrow>
     frame m' = frame m \<and>
     (\<forall>j. entry_of m' j = entry_of m j \<or>
        (j = i \<and> (\<exists>e e'. entry_of m i = Some e \<and> entry_of m' i = Some e' \<and> sm_id (se_meta e') = sm_id (se_meta e) \<and>
           R (sm_status (se_meta e)) (sm_status (se_meta e')))))"

lemma touches_mono: "touches R i m m' \<Longrightarrow> (\<And>a b. R a b \<Longrightarrow> R' a b) \<Longrightarrow> touches R' i m m'"
  unfolding touches_def by blast

lemma touches_refl [simp]: "touches R i m m"
  by (simp add: touches_def)

lemma touches_put:
  assumes "disk_only m m1" "entry_of m i = Some e" "name_of e' = name_of e" "sm_id (se_meta e') = sm_id (se_meta e)"
    and "R (sm_status (se_meta e)) (sm_status (se_meta e'))"
  shows "touches R i m (put_entry i e' m1)"
proof -
  have "frame (put_entry i e' m1) = frame m"
    using frame_put [of m1 i e e'] disk_onlyD [OF assms(1)] assms(2,3) by simp
  then show ?thesis
    unfolding touches_def using assms(2,4,5) disk_onlyD [OF assms(1)] by auto
qed

lemma touches_disk: "disk_only m m' \<Longrightarrow> touches R i m m'"
  unfolding touches_def by (auto dest: disk_onlyD)

lemma touches_st: "touches R i m m' \<Longrightarrow> j \<noteq> i \<Longrightarrow> st_of m' j = st_of m j"
  unfolding touches_def st_of_def by metis

lemma touches_st_cases:
  assumes "touches R i m m'"
  shows "st_of m' i = st_of m i \<or> (\<exists>a b. st_of m i = Some a \<and> st_of m' i = Some b \<and> R a b)"
proof -
  have "entry_of m' i = entry_of m i \<or> (\<exists>e e'. entry_of m i = Some e \<and> entry_of m' i = Some e' \<and>
      R (sm_status (se_meta e)) (sm_status (se_meta e')))"
    using assms unfolding touches_def by blast
  then show ?thesis by (auto simp: st_of_def)
qed

lemma at_entry_touches:
  assumes "at_entry i m f = (m', r)"
    and "\<And>e m1 e' q. entry_of m i = Some e \<Longrightarrow> f e m = (m1, e', q) \<Longrightarrow>
      disk_only m m1 \<and> name_of e' = name_of e \<and> sm_id (se_meta e') = sm_id (se_meta e) \<and>
      R (sm_status (se_meta e)) (sm_status (se_meta e'))"
  shows "touches R i m m'"
proof (cases "entry_of m i")
  case None
  with assms(1) show ?thesis by (simp add: at_entry_def)
next
  case (Some e)
  obtain m1 e' q where f: "f e m = (m1, e', q)" by (cases "f e m") auto
  with assms(1) Some have "m' = put_entry i e' m1" by (simp add: at_entry_def)
  with touches_put [of m m1 i e e' R] assms(2) [OF Some f] Some show ?thesis by simp
qed

section \<open>The locked sections\<close>

abbreviation (input) unchanged :: "sandbox_status \<Rightarrow> sandbox_status \<Rightarrow> bool" where
  "unchanged a b \<equiv> a = b"

abbreviation (input) becomes :: "sandbox_status \<Rightarrow> sandbox_status \<Rightarrow> sandbox_status \<Rightarrow> bool" where
  "becomes c a b \<equiv> b = a \<or> b = c"

lemma set_state_touches: "set_state out now i status m = (m', r) \<Longrightarrow> touches (becomes status) i m m'"
  unfolding set_state_def
  by (erule at_entry_touches) (metis commit_meta_effect sumE)

lemma record_state_touches: "record_state out now i status code m = (m', r) \<Longrightarrow> touches (becomes status) i m m'"
  unfolding record_state_def
  by (erule at_entry_touches) (metis commit_meta_effect sumE)

lemma record_ended_touches: "record_ended out now i status code reason m = (m', r) \<Longrightarrow> touches (becomes status) i m m'"
  unfolding record_ended_def
  by (erule at_entry_touches) (metis commit_ended_effect sumE)

lemma record_stopped_touches: "record_stopped en i me m = (m', r) \<Longrightarrow> touches (becomes Stopped) i m m'"
  by (cases me) (auto intro: set_state_touches record_state_touches record_ended_touches)

text \<open>What \<open>begin_stop\<close> and \<open>begin_start\<close> have in common: the flag is set, and put back when the commit fails.\<close>

lemma begin_effect:
  assumes "entry_of m i = Some e" "commit_meta out now status code (set_manual b e) m = (m1, e', q)"
  shows "q = Inl err \<Longrightarrow> touches unchanged i m (put_entry i (set_manual (sm_manually_stopped (se_meta e)) e') m1)"
    and "q = Inr u \<Longrightarrow> touches (\<lambda>a c. a = sm_status (se_meta e) \<and> c = status) i m (put_entry i e' m1) \<and>
      st_of (put_entry i e' m1) i = Some status \<and> st_of m i = Some (sm_status (se_meta e))"
proof -
  note eff = commit_meta_effect [OF assms(2)]
  show "touches unchanged i m (put_entry i (set_manual (sm_manually_stopped (se_meta e)) e') m1)" if "q = Inl err"
    using touches_put [OF eff(1) assms(1), of e unchanged] eff(4) [OF that] by simp
  show "touches (\<lambda>a c. a = sm_status (se_meta e) \<and> c = status) i m (put_entry i e' m1) \<and>
      st_of (put_entry i e' m1) i = Some status \<and> st_of m i = Some (sm_status (se_meta e))" if "q = Inr u"
    using touches_put [OF eff(1) assms(1), of e' "\<lambda>a c. a = sm_status (se_meta e) \<and> c = status"] eff(2,3) eff(5) [OF that] assms(1)
    by (simp add: st_of_def)
qed

lemma begin_stop_effect:
  assumes "begin_stop out now i m = (m', r)"
  shows "(case r of Inr (Some x) \<Rightarrow> touches (\<lambda>a b. (a = Running \<or> a = Exited) \<and> b = Stopping) i m m' \<and> st_of m' i = Some Stopping \<and>
      (st_of m i = Some Running \<or> st_of m i = Some Exited)
    | _ \<Rightarrow> touches unchanged i m m')"
proof (cases "entry_of m i")
  case (Some e)
  obtain m1 e' q where c: "commit_meta out now Stopping (sm_exit_code (se_meta e)) (set_manual True e) m = (m1, e', q)"
    by (cases "commit_meta out now Stopping (sm_exit_code (se_meta e)) (set_manual True e) m") auto
  show ?thesis
  proof (cases "sm_status (se_meta e) = Running \<or> sm_status (se_meta e) = Exited")
    case True
    then show ?thesis
      using assms Some begin_effect [OF Some c]
      by (cases q) (auto simp: begin_stop_def c, (erule touches_mono, simp)+)
  qed (use assms Some in \<open>auto simp: begin_stop_def split: if_splits\<close>)
qed (use assms in \<open>auto simp: begin_stop_def\<close>)

lemma begin_start_effect:
  assumes "begin_start out now i m = (m', r)"
  shows "(case r of Inr (Some x) \<Rightarrow> touches (\<lambda>a b. a \<in> {Stopped, Exited, Failed} \<and> b = Creating) i m m' \<and> st_of m' i = Some Creating \<and>
      (\<exists>a. st_of m i = Some a \<and> a \<in> {Stopped, Exited, Failed})
    | _ \<Rightarrow> touches unchanged i m m')"
proof (cases "entry_of m i")
  case (Some e)
  obtain m1 e' q where c: "commit_meta out now Creating None (set_manual False e) m = (m1, e', q)"
    by (cases "commit_meta out now Creating None (set_manual False e) m") auto
  show ?thesis
  proof (cases "sm_status (se_meta e) \<in> {Stopped, Exited, Failed}")
    case True
    then show ?thesis
      using assms Some begin_effect [OF Some c]
      by (cases q) (auto simp: begin_start_def c, (erule touches_mono, simp)+)
  qed (use assms Some in \<open>auto simp: begin_start_def split: if_splits\<close>)
qed (use assms in \<open>auto simp: begin_start_def\<close>)

lemma frame_simps [simp]:
  "frame (m\<lparr>mg_events := a\<rparr>) = frame m" "frame (m\<lparr>mg_broker := b\<rparr>) = frame m" "frame (m\<lparr>mg_volumes := c\<rparr>) = frame m"
  "frame (m\<lparr>mg_processes := d\<rparr>) = frame m" "frame (m\<lparr>mg_mains := f\<rparr>) = frame m" "frame (m\<lparr>mg_exit := g\<rparr>) = frame m"
  "frame (m\<lparr>mg_restarts := h\<rparr>) = frame m" "frame (m\<lparr>mg_delays := k\<rparr>) = frame m" "frame (m\<lparr>mg_active := n\<rparr>) = frame m"
  "frame (m\<lparr>mg_disk := q\<rparr>) = frame m"
  by (simp_all add: frame_def idnames_def)

lemma entry_of_simps [simp]:
  "entry_of (m\<lparr>mg_events := a\<rparr>) = entry_of m" "entry_of (m\<lparr>mg_broker := b\<rparr>) = entry_of m"
  "entry_of (m\<lparr>mg_volumes := c\<rparr>) = entry_of m" "entry_of (m\<lparr>mg_processes := d\<rparr>) = entry_of m"
  "entry_of (m\<lparr>mg_mains := f\<rparr>) = entry_of m" "entry_of (m\<lparr>mg_exit := g\<rparr>) = entry_of m"
  "entry_of (m\<lparr>mg_restarts := h\<rparr>) = entry_of m" "entry_of (m\<lparr>mg_delays := k\<rparr>) = entry_of m"
  "entry_of (m\<lparr>mg_active := n\<rparr>) = entry_of m" "entry_of (m\<lparr>mg_disk := q\<rparr>) = entry_of m"
  "entry_of (m\<lparr>mg_pending := p\<rparr>) = entry_of m" "entry_of (m\<lparr>mg_permits := r\<rparr>) = entry_of m"
  by (simp_all add: entry_of_def fun_eq_iff)

text \<open>Sections that only write the log, the queues, the broker or the volumes.\<close>

definition quiet :: "'c manager \<Rightarrow> 'c manager \<Rightarrow> bool" where
  "quiet m m' \<longleftrightarrow> frame m' = frame m \<and> entry_of m' = entry_of m"

lemma quiet_touches: "quiet m m' \<Longrightarrow> touches R i m m'"
  by (simp add: quiet_def touches_def)

lemma touches_quiet: "touches R i m m1 \<Longrightarrow> quiet m1 m' \<Longrightarrow> touches R i m m'"
  by (simp add: quiet_def touches_def)

lemma quiet_intros [simp]:
  "quiet m m" "quiet m (emit_meta now action meta code m)" "quiet m (emit_event now i action code m)"
  "quiet m (emit_die_if_was_running now meta before code m)" "quiet m (purge_processes i m)" "quiet m (deregister i m)"
  "quiet m (cleanup_events now meta reason m)" "quiet m (request_restart e n m)" "quiet m (on_volumes f m)"
  "quiet m (restart_delay rq m)"
  "quiet m (remove_main i m)"
  by (auto simp: quiet_def emit_meta_def emit_event_def emit_die_if_was_running_def purge_processes_def deregister_def
      cleanup_events_def Let_def request_restart_def on_volumes_def restart_delay_def remove_main_def
      split: option.split)

lemma quiet_trans: "quiet a b \<Longrightarrow> quiet b c \<Longrightarrow> quiet a c"
  by (simp add: quiet_def)

lemma disk_quiet: "disk_only m m' \<Longrightarrow> quiet m m'"
  by (auto simp: quiet_def dest: disk_onlyD)

lemma disk_only_refl [simp]: "disk_only m m"
  unfolding disk_only_def by (rule exI [of _ "mg_disk m"]) simp

lemma listeners_touches [simp]: "touches unchanged i m (close_listeners i m)" "touches unchanged i m (set_listeners i ls m)"
  by (auto simp: close_listeners_def set_listeners_def name_of_def intro: touches_put [OF disk_only_refl] split: option.split)

lemma mark_exited_touches:
  assumes "mark_exited out now i pid raw oom m = (m', marked)"
  shows "touches (\<lambda>a b. a = Running \<and> (b = Running \<or> b = Exited)) i m m'"
proof (cases "entry_of m i")
  case (Some e)
  obtain m1 e' q where c: "commit_meta_ended out now Exited (Some (decode_wait_status raw)) (Some (end_reason_of raw oom)) e m = (m1, e', q)"
    by (cases "commit_meta_ended out now Exited (Some (decode_wait_status raw)) (Some (end_reason_of raw oom)) e m") auto
  show ?thesis
  proof (cases "map_option mp_pid (mg_mains m i) \<noteq> Some pid \<or> sm_status (se_meta e) \<noteq> Running")
    case False
    note eff = commit_ended_effect [OF c]
    have "touches (\<lambda>a b. a = Running \<and> (b = Running \<or> b = Exited)) i m (put_entry i e' m1)"
      using touches_put [OF eff(1) Some eff(2,3), of "\<lambda>a b. a = Running \<and> (b = Running \<or> b = Exited)"] eff(4,5) False by (cases q) auto
    moreover have "quiet (put_entry i e' m1) m'"
      using assms Some c False
      by (cases q) (auto simp: mark_exited_def Let_def intro!: quiet_trans [OF _ quiet_intros(8)], simp add: quiet_def)
    ultimately show ?thesis by (rule touches_quiet)
  qed (use assms Some in \<open>auto simp: mark_exited_def\<close>)
qed (use assms in \<open>simp add: mark_exited_def\<close>)

lemma fail_main_start_touches:
  assumes "fail_main_start out now i m = (m', b)"
  shows "touches (\<lambda>a b. a = Running \<and> (b = Running \<or> b = Failed)) i m m'"
proof (cases "entry_of m i")
  case (Some e)
  obtain m1 e' q where c: "commit_meta out now Failed (sm_exit_code (se_meta e)) e m = (m1, e', q)"
    by (cases "commit_meta out now Failed (sm_exit_code (se_meta e)) e m") auto
  note eff = commit_meta_effect [OF c]
  show ?thesis
    using touches_put [OF eff(1) Some eff(2,3), of "\<lambda>a b. a = Running \<and> (b = Running \<or> b = Failed)"] eff(4,5) assms Some c
    by (cases q) (auto simp: fail_main_start_def split: if_splits)
qed (use assms in \<open>simp add: fail_main_start_def\<close>)

text \<open>Sections that save a changed record without a change of state.\<close>

lemma persist_touches:
  assumes "entry_of m i = Some e" "persist_meta out (se_meta e') m = (m1, r)" "name_of e' = name_of e"
    "sm_id (se_meta e') = sm_id (se_meta e)" "sm_status (se_meta e') = sm_status (se_meta e)"
  shows "touches unchanged i m m1 \<and> touches unchanged i m (put_entry i e' m1)"
  using touches_put [OF persist_disk_only [OF assms(2)] assms(1,3,4), of unchanged] assms(5)
    touches_disk [OF persist_disk_only [OF assms(2)]] by simp

lemma claim_restart_touches: "claim_restart out rq m = (m', b) \<Longrightarrow> touches unchanged (rr_id rq) m m'"
proof (cases "entry_of m (rr_id rq)")
  case (Some e)
  assume a: "claim_restart out rq m = (m', b)"
  let ?e = "e\<lparr>se_meta := set_count (sm_restart_count (se_meta e) + 1) (se_meta e)\<rparr>"
  obtain m1 r where p: "persist_meta out (se_meta ?e) m = (m1, r)" by (cases "persist_meta out (se_meta ?e) m")
  then have "touches unchanged (rr_id rq) m m1 \<and> touches unchanged (rr_id rq) m (put_entry (rr_id rq) ?e m1)"
    by (rule persist_touches [OF Some]) (simp_all add: set_count_def name_of_def)
  with a Some p show ?thesis by (auto simp: claim_restart_def Let_def split: if_splits sum.splits)
next
  case None
  assume "claim_restart out rq m = (m', b)"
  with None show ?thesis by (auto simp: claim_restart_def quiet_def intro: quiet_touches)
qed

lemma mark_manual_touches: "mark_manually_stopped out i m = (m', b) \<Longrightarrow> touches unchanged i m m'"
proof (cases "entry_of m i")
  case (Some e)
  assume a: "mark_manually_stopped out i m = (m', b)"
  obtain m1 r where p: "persist_meta out (se_meta (set_manual True e)) m = (m1, r)"
    by (cases "persist_meta out (se_meta (set_manual True e)) m")
  then have "touches unchanged i m m1 \<and> touches unchanged i m (put_entry i (set_manual True e) m1)"
    by (rule persist_touches [OF Some]) simp_all
  with a Some p show ?thesis by (auto simp: mark_manually_stopped_def Let_def split: if_splits sum.splits)
qed (simp add: mark_manually_stopped_def)

lemma clear_history_touches: "clear_restart_history out i m = (m', b) \<Longrightarrow> touches unchanged i m m'"
proof -
  assume a: "clear_restart_history out i m = (m', b)"
  let ?m = "m\<lparr>mg_delays := (mg_delays m)(i := None)\<rparr>"
  have q: "quiet m ?m" by (simp add: quiet_def)
  have "touches unchanged i ?m m'"
  proof (cases "entry_of ?m i")
    case (Some e)
    let ?e = "e\<lparr>se_meta := set_count 0 (se_meta e)\<rparr>"
    obtain m1 r where p: "persist_meta out (se_meta ?e) ?m = (m1, r)" by (cases "persist_meta out (se_meta ?e) ?m")
    then have "touches unchanged i ?m m1 \<and> touches unchanged i ?m (put_entry i ?e m1)"
      by (rule persist_touches [OF Some]) (simp_all add: set_count_def name_of_def)
    with a Some p show ?thesis by (auto simp: clear_restart_history_def Let_def split: if_splits sum.splits)
  qed (use a in \<open>simp add: clear_restart_history_def\<close>)
  with q show ?thesis by (simp add: touches_def quiet_def)
qed

lemma record_main_quiet: "record_main i pid a b m = (m', r) \<Longrightarrow> quiet m m'"
  by (auto simp: record_main_def quiet_def split: option.splits)

lemma commit_running_touches:
  assumes "commit_running_and_register out now i comms m = (m', r)"
  shows "touches (becomes Running) i m m'"
proof -
  obtain m1 q where s: "set_state out now i Running m = (m1, q)" by (cases "set_state out now i Running m")
  with assms have "quiet m1 m'"
    by (auto simp: commit_running_and_register_def quiet_def split: sum.splits)
  with set_state_touches [OF s] show ?thesis by (rule touches_quiet)
qed

lemma thaw_quiet: "thaw_section en i pc m = (pc', m') \<Longrightarrow> quiet m m'"
  by (cases pc) (auto split: sum.splits option.splits if_splits)

lemma pause_quiet: "pause_section en i pc m = (pc', m') \<Longrightarrow> quiet m m'"
  by (cases pc) (auto split: sum.splits option.splits if_splits)

lemma unpause_quiet: "unpause_section en i pc m = (pc', m') \<Longrightarrow> quiet m m'"
  by (cases pc) (auto split: sum.splits option.splits if_splits)

section \<open>Transitions and who owns them\<close>

text \<open>
  The places where a stop or a start has recorded the sandbox as stopping or starting and not yet how that
  went. What follows the second record, the spawn of the main process and the events, is not among them.
\<close>

fun stop_trans :: "stop_pc \<Rightarrow> bool" where
  "stop_trans StBegin = False"
| "stop_trans (StFailDie _ _ _ _) = False"
| "stop_trans (StDie _ _ _) = False"
| "stop_trans (StStop _) = False"
| "stop_trans (StDone _) = False"
| "stop_trans _ = True"

fun start_trans :: "start_pc \<Rightarrow> bool" where
  "start_trans (SaClose _) = True"
| "start_trans (SaBoot _) = True"
| "start_trans (SaReopen _) = True"
| "start_trans (SaSetListeners _ _) = True"
| "start_trans (SaQuota _) = True"
| "start_trans (SaFailClose _) = True"
| "start_trans (SaFailState _) = True"
| "start_trans (SaCommit _) = True"
| "start_trans _ = False"

text \<open>Changes anyone may make: none, or from running to an ended or failed run.\<close>

definition calm :: "sandbox_status \<Rightarrow> sandbox_status \<Rightarrow> bool" where
  "calm a b \<longleftrightarrow> a = b \<or> (a = Running \<and> (b = Failed \<or> b = Exited))"

text \<open>
  A section that enters (\<open>t'\<close> and not \<open>t\<close>), stays in or leaves (\<open>t\<close> and not \<open>t'\<close>) a transition to \<open>X\<close>: only one that
  enters or leaves makes other changes, and one that enters comes from a settled state.
\<close>

definition moves :: "bool \<Rightarrow> bool \<Rightarrow> sandbox_status \<Rightarrow> string \<Rightarrow> 'c manager \<Rightarrow> 'c manager \<Rightarrow> bool" where
  "moves t t' X i m m' \<longleftrightarrow>
     touches (\<lambda>a b. calm a b \<or> (\<not> t \<and> t' \<and> a \<notin> {Creating, Stopping} \<and> b = X) \<or> (t \<and> \<not> t')) i m m' \<and>
     (\<not> t \<and> t' \<longrightarrow> (\<exists>a. st_of m i = Some a \<and> a \<notin> {Creating, Stopping}) \<and> st_of m' i = Some X)"

lemma touches_moves: "touches R i m m' \<Longrightarrow> (\<And>a b. R a b \<Longrightarrow> calm a b) \<Longrightarrow> moves t t X i m m'"
  by (auto simp: moves_def elim: touches_mono)

lemma calm_moves [simp]: "touches unchanged i m m' \<Longrightarrow> moves t t X i m m'"
  by (rule touches_moves [where R = unchanged]) (auto simp: calm_def)

lemma quiet_moves [simp]: "quiet m m' \<Longrightarrow> moves t t X i m m'"
  by (rule calm_moves [OF quiet_touches])

lemma leave_moves: "touches R i m m' \<Longrightarrow> moves True False X i m m'"
  by (auto simp: moves_def elim: touches_mono)

lemma quiet_leave [simp]: "quiet m m' \<Longrightarrow> moves True False X i m m'"
  by (rule leave_moves [OF quiet_touches [where R = unchanged]])

lemma stop_moves:
  assumes "stop_section en grace i pc m = (pc', m')"
  shows "moves (stop_trans pc) (stop_trans pc') Stopping i m m'"
proof (cases pc)
  case StBegin
  obtain m1 r where b: "begin_stop (en_save en) (en_now en) i m = (m1, r)" by (cases "begin_stop (en_save en) (en_now en) i m")
  have eff: "moves False (case r of Inr (Some x) \<Rightarrow> True | _ \<Rightarrow> False) Stopping i m m1"
    using begin_stop_effect [OF b]
    by (auto simp: moves_def calm_def split: sum.splits option.splits elim!: touches_mono)
  then show ?thesis
    using assms StBegin b by (auto split: sum.splits option.splits)
next
  case (StThaw before meta tp)
  obtain tp' m1 where th: "thaw_section en i tp m = (tp', m1)" by fastforce
  with assms StThaw thaw_quiet [OF th] show ?thesis by (auto split: thaw_pc.splits)
next
  case (StFailState before meta code err)
  obtain m1 r where s: "set_state (en_save en) (en_now en) i Failed m = (m1, r)"
    by (cases "set_state (en_save en) (en_now en) i Failed m")
  with assms StFailState leave_moves [OF set_state_touches [OF s]] show ?thesis by auto
next
  case (StRecord before meta me)
  obtain m1 r where s: "record_stopped en i me m = (m1, r)" by (cases "record_stopped en i me m")
  with assms StRecord leave_moves [OF record_stopped_touches [OF s]] show ?thesis by (auto split: sum.splits)
qed (use assms in \<open>auto split: option.splits if_splits\<close>)

lemma start_moves:
  assumes "start_section en i pc m = (pc', m', w)"
  shows "moves (start_trans pc) (start_trans pc') Creating i m m'"
proof (cases pc)
  case SaBegin
  obtain m1 r where b: "begin_start (en_save en) (en_now en) i m = (m1, r)" by (cases "begin_start (en_save en) (en_now en) i m")
  have eff: "moves False (case r of Inr (Some x) \<Rightarrow> True | _ \<Rightarrow> False) Creating i m m1"
    using begin_start_effect [OF b]
    by (auto simp: moves_def calm_def split: sum.splits option.splits elim!: touches_mono)
  then show ?thesis
    using assms SaBegin b by (auto split: sum.splits option.splits)
next
  case (SaFailState err)
  obtain m1 r where s: "set_state (en_save en) (en_now en) i Failed m = (m1, r)"
    by (cases "set_state (en_save en) (en_now en) i Failed m")
  with assms SaFailState leave_moves [OF set_state_touches [OF s]] show ?thesis by auto
next
  case (SaCommit comms)
  obtain m1 r where s: "commit_running_and_register (en_save en) (en_now en) i comms m = (m1, r)"
    by (cases "commit_running_and_register (en_save en) (en_now en) i comms m")
  with assms SaCommit leave_moves [OF commit_running_touches [OF s]] show ?thesis by (auto split: sum.splits)
next
  case (SaRecordMain pid auto)
  obtain m1 r where s: "record_main i pid True True m = (m1, r)" by (cases "record_main i pid True True m")
  with assms SaRecordMain quiet_moves [OF record_main_quiet [OF s]] show ?thesis by (auto split: sum.splits)
next
  case (SaFailMain err)
  obtain m1 b where s: "fail_main_start (en_save en) (en_now en) i m = (m1, b)"
    by (cases "fail_main_start (en_save en) (en_now en) i m")
  have "moves False False Creating i m m1"
    by (rule touches_moves [OF fail_main_start_touches [OF s]]) (auto simp: calm_def)
  with assms SaFailMain s show ?thesis by (auto split: bool.splits)
qed (use assms in \<open>auto split: option.splits sum.splits spawn_result.splits\<close>)

text \<open>The entry \<open>i\<close> leaves the map and its permit goes back.\<close>

definition took :: "string \<Rightarrow> 'c manager \<Rightarrow> 'c manager \<Rightarrow> bool" where
  "took i m m' \<longleftrightarrow>
     (\<exists>e. entry_of m i = Some e) \<and>
     m' = m\<lparr>mg_entries := AList.delete i (mg_entries m), mg_permits := mg_permits m + 1\<rparr>"

definition takes :: "string \<Rightarrow> 'c manager \<Rightarrow> 'c manager \<Rightarrow> bool" where
  "takes i m m' \<longleftrightarrow> quiet m m' \<or> took i m m'"

lemma take_entry_takes: "take_entry i m = (m', r) \<Longrightarrow> takes i m m'"
  by (auto simp: take_entry_def takes_def took_def split: option.splits)

lemma quiet_takes [simp]: "quiet m m' \<Longrightarrow> takes i m m'"
  by (simp add: takes_def)

lemma with_volumes_quiet: "with_volumes f m = (m', r) \<Longrightarrow> quiet m m'"
  by (auto simp: with_volumes_def quiet_def frame_def idnames_def entry_of_def split: option.splits prod.splits)

lemma removal_quiet: "removal_section en v pc m = (pc', m') \<Longrightarrow> quiet m m'"
  by (cases pc) (auto split: option.splits prod.splits sum.splits dest: with_volumes_quiet)

lemma release_quiet:
  assumes "release_section en pc m = (pc', m')"
  shows "quiet m m'"
proof (cases "(en, pc, m)" rule: release_section.cases)
  case (3 en names v pc m)
  obtain p1 m1 where "removal_section en v pc m = (p1, m1)" by fastforce
  with removal_quiet [OF this] assms 3 show ?thesis by (auto split: removal_pc.splits)
qed (use assms in \<open>auto split: option.splits\<close>)

lemma remove_takes: "remove_section en i pc m = (pc', m') \<Longrightarrow> takes i m m'"
  by (cases pc)
     (auto split: prod.splits option.splits if_splits dest: take_entry_takes release_quiet)

lemma remove_op_takes: "remove_op_section en i pc m = (pc', m') \<Longrightarrow> takes i m m'"
  by (cases pc)
     (auto split: prod.splits option.splits if_splits remove_pc.splits dest: remove_takes release_quiet)

lemma ttl_takes: "ttl_section en i pc m = (pc', m') \<Longrightarrow> takes i m m'"
  by (cases pc)
     (auto simp: remove_if_still_ended_take_def split: prod.splits option.splits if_splits remove_pc.splits
       dest: remove_takes take_entry_takes)

lemma auto_remove_takes: "auto_remove_take i pid m = (m', r) \<Longrightarrow> takes i m m'"
  by (auto simp: auto_remove_take_def Let_def split: if_splits dest: take_entry_takes)

text \<open>The transition a task is in, if any: the sandbox and the state it holds it in.\<close>

fun trans_of :: "task \<Rightarrow> (string \<times> sandbox_status) option" where
  "trans_of (TStop i (SpStop grace pc)) = (if stop_trans pc then Some (i, Stopping) else None)"
| "trans_of (TStart i (SoStart pc)) = (if start_trans pc then Some (i, Creating) else None)"
| "trans_of (TRestart i (RoStop grace pc)) = (if stop_trans pc then Some (i, Stopping) else None)"
| "trans_of (TRestart i (RoStart pc)) = (if start_trans pc then Some (i, Creating) else None)"
| "trans_of (TSupervised rq (ReStart pc)) = (if start_trans pc then Some (rr_id rq, Creating) else None)"
| "trans_of _ = None"

definition plain_effect :: "task \<Rightarrow> task \<Rightarrow> 'c manager \<Rightarrow> 'c manager \<Rightarrow> bool" where
  "plain_effect t t' m m' \<longleftrightarrow>
     (\<exists>i X. trans_of t \<in> {None, Some (i, X)} \<and> trans_of t' \<in> {None, Some (i, X)} \<and>
        moves (trans_of t \<noteq> None) (trans_of t' \<noteq> None) X i m m') \<or>
     (trans_of t = None \<and> trans_of t' = None \<and> (\<exists>i. took i m m'))"

lemma plain_moves:
  assumes "moves a b X i m m'" "trans_of t = (if a then Some (i, X) else None)" "trans_of t' = (if b then Some (i, X) else None)"
  shows "plain_effect t t' m m'"
  unfolding plain_effect_def using assms by (intro disjI1 exI [of _ i] exI [of _ X]) auto

lemma plain_takes:
  assumes "takes i m m'" "trans_of t = None" "trans_of t' = None"
  shows "plain_effect t t' m m'"
proof (cases "quiet m m'")
  case True
  with assms show ?thesis by (intro plain_moves [of False False Creating i]) simp_all
next
  case False
  with assms show ?thesis by (auto simp: plain_effect_def takes_def)
qed

lemma plain_quiet: "quiet m m' \<Longrightarrow> trans_of t = None \<Longrightarrow> trans_of t' = None \<Longrightarrow> plain_effect t t' m m'"
  by (rule plain_takes) simp_all

lemma plain_calm: "touches unchanged i m m' \<Longrightarrow> trans_of t = None \<Longrightarrow> trans_of t' = None \<Longrightarrow> plain_effect t t' m m'"
  by (rule plain_moves [of False False Creating i]) simp_all

lemma plain_stop:
  assumes "task_section wd en (TStop i pc) m = (t', m', new)"
  shows "plain_effect (TStop i pc) t' m m'"
proof (cases pc)
  case (SpStop grace sp)
  obtain sp' m1 where s: "stop_section en grace i sp m = (sp', m1)" by (cases "stop_section en grace i sp m")
  have "trans_of t' = (if stop_trans sp' then Some (i, Stopping) else None)" "m1 = m'"
    using assms SpStop s by (auto split: stop_pc.splits sum.splits)
  with stop_moves [OF s] SpStop show ?thesis by (intro plain_moves) auto
next
  case (SpRemove rp)
  obtain rp' m1 where s: "remove_op_section en i rp m = (rp', m1)" by (cases "remove_op_section en i rp m")
  have "trans_of t' = None" "m1 = m'"
    using assms SpRemove s by (auto split: remove_op_pc.splits)
  with remove_op_takes [OF s] SpRemove show ?thesis by (intro plain_takes) auto
qed (use assms in \<open>auto split: option.splits if_splits intro!: plain_quiet\<close>)

lemma plain_start:
  assumes "start_section en i sp m = (sp', m', w)" "trans_of t = (if start_trans sp then Some (i, Creating) else None)"
    "trans_of t' = (if start_trans sp' then Some (i, Creating) else None)"
  shows "plain_effect t t' m m'"
  using start_moves [OF assms(1)] assms(2,3) by (intro plain_moves)

lemma plain_start_op:
  assumes "task_section wd en (TStart i pc) m = (t', m', new)"
  shows "plain_effect (TStart i pc) t' m m'"
proof (cases pc)
  case SoClear
  obtain m1 r where s: "clear_restart_history (en_save en) i m = (m1, r)" by (cases "clear_restart_history (en_save en) i m")
  with assms SoClear clear_history_touches [OF s] show ?thesis
    by (intro plain_calm [of i]) (auto split: sum.splits)
next
  case (SoStart sp)
  obtain sp' m1 w where s: "start_section en i sp m = (sp', m1, w)" by (cases "start_section en i sp m") auto
  with assms SoStart have "trans_of t' = (if start_trans sp' then Some (i, Creating) else None)" "m1 = m'"
    by (auto split: start_pc.splits sum.splits)
  with s SoStart show ?thesis by (intro plain_start [of en i sp m sp' m' w]) auto
qed (use assms in \<open>auto split: sum.splits intro!: plain_quiet\<close>)

lemma plain_restart_op:
  assumes "task_section wd en (TRestart i pc) m = (t', m', new)"
  shows "plain_effect (TRestart i pc) t' m m'"
proof (cases pc)
  case (RoStop grace sp)
  obtain sp' m1 where s: "stop_section en grace i sp m = (sp', m1)" by (cases "stop_section en grace i sp m")
  have "trans_of t' = (if stop_trans sp' then Some (i, Stopping) else None)" "m1 = m'"
    using assms RoStop s by (auto split: stop_pc.splits sum.splits)
  with stop_moves [OF s] RoStop show ?thesis by (intro plain_moves) auto
next
  case RoClear
  obtain m1 r where s: "clear_restart_history (en_save en) i m = (m1, r)" by (cases "clear_restart_history (en_save en) i m")
  with assms RoClear clear_history_touches [OF s] show ?thesis
    by (intro plain_calm [of i]) (auto split: sum.splits)
next
  case (RoStart sp)
  obtain sp' m1 w where s: "start_section en i sp m = (sp', m1, w)" by (cases "start_section en i sp m") auto
  with assms RoStart have "trans_of t' = (if start_trans sp' then Some (i, Creating) else None)" "m1 = m'"
    by (auto split: start_pc.splits sum.splits)
  with s RoStart show ?thesis by (intro plain_start [of en i sp m sp' m' w]) auto
qed (use assms in \<open>auto split: sum.splits intro!: plain_quiet\<close>)

lemma plain_supervised:
  assumes "task_section wd en (TSupervised rq pc) m = (t', m', new)"
  shows "plain_effect (TSupervised rq pc) t' m m'"
proof (cases pc)
  case ReClaim
  obtain m1 b where s: "claim_restart (en_save en) rq m = (m1, b)" by (cases "claim_restart (en_save en) rq m")
  with assms ReClaim claim_restart_touches [OF s] show ?thesis
    by (intro plain_calm [of "rr_id rq"]) (auto split: bool.splits)
next
  case (ReStart sp)
  obtain sp' m1 w where s: "start_section en (rr_id rq) sp m = (sp', m1, w)" by (cases "start_section en (rr_id rq) sp m") auto
  with assms ReStart show ?thesis by (intro plain_start [of en "rr_id rq" sp m sp' m' w]) auto
qed (use assms in \<open>auto intro!: plain_quiet\<close>)

lemma plain_watch:
  assumes "task_section wd en (TWatch i pid auto pc) m = (t', m', new)"
  shows "plain_effect (TWatch i pid auto pc) t' m m'"
proof (cases pc)
  case WaWait
  show ?thesis
  proof (cases "mg_exit m pid")
    case (Some x)
    obtain m1 b where s: "mark_exited (en_save en) (en_now en) i pid (fst x) (snd x) m = (m1, b)"
      by (cases "mark_exited (en_save en) (en_now en) i pid (fst x) (snd x) m")
    have "moves False False Creating i m m1"
      by (rule touches_moves [OF mark_exited_touches [OF s]]) (auto simp: calm_def)
    with assms WaWait Some s show ?thesis by (intro plain_moves) (auto split: prod.splits)
  qed (use assms WaWait in \<open>auto intro!: plain_quiet\<close>)
next
  case WaAutoRemove
  obtain m1 r where s: "auto_remove_take i pid m = (m1, r)" by (cases "auto_remove_take i pid m")
  with assms WaAutoRemove auto_remove_takes [OF s] show ?thesis by (intro plain_takes) (auto split: option.splits)
next
  case (WaRemove rp)
  obtain rp' m1 where s: "remove_section en i rp m = (rp', m1)" by (cases "remove_section en i rp m")
  with assms WaRemove remove_takes [OF s] show ?thesis by (intro plain_takes) (auto split: remove_pc.splits)
qed (use assms in \<open>auto intro!: plain_quiet\<close>)

lemma plain_signal:
  assumes "task_section wd en (TSignal i sig pc) m = (t', m', new)"
  shows "plain_effect (TSignal i sig pc) t' m m'"
proof (cases pc)
  case (SgMark s)
  obtain m1 r where c: "mark_manually_stopped (en_save en) i m = (m1, r)" by (cases "mark_manually_stopped (en_save en) i m")
  with assms SgMark mark_manual_touches [OF c] show ?thesis
    by (intro plain_calm [of i]) (auto simp: Let_def split: sum.splits if_splits)
next
  case (SgThaw tp)
  obtain tp' m1 where th: "thaw_section en i tp m = (tp', m1)" by fastforce
  with assms SgThaw thaw_quiet [OF th] show ?thesis by (intro plain_quiet) (auto split: thaw_pc.splits)
qed (use assms in \<open>auto split: option.splits sum.splits if_splits intro!: plain_quiet\<close>)

fun is_plain :: "task \<Rightarrow> bool" where
  "is_plain (TCreate pc l) = False"
| "is_plain (TRename i name pc) = False"
| "is_plain _ = True"

lemma plain_task:
  assumes "task_section wd en t m = (t', m', new)" "is_plain t"
  shows "plain_effect t t' m m'"
proof (cases t)
  case (TStop i pc) with assms show ?thesis using plain_stop by auto
next
  case (TStart i pc) with assms show ?thesis using plain_start_op by auto
next
  case (TRestart i pc) with assms show ?thesis using plain_restart_op by auto
next
  case (TRemove i pc)
  with assms show ?thesis by (auto split: prod.splits intro: plain_takes dest: remove_op_takes)
next
  case (TTimeout i pc)
  with assms show ?thesis by (auto split: prod.splits intro: plain_takes dest: remove_takes)
next
  case (TTtl i pc)
  with assms show ?thesis by (auto split: prod.splits intro: plain_takes dest: ttl_takes)
next
  case (TWatch i pid auto pc) with assms show ?thesis using plain_watch by auto
next
  case (TSupervised rq pc) with assms show ?thesis using plain_supervised by auto
next
  case (TVolume v pc)
  with assms show ?thesis by (auto split: prod.splits intro!: plain_quiet dest: removal_quiet)
next
  case (TSignal i sig pc) with assms show ?thesis using plain_signal by auto
next
  case (TPause i pc)
  with assms show ?thesis by (auto split: prod.splits intro!: plain_quiet dest: pause_quiet)
next
  case (TUnpause i pc)
  with assms show ?thesis by (auto split: prod.splits intro!: plain_quiet dest: unpause_quiet)
qed (use assms in auto)

section \<open>Names, permits and new ids\<close>

text \<open>The name a task has reserved, the permit it holds, and the id and name of the sandbox it is making.\<close>

fun resv :: "task \<Rightarrow> string option" where
  "resv (TCreate pc l) = (if cl_reserved l then Some (cl_name l) else None)"
| "resv (TRename i name RnSet) = Some name"
| "resv (TRename i name (RnDrop r)) = Some name"
| "resv _ = None"

fun permit :: "task \<Rightarrow> nat" where
  "permit (TCreate pc l) = (if cl_permit l then 1 else 0)"
| "permit _ = 0"

fun booting :: "create_pc \<Rightarrow> bool" where
  "booting CrImage = True"
| "booting CrBoot = True"
| "booting CrListen = True"
| "booting CrPersist = True"
| "booting CrInsert = True"
| "booting _ = False"

fun named :: "create_pc \<Rightarrow> bool" where
  "named CrAuthorize = True"
| "named CrPermit = True"
| "named pc = booting pc"

fun pend :: "task \<Rightarrow> string option" where
  "pend (TCreate pc l) = (if booting pc then Some (cl_id l) else None)"
| "pend _ = None"

fun checked :: "task \<Rightarrow> string option" where
  "checked (TCreate pc l) = (if named pc \<and> cl_name l \<noteq> '''' then Some (cl_name l) else None)"
| "checked _ = None"

text \<open>What a task holds fits its place.\<close>

fun wf_task :: "task \<Rightarrow> bool" where
  "wf_task (TCreate pc l) \<longleftrightarrow>
     (booting pc \<longrightarrow> cl_permit l) \<and>
     (named pc \<and> cl_name l \<noteq> '''' \<longrightarrow> cl_reserved l) \<and>
     (pc = CrCheckName \<longrightarrow> cl_reserved l \<and> cl_name l \<noteq> '''') \<and>
     (cl_permit l \<longrightarrow> booting pc \<or> (\<exists>err. pc = CrAbort err)) \<and>
     (cl_reserved l \<longrightarrow> named pc \<or> pc = CrCheckName \<or> pc = CrDropName \<or> (\<exists>err. pc = CrAbort err)) \<and>
     (cl_reserved l \<or> named pc \<and> cl_name l \<noteq> '''' \<longrightarrow> sandbox_name (cl_name l) = Inr ())"
| "wf_task (TRename i name pc) \<longleftrightarrow> (pc = RnSet \<longrightarrow> sandbox_name name = Inr ())"
| "wf_task _ \<longleftrightarrow> True"

definition keeps :: "task \<Rightarrow> task \<Rightarrow> bool" where
  "keeps t t' \<longleftrightarrow>
     resv t' = resv t \<and> permit t' = permit t \<and> pend t' \<in> {None, pend t} \<and> checked t' \<in> {None, checked t}"

text \<open>The kinds of sections that matter for names and capacity.\<close>

inductive effect :: "string \<Rightarrow> task \<Rightarrow> task \<Rightarrow> 'c manager \<Rightarrow> 'c manager \<Rightarrow> bool" for new_id t t' m m' where
  plain: "plain_effect t t' m m' \<Longrightarrow> keeps t t' \<Longrightarrow> effect new_id t t' m m'"
| checks: "m' = m \<Longrightarrow> resv t' = resv t \<Longrightarrow> permit t' = permit t \<Longrightarrow> pend t' = None \<Longrightarrow> resv t = Some n \<Longrightarrow>
    checked t' = Some n \<Longrightarrow> holder_of n m = None \<Longrightarrow> trans_of t = None \<Longrightarrow> trans_of t' = None \<Longrightarrow> effect new_id t t' m m'"
| reserves: "n \<notin> mg_pending m \<Longrightarrow> m' = m\<lparr>mg_pending := insert n (mg_pending m)\<rparr> \<Longrightarrow> resv t = None \<Longrightarrow> resv t' = Some n \<Longrightarrow>
    permit t' = permit t \<Longrightarrow> pend t' = None \<Longrightarrow> checked t' = None \<Longrightarrow> trans_of t = None \<Longrightarrow> trans_of t' = None \<Longrightarrow>
    effect new_id t t' m m'"
| acquires: "0 < mg_permits m \<Longrightarrow> m' = m\<lparr>mg_permits := mg_permits m - 1\<rparr> \<Longrightarrow> permit t = 0 \<Longrightarrow> permit t' = 1 \<Longrightarrow>
    resv t' = resv t \<Longrightarrow> pend t = None \<Longrightarrow> pend t' = Some new_id \<Longrightarrow> checked t' = checked t \<Longrightarrow> trans_of t = None \<Longrightarrow>
    trans_of t' = None \<Longrightarrow> effect new_id t t' m m'"
| inserts: "m' = put_entry i e m \<Longrightarrow> pend t = Some i \<Longrightarrow> pend t' = None \<Longrightarrow> permit t = 1 \<Longrightarrow> permit t' = 0 \<Longrightarrow>
    resv t' = resv t \<Longrightarrow> checked t' = None \<Longrightarrow> sm_status (se_meta e) = Running \<Longrightarrow> sm_id (se_meta e) = i \<Longrightarrow>
    name_of e = '''' \<or> (checked t = Some (name_of e) \<and> resv t = Some (name_of e) \<and> sandbox_name (name_of e) = Inr ()) \<Longrightarrow>
    trans_of t = None \<Longrightarrow> trans_of t' = None \<Longrightarrow> effect new_id t t' m m'"
| releases: "entry_of m' = entry_of m \<Longrightarrow> idnames m' = idnames m \<Longrightarrow> mg_max_sandboxes m' = mg_max_sandboxes m \<Longrightarrow>
    mg_permits m' + permit t' = mg_permits m + permit t \<Longrightarrow> mg_pending m' = mg_pending m - set_option (resv t) \<Longrightarrow>
    resv t' = None \<Longrightarrow> pend t' = None \<Longrightarrow> checked t' = None \<Longrightarrow> trans_of t = None \<Longrightarrow> trans_of t' = None \<Longrightarrow> effect new_id t t' m m'"
| renames: "holder_of n m = None \<Longrightarrow> sandbox_name n = Inr () \<Longrightarrow> entry_of m i = Some e \<Longrightarrow> disk_only m m1 \<Longrightarrow>
    quiet (put_entry i (set_name n e) m1) m' \<Longrightarrow> resv t = Some n \<Longrightarrow> checked t = None \<Longrightarrow> keeps t t' \<Longrightarrow>
    trans_of t = None \<Longrightarrow> trans_of t' = None \<Longrightarrow> effect new_id t t' m m'"

lemma keeps_trivial: "resv t = None \<Longrightarrow> resv t' = None \<Longrightarrow> permit t = 0 \<Longrightarrow> permit t' = 0 \<Longrightarrow> pend t' = None \<Longrightarrow> checked t' = None \<Longrightarrow> keeps t t'"
  by (simp add: keeps_def)

text \<open>The entry the locals of a create become.\<close>

lemma name_of_new_entry [simp]: "name_of (new_entry l now) = cl_name l" "sm_status (se_meta (new_entry l now)) = Running"
  "sm_id (se_meta (new_entry l now)) = cl_id l"
  by (simp_all add: new_entry_def name_of_def cl_name_def new_meta_def Let_def)

lemma cl_name_add_mount [simp]: "cl_name (add_mount mt l) = cl_name l"
  by (simp add: cl_name_def add_mount_def)

lemma add_mount_keeps [simp]: "cl_reserved (add_mount mt l) = cl_reserved l" "cl_permit (add_mount mt l) = cl_permit l"
  "cl_id (add_mount mt l) = cl_id l"
  by (simp_all add: add_mount_def)

lemma cl_name_update [simp]: "cl_name (l\<lparr>cl_claims := a\<rparr>) = cl_name l" "cl_name (l\<lparr>cl_reserved := b\<rparr>) = cl_name l"
  "cl_name (l\<lparr>cl_permit := b\<rparr>) = cl_name l" "cl_name (l\<lparr>cl_id := i\<rparr>) = cl_name l" "cl_name (l\<lparr>cl_created_at := n\<rparr>) = cl_name l"
  "cl_name (l\<lparr>cl_listeners := ps, cl_opts := (cl_opts l)\<lparr>co_spec := (co_spec (cl_opts l))\<lparr>sp_published_ports := qs\<rparr>\<rparr>\<rparr>) = cl_name l"
  by (simp_all add: cl_name_def)

lemma inherit_one_keeps:
  assumes "inherit_one ro mt (l, m) = (l', m')"
  shows "quiet m m' \<and> cl_name l' = cl_name l \<and> cl_reserved l' = cl_reserved l \<and> cl_permit l' = cl_permit l \<and> cl_id l' = cl_id l"
  using assms by (auto simp: inherit_one_def quiet_def split: if_splits option.splits)

lemma inherit_from_keeps:
  "inherit_from ro mts (l, m) = (l', m') \<Longrightarrow>
     quiet m m' \<and> cl_name l' = cl_name l \<and> cl_reserved l' = cl_reserved l \<and> cl_permit l' = cl_permit l \<and> cl_id l' = cl_id l"
proof (induction mts arbitrary: l m)
  case (Cons mt mts)
  obtain l1 m1 where o: "inherit_one ro mt (l, m) = (l1, m1)" by (cases "inherit_one ro mt (l, m)")
  with Cons.prems have "inherit_from ro mts (l1, m1) = (l', m')" by (simp add: inherit_from_def)
  from Cons.IH [OF this] inherit_one_keeps [OF o] show ?case by (metis quiet_trans)
qed (simp add: inherit_from_def)

lemma quiet_updates [simp]: "quiet m (m\<lparr>mg_broker := b, mg_active := n\<rparr>)" "quiet m (m\<lparr>mg_volumes := v\<rparr>)"
  by (simp_all add: quiet_def frame_def idnames_def entry_of_def fun_eq_iff)

lemma effect_quiet: "quiet m m' \<Longrightarrow> trans_of t = None \<Longrightarrow> trans_of t' = None \<Longrightarrow> keeps t t' \<Longrightarrow> effect new_id t t' m m'"
  by (rule effect.plain [OF plain_quiet])

lemma effect_touches:
  "touches R i m m' \<Longrightarrow> (\<And>a b. R a b \<Longrightarrow> calm a b) \<Longrightarrow> trans_of t = None \<Longrightarrow> trans_of t' = None \<Longrightarrow> keeps t t' \<Longrightarrow>
     effect new_id t t' m m'"
  using plain_moves [OF touches_moves [of R i m m' False Creating], of t t'] by (auto intro: effect.plain)

lemma effect_takes: "takes i m m' \<Longrightarrow> trans_of t = None \<Longrightarrow> trans_of t' = None \<Longrightarrow> keeps t t' \<Longrightarrow> effect new_id t t' m m'"
  by (rule effect.plain [OF plain_takes])

lemma provide_volume_quiet: "provide_volume tj en mt name m = (m', r) \<Longrightarrow> quiet m m'"
  by (auto simp: provide_volume_def quiet_def split: option.splits prod.splits)

lemma persist_quiet: "persist_meta out meta m = (m', r) \<Longrightarrow> quiet m m'"
  by (rule disk_quiet [OF persist_disk_only])

lemma release_held_effect:
  shows "entry_of (release_held l m) = entry_of m" "idnames (release_held l m) = idnames m"
    "mg_max_sandboxes (release_held l m) = mg_max_sandboxes m"
    "mg_permits (release_held l m) = mg_permits m + (if cl_permit l then 1 else 0)"
    "mg_pending (release_held l m) = mg_pending m - (if cl_reserved l then {cl_name l} else {})"
  by (auto simp: release_held_def Let_def on_volumes_def reservation_drop_def entry_of_def idnames_def fun_eq_iff)

lemma keeps_create:
  assumes "cl_name l' = cl_name l" "cl_reserved l' = cl_reserved l" "cl_permit l' = cl_permit l" "cl_id l' = cl_id l"
    and "booting pc' \<longrightarrow> booting pc" "named pc' \<longrightarrow> named pc \<or> cl_name l = []"
  shows "keeps (TCreate pc l) (TCreate pc' l')"
  using assms by (auto simp: keeps_def)

lemma create_keeps:
  assumes "quiet m m'" "cl_name l' = cl_name l" "cl_reserved l' = cl_reserved l" "cl_permit l' = cl_permit l" "cl_id l' = cl_id l"
    and "booting pc' \<longrightarrow> booting pc" "named pc' \<longrightarrow> named pc \<or> cl_name l = []"
  shows "effect i (TCreate pc l) (TCreate pc' l') m m'"
  by (rule effect_quiet [OF assms(1) _ _ keeps_create [OF assms(2-7)]]) simp_all

definition create_ok :: "string \<Rightarrow> create_pc \<Rightarrow> create_locals \<Rightarrow> create_pc \<Rightarrow> create_locals \<Rightarrow> 'c manager \<Rightarrow> 'c manager \<Rightarrow> bool" where
  "create_ok i pc l pc' l' m m' \<longleftrightarrow> effect i (TCreate pc l) (TCreate pc' l') m m' \<and> wf_task (TCreate pc' l')"

lemma create_mounts:
  assumes "create_section wd en (CrMounts mts) l m = (pc', l', m', w)" "wf_task (TCreate (CrMounts mts) l)"
  shows "create_ok (en_id en) (CrMounts mts) l pc' l' m m'"
proof (cases mts)
  case (Cons mt rest)
  with assms show ?thesis
    by (auto simp: create_ok_def create_keeps split: option.splits sum.splits)
qed (use assms in \<open>auto simp: create_ok_def create_keeps\<close>)

lemma create_ensure:
  assumes "create_section wd en (CrEnsure mt n mts) l m = (pc', l', m', w)" "wf_task (TCreate (CrEnsure mt n mts) l)"
  shows "create_ok (en_id en) (CrEnsure mt n mts) l pc' l' m m'"
proof -
  obtain m1 r where p: "provide_volume (wd_json wd) en mt n m = (m1, r)" by (cases "provide_volume (wd_json wd) en mt n m")
  show ?thesis
    using assms p provide_volume_quiet [OF p] by (auto simp: create_ok_def create_keeps split: sum.splits)
qed

lemma create_inherit:
  assumes "create_section wd en (CrInherit specs) l m = (pc', l', m', w)" "wf_task (TCreate (CrInherit specs) l)"
  shows "create_ok (en_id en) (CrInherit specs) l pc' l' m m'"
proof (cases specs)
  case Nil
  with assms show ?thesis by (auto simp: create_ok_def create_keeps split: sum.splits)
next
  case (Cons a list)
  with assms show ?thesis by (auto simp: create_ok_def create_keeps split: sum.splits prod.splits)
qed

lemma create_inherit_from:
  assumes "create_section wd en (CrInheritFrom i r ro sp) l m = (pc', l', m', w)" "wf_task (TCreate (CrInheritFrom i r ro sp) l)"
  shows "create_ok (en_id en) (CrInheritFrom i r ro sp) l pc' l' m m'"
proof (cases "entry_of m i")
  case (Some e)
  obtain l1 m1 where h: "inherit_from ro (co_mounts (sm_options (se_meta e))) (l, m) = (l1, m1)"
    by (cases "inherit_from ro (co_mounts (sm_options (se_meta e))) (l, m)")
  show ?thesis
    using assms Some h inherit_from_keeps [OF h] by (auto simp: create_ok_def create_keeps)
qed (use assms in \<open>auto simp: create_ok_def create_keeps\<close>)

lemma create_reserve:
  assumes "create_section wd en CrReserve l m = (pc', l', m', w)" "wf_task (TCreate CrReserve l)"
  shows "create_ok (en_id en) CrReserve l pc' l' m m'"
proof (cases "cl_name l \<noteq> [] \<and> sandbox_name (cl_name l) = Inr () \<and> cl_name l \<notin> mg_pending m")
  case True
  then have "pc' = CrCheckName" "l' = l\<lparr>cl_reserved := True\<rparr>" "m' = m\<lparr>mg_pending := insert (cl_name l) (mg_pending m)\<rparr>"
    using assms(1) by (auto simp: reservation_claim_def)
  with True assms(2) show ?thesis
    unfolding create_ok_def by (intro conjI effect.reserves [of "cl_name l"]) simp_all
next
  case False
  with assms show ?thesis
    by (auto simp: create_ok_def reservation_claim_def create_keeps split: if_splits sum.splits)
qed

lemma create_check:
  assumes "create_section wd en CrCheckName l m = (pc', l', m', w)" "wf_task (TCreate CrCheckName l)"
  shows "create_ok (en_id en) CrCheckName l pc' l' m m'"
proof (cases "holder_of (cl_name l) m")
  case None
  then have "pc' = CrAuthorize" "l' = l" "m' = m"
    using assms(1) by auto
  with None assms(2) show ?thesis
    unfolding create_ok_def by (intro conjI effect.checks [where n = "cl_name l"]) simp_all
qed (use assms in \<open>auto simp: create_ok_def create_keeps\<close>)

lemma create_authorize:
  assumes "create_section wd en CrAuthorize l m = (pc', l', m', w)" "wf_task (TCreate CrAuthorize l)"
  shows "create_ok (en_id en) CrAuthorize l pc' l' m m'"
  using assms by (auto simp: create_ok_def create_keeps split: option.splits sum.splits if_splits)

lemma create_permit:
  assumes "create_section wd en CrPermit l m = (pc', l', m', w)" "wf_task (TCreate CrPermit l)"
  shows "create_ok (en_id en) CrPermit l pc' l' m m'"
proof (cases "mg_permits m = 0")
  case False
  then have "pc' = CrImage" "l' = l\<lparr>cl_permit := True, cl_id := en_id en\<rparr>" "m' = m\<lparr>mg_permits := mg_permits m - 1\<rparr>"
    using assms(1) by auto
  with False assms(2) show ?thesis
    unfolding create_ok_def by (intro conjI effect.acquires) (simp_all add: cl_name_def)
qed (use assms in \<open>auto simp: create_ok_def create_keeps\<close>)

lemma create_boot:
  assumes "create_section wd en pc l m = (pc', l', m', w)" "wf_task (TCreate pc l)"
  shows "pc = CrImage \<Longrightarrow> create_ok (en_id en) pc l pc' l' m m'" "pc = CrBoot \<Longrightarrow> create_ok (en_id en) pc l pc' l' m m'"
    "pc = CrListen \<Longrightarrow> create_ok (en_id en) pc l pc' l' m m'"
  using assms by (auto simp: create_ok_def create_keeps split: option.splits sum.splits)

lemma create_persist:
  assumes "create_section wd en CrPersist l m = (pc', l', m', w)" "wf_task (TCreate CrPersist l)"
  shows "create_ok (en_id en) CrPersist l pc' l' m m'"
proof -
  obtain m1 r where p: "persist_meta (en_save en) (new_meta l) m = (m1, r)" by (cases "persist_meta (en_save en) (new_meta l) m")
  show ?thesis
    using assms p persist_quiet [OF p] by (auto simp: create_ok_def create_keeps split: sum.splits)
qed

lemma create_insert:
  assumes "create_section wd en CrInsert l m = (pc', l', m', w)" "wf_task (TCreate CrInsert l)"
  shows "create_ok (en_id en) CrInsert l pc' l' m m'"
proof -
  have "pc' = CrDropName" "l' = l\<lparr>cl_permit := False\<rparr>" "m' = put_entry (cl_id l) (new_entry l (en_now en)) m"
    using assms(1) by auto
  with assms(2) show ?thesis
    unfolding create_ok_def
    by (intro conjI effect.inserts [where i = "cl_id l" and e = "new_entry l (en_now en)"]) auto
qed

lemma create_drop_name:
  assumes "create_section wd en CrDropName l m = (pc', l', m', w)" "wf_task (TCreate CrDropName l)"
  shows "create_ok (en_id en) CrDropName l pc' l' m m'"
proof -
  have "pc' = CrRegister" "l' = l\<lparr>cl_reserved := False\<rparr>" "m' = (if cl_reserved l then reservation_drop (cl_name l) m else m)"
    using assms(1) by auto
  with assms(2) show ?thesis
    unfolding create_ok_def by (intro conjI effect.releases) (auto simp: reservation_drop_def idnames_def)
qed

lemma create_late:
  assumes "create_section wd en pc l m = (pc', l', m', w)" "wf_task (TCreate pc l)"
  shows "pc = CrRegister \<Longrightarrow> create_ok (en_id en) pc l pc' l' m m'" "pc = CrEmitCreate \<Longrightarrow> create_ok (en_id en) pc l pc' l' m m'"
    "pc = CrEmitStart \<Longrightarrow> create_ok (en_id en) pc l pc' l' m m'" "pc = CrSecrets \<Longrightarrow> create_ok (en_id en) pc l pc' l' m m'"
    "pc = CrSpawn \<Longrightarrow> create_ok (en_id en) pc l pc' l' m m'" "pc = CrFailMainDie err \<Longrightarrow> create_ok (en_id en) pc l pc' l' m m'"
    "pc = CrRemove err \<Longrightarrow> create_ok (en_id en) pc l pc' l' m m'" "pc = CrDone r \<Longrightarrow> create_ok (en_id en) pc l pc' l' m m'"
  using assms by (auto simp: create_ok_def create_keeps split: option.splits sum.splits spawn_result.splits if_splits)

lemma create_finish:
  assumes "create_section wd en CrFinish l m = (pc', l', m', w)" "wf_task (TCreate CrFinish l)"
  shows "create_ok (en_id en) CrFinish l pc' l' m m'"
proof -
  have r: "pc' = CrDone (Inr (cl_id l))" "l' = l\<lparr>cl_claims := []\<rparr>" "m' = release_held l (m\<lparr>mg_active := mg_active m + 1\<rparr>)"
    "\<not> cl_permit l" "\<not> cl_reserved l" using assms by auto
  then have "quiet m m'"
    using release_held_effect [of l "m\<lparr>mg_active := mg_active m + 1\<rparr>"] by (simp add: quiet_def frame_def idnames_def)
  with r show ?thesis by (simp add: create_ok_def create_keeps)
qed

lemma create_record_main:
  assumes "create_section wd en (CrRecordMain pid auto) l m = (pc', l', m', w)" "wf_task (TCreate (CrRecordMain pid auto) l)"
  shows "create_ok (en_id en) (CrRecordMain pid auto) l pc' l' m m'"
proof -
  obtain m1 r where p: "record_main (cl_id l) pid True True m = (m1, r)" by (cases "record_main (cl_id l) pid True True m")
  show ?thesis
    using assms p record_main_quiet [OF p] by (auto simp: create_ok_def create_keeps split: sum.splits)
qed

lemma create_fail:
  assumes "create_section wd en pc l m = (pc', l', m', w)" "wf_task (TCreate pc l)"
  shows "pc = CrFailMain err \<Longrightarrow> create_ok (en_id en) pc l pc' l' m m'"
    and "pc = CrFailMainClose err \<Longrightarrow> create_ok (en_id en) pc l pc' l' m m'"
    and "pc = CrRemoving err i rp \<Longrightarrow> create_ok (en_id en) pc l pc' l' m m'"
    and "pc = CrAbort err \<Longrightarrow> create_ok (en_id en) pc l pc' l' m m'"
proof -
  assume pc: "pc = CrFailMain err"
  obtain m1 b where s: "fail_main_start (en_save en) (en_now en) (cl_id l) m = (m1, b)"
    by (cases "fail_main_start (en_save en) (en_now en) (cl_id l) m")
  with assms pc have r: "m1 = m'" "l' = l" "pc' = (if b then CrFailMainClose err else CrRemove err)" "wf_task (TCreate pc' l')"
    by (auto split: bool.splits)
  have "effect (en_id en) (TCreate pc l) (TCreate pc' l') m m'"
    by (rule effect_touches [OF fail_main_start_touches [OF s [unfolded r(1)]]]) (auto simp: calm_def r pc intro!: keeps_create)
  with r show "create_ok (en_id en) pc l pc' l' m m'" by (simp add: create_ok_def)
next
  assume pc: "pc = CrFailMainClose err"
  with assms have r: "m' = close_listeners (cl_id l) m" "l' = l" "pc' = CrFailMainDie err" "wf_task (TCreate pc' l')"
    by auto
  have "effect (en_id en) (TCreate pc l) (TCreate pc' l') m m'"
    unfolding r(1) by (rule effect_touches [OF listeners_touches(1)]) (auto simp: calm_def r pc intro!: keeps_create)
  with r show "create_ok (en_id en) pc l pc' l' m m'" by (simp add: create_ok_def)
next
  assume pc: "pc = CrRemoving err i rp"
  obtain rp' m1 where s: "remove_op_section en i rp m = (rp', m1)" by (cases "remove_op_section en i rp m")
  with assms pc have r: "m1 = m'" "l' = l" "\<not> booting pc'" "\<not> named pc'" "wf_task (TCreate pc' l')"
    by (auto split: remove_op_pc.splits)
  have "effect (en_id en) (TCreate pc l) (TCreate pc' l') m m'"
    by (rule effect_takes [OF remove_op_takes [OF s [unfolded r(1)]]]) (auto simp: r intro!: keeps_create)
  with r show "create_ok (en_id en) pc l pc' l' m m'" by (simp add: create_ok_def)
next
  assume pc: "pc = CrAbort err"
  with assms have "pc' = CrDone (Inl err)" "l' = l\<lparr>cl_claims := [], cl_reserved := False, cl_permit := False\<rparr>" "m' = release_held l m"
    by auto
  then show "create_ok (en_id en) pc l pc' l' m m'"
    using release_held_effect [of l m] unfolding create_ok_def pc by (intro conjI effect.releases) simp_all
qed

lemma create_effect:
  assumes "create_section wd en pc l m = (pc', l', m', w)" "wf_task (TCreate pc l)"
  shows "create_ok (en_id en) pc l pc' l' m m'"
proof (cases pc)
  case (CrMounts mts) then show ?thesis using create_mounts assms by metis
next
  case (CrEnsure mt n mts) then show ?thesis using create_ensure assms by metis
next
  case (CrInherit sp) then show ?thesis using create_inherit assms by metis
next
  case (CrInheritFrom i r ro sp) then show ?thesis using create_inherit_from assms by metis
next
  case CrReserve then show ?thesis using create_reserve assms by metis
next
  case CrCheckName then show ?thesis using create_check assms by metis
next
  case CrAuthorize then show ?thesis using create_authorize assms by metis
next
  case CrPermit then show ?thesis using create_permit assms by metis
next
  case CrImage then show ?thesis using create_boot(1) assms by metis
next
  case CrBoot then show ?thesis using create_boot(2) assms by metis
next
  case CrListen then show ?thesis using create_boot(3) assms by metis
next
  case CrPersist then show ?thesis using create_persist assms by metis
next
  case CrInsert then show ?thesis using create_insert assms by metis
next
  case CrDropName then show ?thesis using create_drop_name assms by metis
next
  case CrRegister then show ?thesis using create_late(1) assms by metis
next
  case CrEmitCreate then show ?thesis using create_late(2) assms by metis
next
  case CrEmitStart then show ?thesis using create_late(3) assms by metis
next
  case CrSecrets then show ?thesis using create_late(4) assms by metis
next
  case CrSpawn then show ?thesis using create_late(5) assms by metis
next
  case (CrRecordMain pid auto) then show ?thesis using create_record_main assms by metis
next
  case (CrFailMain err) then show ?thesis using create_fail(1) assms by metis
next
  case (CrFailMainClose err) then show ?thesis using create_fail(2) assms by metis
next
  case (CrFailMainDie err) then show ?thesis using create_late(6) assms by metis
next
  case (CrRemove err) then show ?thesis using create_late(7) assms by metis
next
  case (CrRemoving err i rp) then show ?thesis using create_fail(3) assms by metis
next
  case CrFinish then show ?thesis using create_finish assms by metis
next
  case (CrAbort err) then show ?thesis using create_fail(4) assms by metis
next
  case (CrDone r) then show ?thesis using create_late(8) assms by metis
qed

lemma rename_effect:
  assumes "rename_section en i name pc m = (pc', m')" "wf_task (TRename i name pc)"
  shows "effect (en_id en) (TRename i name pc) (TRename i name pc') m m' \<and> wf_task (TRename i name pc')"
proof (cases pc)
  case RnClaim
  show ?thesis
  proof (cases "sandbox_name name = Inr () \<and> name \<notin> mg_pending m")
    case True
    with assms RnClaim have "pc' = RnSet" "m' = m\<lparr>mg_pending := insert name (mg_pending m)\<rparr>"
      by (auto simp: reservation_claim_def)
    with True RnClaim show ?thesis by (intro conjI effect.reserves [of name]) simp_all
  next
    case False
    with assms RnClaim show ?thesis
      by (auto simp: reservation_claim_def keeps_def split: sum.splits intro!: effect_quiet)
  qed
next
  case RnSet
  show ?thesis
  proof (cases "holder_of name m = None \<and> entry_of m i \<noteq> None")
    case True
    then obtain e where e: "entry_of m i = Some e" by blast
    obtain m1 r where p: "persist_meta (en_save en) (se_meta (set_name name e)) m = (m1, r)"
      by (cases "persist_meta (en_save en) (se_meta (set_name name e)) m")
    show ?thesis
    proof (cases r)
      case (Inl err)
      with assms RnSet True e p persist_quiet [OF p] show ?thesis
        by (auto simp: rename_locked_def keeps_def Let_def intro!: effect_quiet)
    next
      case (Inr u)
      with assms RnSet True e p persist_disk_only [OF p] show ?thesis
        by (auto simp: rename_locked_def keeps_def Let_def intro!: effect.renames [where n = name and e = e])
    qed
  next
    case False
    with assms RnSet show ?thesis
      by (auto simp: rename_locked_def keeps_def split: option.splits intro!: effect_quiet)
  qed
next
  case (RnDrop r)
  with assms show ?thesis by (auto simp: reservation_drop_def idnames_def intro!: effect.releases)
qed (use assms in \<open>auto simp: keeps_def intro!: effect_quiet\<close>)

lemma plain_facts: "is_plain t \<Longrightarrow> resv t = None \<and> permit t = 0 \<and> pend t = None \<and> checked t = None \<and> wf_task t"
  by (cases t) auto

lemma plain_stays: "task_section wd en t m = (t', m', new) \<Longrightarrow> is_plain t \<Longrightarrow> is_plain t'"
  by (cases t) (auto split: prod.splits)

text \<open>Every section of every task has one of the effects, and starts at most the watcher of a main process.\<close>

lemma task_effect:
  assumes "task_section wd en t m = (t', m', new)" "wf_task t"
  shows "effect (en_id en) t t' m m' \<and> wf_task t'"
proof (cases "is_plain t")
  case True
  with plain_facts plain_stays [OF assms(1)] have "keeps t t'" "wf_task t'" by (auto intro: keeps_trivial)
  with plain_task [OF assms(1) True] show ?thesis by (auto intro!: effect.plain)
next
  case False
  then consider pc l where "t = TCreate pc l" | i name pc where "t = TRename i name pc" by (cases t) auto
  then show ?thesis
  proof cases
    case 1
    obtain pc' l' m1 w where c: "create_section wd en pc l m = (pc', l', m1, w)" by (metis prod_cases4)
    with 1 assms create_effect [OF c] show ?thesis by (simp add: create_ok_def)
  next
    case 2
    obtain pc' m1 where c: "rename_section en i name pc m = (pc', m1)" by fastforce
    with 2 assms rename_effect [OF c] show ?thesis by simp
  qed
qed

lemma new_tasks:
  assumes "task_section wd en t m = (t', m', new)" "t'' \<in> set new"
  shows "\<exists>i pid auto. t'' = TWatch i pid auto WaWait"
  using assms by (cases t) (auto simp: watch_task_def split: prod.splits option.splits)

end
