(* ===== verification/RestartLimit.thy ===== *)
theory RestartLimit
  imports Sections
begin

text \<open>
  A main process that ends again and again under a restart policy: the operations of theory
  \<open>Manager\<close> that \<open>restart_after_exit\<close> of \<open>ward-core/src/sandbox/manager.rs\<close> and the start it makes
  go through, for a daemon that can write its records.
\<close>






definition saved :: "sandbox_meta \<Rightarrow> 'c manager \<Rightarrow> 'c manager" where
  "saved meta m = fst (persist_meta Saved meta m)"


lemma saved_fields [simp]:
  "entry_of (saved meta m) = entry_of m" "mg_mains (saved meta m) = mg_mains m"
  "mg_restarts (saved meta m) = mg_restarts m" "mg_exited_ttl (saved meta m) = mg_exited_ttl m"
  by (simp_all add: saved_def persist_meta_def Let_def)

lemma put_restarts [simp]: "mg_restarts (put_entry i e m) = mg_restarts m"
  by (simp add: put_entry_def)















end
