(* ===== verification/Interleaving.thy ===== *)
theory Interleaving
  imports Sections
begin

text \<open>
  What holds of the sandbox manager whatever its tasks do and in whatever order their sections run:
  capacity, unique names, and that a sandbox is in at most one transition, which its state tells.
\<close>

section \<open>Task lists\<close>

text \<open>No two tasks have the same value of \<open>f\<close>.\<close>

definition solo :: "('t \<Rightarrow> 'x option) \<Rightarrow> 't list \<Rightarrow> bool" where
  "solo f ts \<longleftrightarrow> (\<forall>j k x. j < length ts \<and> k < length ts \<and> f (ts ! j) = Some x \<and> f (ts ! k) = Some x \<longrightarrow> j = k)"

definition after :: "'t list \<Rightarrow> nat \<Rightarrow> 't \<Rightarrow> 't list \<Rightarrow> 't list" where
  "after ts k t' new = ts[k := t'] @ new"

lemma nth_after:
  "k < length ts \<Longrightarrow> after ts k t' new ! j =
     (if j < length ts then if j = k then t' else ts ! j else new ! (j - length ts))"
  by (simp add: after_def nth_append nth_list_update)

lemma length_after [simp]: "length (after ts k t' new) = length ts + length new"
  by (simp add: after_def)

lemma after_cases:
  assumes "k < length ts" "j < length (after ts k t' new)"
  obtains (own) "j = k" "after ts k t' new ! j = t'"
  | (other) "j < length ts" "j \<noteq> k" "after ts k t' new ! j = ts ! j"
  | (new) "after ts k t' new ! j \<in> set new"
proof (cases "j < length ts")
  case True
  then show ?thesis using assms own other by (cases "j = k") (auto simp: nth_after)
next
  case False
  then have "after ts k t' new ! j \<in> set new" using assms by (auto simp: nth_after)
  then show ?thesis by (rule new)
qed

text \<open>The tasks other than the one that runs.\<close>

definition others :: "'t list \<Rightarrow> nat \<Rightarrow> 't set" where
  "others ts k = {ts ! j | j. j < length ts \<and> j \<noteq> k}"

lemma others_sub: "u \<in> others ts k \<Longrightarrow> u \<in> set ts"
  by (auto simp: others_def)

lemma set_after:
  assumes "k < length ts" "u \<in> set (after ts k t' new)"
  shows "u \<in> others ts k \<or> u = t' \<or> u \<in> set new"
proof -
  obtain j where j: "j < length (after ts k t' new)" "after ts k t' new ! j = u"
    using assms(2) by (metis in_set_conv_nth)
  from j(2) show ?thesis
    by (cases rule: after_cases [OF assms(1) j(1)]) (auto simp: others_def)
qed

lemma solo_others: "solo f ts \<Longrightarrow> k < length ts \<Longrightarrow> u \<in> others ts k \<Longrightarrow> f (ts ! k) = Some x \<Longrightarrow> f u \<noteq> Some x"
  unfolding solo_def others_def by blast

lemma solo_after:
  assumes "solo f ts" "k < length ts" "\<forall>t \<in> set new. f t = None"
    and "\<And>x. f t' = Some x \<Longrightarrow> f (ts ! k) = Some x \<or> (\<forall>u \<in> others ts k. f u \<noteq> Some x)"
  shows "solo f (after ts k t' new)"
  unfolding solo_def
proof (intro allI impI, elim conjE)
  fix i j x
  assume i: "i < length (after ts k t' new)" "f (after ts k t' new ! i) = Some x"
    and j: "j < length (after ts k t' new)" "f (after ts k t' new ! j) = Some x"
  have elsewhere: "f t' \<noteq> Some x" if "i' \<noteq> k" "i' < length ts" "f (ts ! i') = Some x" for i'
    using that assms(1,2) assms(4) [of x] unfolding solo_def others_def by blast
  have place: "(i' = k \<and> f t' = Some x) \<or> (i' < length ts \<and> i' \<noteq> k \<and> f (ts ! i') = Some x)"
    if "i' < length (after ts k t' new)" "f (after ts k t' new ! i') = Some x" for i'
    using that(2) assms(3) by (cases rule: after_cases [OF assms(2) that(1)]) auto
  show "i = j"
    using place [OF i] place [OF j] elsewhere assms(1) unfolding solo_def by blast
qed

lemma solo_snoc: "solo f ts \<Longrightarrow> f t = None \<Longrightarrow> solo f (ts @ [t])"
  by (auto simp: solo_def nth_append less_Suc_eq)

lemma sum_after:
  fixes f :: "'t \<Rightarrow> nat"
  assumes "k < length ts" "\<forall>t \<in> set new. f t = 0"
  shows "sum_list (map f (after ts k t' new)) + f (ts ! k) = sum_list (map f ts) + f t'"
proof -
  have "sum_list (map f new) = 0" using assms(2) by simp
  moreover have "sum_list (map f (ts[k := t'])) + f (ts ! k) = sum_list (map f ts) + f t'"
    using assms(1)
  proof (induction ts arbitrary: k)
    case (Cons a ts)
    then show ?case by (cases k) auto
  qed simp
  ultimately show ?thesis unfolding after_def map_append sum_list.append by linarith
qed

section \<open>Names and states per id\<close>

lemma map_of_idnames: "map_of (idnames m) i = map_option name_of (entry_of m i)"
proof -
  have "map_of (map (\<lambda>(i, e). (i, name_of e)) xs) i = map_option name_of (map_of xs i)" for xs
    by (induction xs) auto
  then show ?thesis by (simp add: idnames_def entry_of_def)
qed

lemma idnames_put: "idnames (put_entry i e m) = AList.update i (name_of e) (idnames m)"
proof -
  have "map (\<lambda>(i, e). (i, name_of e)) (AList.update i e xs) = AList.update i (name_of e) (map (\<lambda>(i, e). (i, name_of e)) xs)" for xs
    by (induction xs) auto
  then show ?thesis by (simp add: idnames_def put_entry_def)
qed

lemma idnames_delete: "idnames (m\<lparr>mg_entries := AList.delete i (mg_entries m), mg_permits := p\<rparr>) = AList.delete i (idnames m)"
proof -
  have "map (\<lambda>(i, e). (i, name_of e)) (AList.delete i xs) = AList.delete i (map (\<lambda>(i, e). (i, name_of e)) xs)" for xs
    by (induction xs) auto
  then show ?thesis by (simp add: idnames_def)
qed

lemma entry_dom: "entry_of m i = None \<longleftrightarrow> map_of (idnames m) i = None"
  by (simp add: map_of_idnames)

lemma entry_idnames: "entry_of m i = None \<longleftrightarrow> i \<notin> fst ` set (idnames m)"
  unfolding entry_dom map_of_eq_None_iff by simp

lemma holder_None:
  assumes "keys_ok (idnames m)"
  shows "holder_of n m = None \<longleftrightarrow> (\<forall>i. map_of (idnames m) i \<noteq> Some n)"
proof -
  have "holder_of n m = None \<longleftrightarrow> n \<notin> snd ` set (idnames m)"
    by (force simp: holder_of_def find_None_iff idnames_def)
  also have "\<dots> \<longleftrightarrow> (\<forall>i. map_of (idnames m) i \<noteq> Some n)"
    using keys_ok_map_of [OF assms] by force
  finally show ?thesis .
qed

section \<open>The invariant\<close>

definition trans_id :: "task \<Rightarrow> string option" where
  "trans_id t = map_option fst (trans_of t)"

text \<open>Every sandbox and every create in flight past the limit check accounts for one permit.\<close>

definition capacity :: "'c manager \<Rightarrow> task list \<Rightarrow> bool" where
  "capacity m ts \<longleftrightarrow> mg_permits m + length (idnames m) + sum_list (map permit ts) = mg_max_sandboxes m"

text \<open>A sandbox has at most one task that moves it, and while it exists it is in that task's state.\<close>

definition owned :: "'c manager \<Rightarrow> task list \<Rightarrow> bool" where
  "owned m ts \<longleftrightarrow>
     solo trans_id ts \<and> (\<forall>t \<in> set ts. \<forall>i X. trans_of t = Some (i, X) \<longrightarrow> st_of m i \<in> {None, Some X})"

text \<open>The id of a sandbox that is being made is not yet anyone else's.\<close>

definition new_ids :: "'c manager \<Rightarrow> task list \<Rightarrow> bool" where
  "new_ids m ts \<longleftrightarrow>
     solo pend ts \<and>
     (\<forall>t \<in> set ts. \<forall>i. pend t = Some i \<longrightarrow> entry_of m i = None \<and> (\<forall>u \<in> set ts. trans_id u \<noteq> Some i))"

text \<open>
  Two sandboxes have the same name only if both had it in the records \<open>old\<close> the daemon started from, as pairs of
  id and name.
\<close>

definition unique_names :: "(string \<times> string) set \<Rightarrow> 'c manager \<Rightarrow> bool" where
  "unique_names old m \<longleftrightarrow>
     keys_ok (idnames m) \<and>
     (\<forall>i j n. map_of (idnames m) i = Some n \<and> map_of (idnames m) j = Some n \<and> n \<noteq> '''' \<longrightarrow>
        i = j \<or> (i, n) \<in> old \<and> (j, n) \<in> old) \<and>
     (\<forall>i n. map_of (idnames m) i = Some n \<longrightarrow> n = '''' \<or> sandbox_name n = Inr ())"

definition reservations :: "'c manager \<Rightarrow> task list \<Rightarrow> bool" where
  "reservations m ts \<longleftrightarrow>
     solo resv ts \<and> (\<forall>t \<in> set ts. \<forall>n. resv t = Some n \<longrightarrow> n \<in> mg_pending m) \<and>
     (\<forall>t \<in> set ts. \<forall>n i. checked t = Some n \<longrightarrow> map_of (idnames m) i \<noteq> Some n)"

text \<open>The id of a sandbox is one the daemon generates, and its record carries it.\<close>

definition valid_id :: "string \<Rightarrow> bool" where
  "valid_id i \<longleftrightarrow> entity_id i ''sandbox'' = Inr ()"

definition ids_ok :: "'c manager \<Rightarrow> task list \<Rightarrow> bool" where
  "ids_ok m ts \<longleftrightarrow>
     (\<forall>i e. entry_of m i = Some e \<longrightarrow> valid_id i \<and> sm_id (se_meta e) = i) \<and>
     (\<forall>t \<in> set ts. \<forall>i. pend t = Some i \<longrightarrow> valid_id i)"

definition sys_inv :: "(string \<times> string) set \<Rightarrow> 'c sys \<Rightarrow> bool" where
  "sys_inv old s \<longleftrightarrow>
     (case s of (m, ts) \<Rightarrow>
        list_all wf_task ts \<and> capacity m ts \<and> owned m ts \<and> new_ids m ts \<and> unique_names old m \<and> reservations m ts \<and>
        ids_ok m ts)"

section \<open>Effects keep it\<close>

text \<open>A task that holds nothing: what a section may start.\<close>

definition idle :: "task \<Rightarrow> bool" where
  "idle t \<longleftrightarrow> wf_task t \<and> trans_of t = None \<and> resv t = None \<and> permit t = 0 \<and> pend t = None \<and> checked t = None"

lemma new_idle: "task_section wd en t m = (t', m', new) \<Longrightarrow> u \<in> set new \<Longrightarrow> idle u"
  using new_tasks [of wd en t m t' m' new u] by (auto simp: idle_def)

lemma initial_idle: "initial t \<Longrightarrow> idle t"
proof (cases t)
  case (TStop i pc) then show "initial t \<Longrightarrow> idle t" by (auto simp: idle_def)
next
  case (TCreate pc l) then show "initial t \<Longrightarrow> idle t" by (auto simp: idle_def locals_fresh_def)
qed (auto simp: idle_def)

lemma wf_checked: "wf_task t \<Longrightarrow> checked t = Some n \<Longrightarrow> resv t = Some n \<and> n \<noteq> '''' \<and> sandbox_name n = Inr ()"
  by (cases t) (auto split: if_splits)

lemma trans_in_ids: "trans_id t = Some i \<Longrightarrow> i \<in> task_ids t"
  by (cases t rule: trans_of.cases) (auto simp: trans_id_def split: if_splits)

lemma pend_in_ids: "pend t = Some i \<Longrightarrow> i \<in> task_ids t"
  by (cases t) (auto split: if_splits)

lemma trans_state: "trans_of t = Some (i, X) \<Longrightarrow> X = Creating \<or> X = Stopping"
  by (cases t rule: trans_of.cases) (auto split: if_splits)

lemma frameD:
  assumes "frame m' = frame m"
  shows "idnames m' = idnames m" "mg_permits m' = mg_permits m" "mg_max_sandboxes m' = mg_max_sandboxes m"
    "mg_pending m' = mg_pending m" "entry_of m' i = None \<longleftrightarrow> entry_of m i = None"
  using assms by (auto simp: frame_def entry_dom)

lemma movesD: "moves t t' X i m m' \<Longrightarrow> frame m' = frame m"
  by (simp add: moves_def touches_def)

lemma plain_frame: "plain_effect t t' m m' \<Longrightarrow> frame m' = frame m \<or> (\<exists>i. took i m m')"
  unfolding plain_effect_def by (elim disjE exE conjE) (auto dest: movesD)

lemma tookD:
  assumes "took i m m'"
  shows "idnames m' = AList.delete i (idnames m)" "mg_permits m' = mg_permits m + 1"
    "mg_max_sandboxes m' = mg_max_sandboxes m" "mg_pending m' = mg_pending m"
    "entry_of m i \<noteq> None" "entry_of m' = (entry_of m)(i := None)"
  using assms idnames_delete by (auto simp: took_def entry_of_def delete_conv)

lemma length_delete_one: "keys_ok xs \<Longrightarrow> map_of xs i = Some v \<Longrightarrow> length (AList.delete i xs) + 1 = length xs"
proof (induction xs)
  case (Cons a xs)
  have "AList.delete (fst a) xs = xs" if "fst a \<notin> fst ` set xs"
    using that by (simp add: AList.delete_id)
  with Cons show ?case by (cases a) (auto simp: keys_ok_def split: if_splits)
qed simp

lemma length_update_new: "map_of xs i = None \<Longrightarrow> length (AList.update i v xs) = length xs + 1"
  by (induction xs) (auto split: if_splits)

lemma length_update_old: "map_of xs i \<noteq> None \<Longrightarrow> length (AList.update i v xs) = length xs"
  by (induction xs) (auto split: if_splits)

lemma renamesD:
  assumes "entry_of m i = Some e" "disk_only m m1" "quiet (put_entry i (set_name n e) m1) m'"
  shows "idnames m' = AList.update i n (idnames m)" "mg_permits m' = mg_permits m"
    "mg_max_sandboxes m' = mg_max_sandboxes m" "mg_pending m' = mg_pending m" "st_of m' = st_of m"
    "entry_of m' j = None \<longleftrightarrow> entry_of m j = None"
proof -
  have name: "name_of (set_name n e) = n" "sm_status (se_meta (set_name n e)) = sm_status (se_meta e)"
    by (simp_all add: name_of_def set_name_def)
  have q: "frame m' = frame (put_entry i (set_name n e) m1)" "entry_of m' = entry_of (put_entry i (set_name n e) m1)"
    using assms(3) by (auto simp: quiet_def)
  have d: "frame m1 = frame m" "entry_of m1 = entry_of m" using disk_onlyD [OF assms(2)] by auto
  from d(1) have "idnames m1 = idnames m" by (rule frameD)
  with name q d show "idnames m' = AList.update i n (idnames m)" "mg_permits m' = mg_permits m"
    "mg_max_sandboxes m' = mg_max_sandboxes m" "mg_pending m' = mg_pending m"
    by (auto simp: frame_def idnames_put)
  show "st_of m' = st_of m" using name q d assms(1) by (auto simp: st_of_def fun_eq_iff)
  show "entry_of m' j = None \<longleftrightarrow> entry_of m j = None" using q d assms(1) by auto
qed

text \<open>Each part of the invariant, over one section of task \<open>k\<close>.\<close>

lemma capacity_step:
  assumes "effect new_id (ts ! k) t' m m'" "k < length ts" "\<forall>u \<in> set new. idle u"
    and "capacity m ts" "unique_names old m" "new_ids m ts"
  shows "capacity m' (after ts k t' new)"
proof -
  have sum: "sum_list (map permit (after ts k t' new)) + permit (ts ! k) = sum_list (map permit ts) + permit t'"
    using assms(2,3) by (intro sum_after) (auto simp: idle_def)
  have keys: "keys_ok (idnames m)" using assms(5) by (simp add: unique_names_def)
  have t: "ts ! k \<in> set ts" using assms(2) by simp
  from assms(1) show ?thesis
  proof cases
    case plain
    then consider "frame m' = frame m" | i where "took i m m'"
      by (blast dest: plain_frame)
    then show ?thesis
    proof cases
      case 1
      with plain sum assms(4) show ?thesis by (simp add: capacity_def keeps_def frameD [OF 1])
    next
      case 2
      from tookD(5) [OF this] obtain v where "map_of (idnames m) i = Some v" by (auto simp: entry_dom)
      with length_delete_one [OF keys] have "length (AList.delete i (idnames m)) + 1 = length (idnames m)" .
      with plain sum assms(4) tookD [OF 2] show ?thesis by (simp add: capacity_def keeps_def)
    qed
  next
    case (inserts i e)
    then have "map_of (idnames m) i = None" using assms(6) t by (auto simp: new_ids_def entry_dom)
    with length_update_new [of "idnames m" i "name_of e"] inserts sum assms(4) show ?thesis
      by (simp add: capacity_def idnames_put)
  next
    case (renames n i e m1)
    then have "length (AList.update i n (idnames m)) = length (idnames m)"
      by (intro length_update_old) (simp add: map_of_idnames)
    with renames renamesD [OF renames(3-5)] sum assms(4) show ?thesis by (simp add: capacity_def keeps_def)
  qed (use sum assms(4) in \<open>simp_all add: capacity_def idnames_def\<close>)
qed

lemma moves_st:
  assumes "moves a b X i m m'"
  shows "j \<noteq> i \<Longrightarrow> st_of m' j = st_of m j"
    and "a = b \<Longrightarrow> st_of m i \<in> {None, Some Y} \<Longrightarrow> Y = Creating \<or> Y = Stopping \<Longrightarrow> st_of m' i \<in> {None, Some Y}"
    and "\<not> a \<Longrightarrow> b \<Longrightarrow> st_of m i \<noteq> Some Creating \<and> st_of m i \<noteq> Some Stopping \<and> st_of m i \<noteq> None \<and> st_of m' i = Some X"
proof -
  let ?R = "\<lambda>x y. calm x y \<or> (\<not> a \<and> b \<and> x \<notin> {Creating, Stopping} \<and> y = X) \<or> (a \<and> \<not> b)"
  have t: "touches ?R i m m'" using assms by (simp add: moves_def)
  show "j \<noteq> i \<Longrightarrow> st_of m' j = st_of m j" by (rule touches_st [OF t])
  show "a = b \<Longrightarrow> st_of m i \<in> {None, Some Y} \<Longrightarrow> Y = Creating \<or> Y = Stopping \<Longrightarrow> st_of m' i \<in> {None, Some Y}"
    using touches_st_cases [OF t] by (auto simp: calm_def)
  show "\<not> a \<Longrightarrow> b \<Longrightarrow> st_of m i \<noteq> Some Creating \<and> st_of m i \<noteq> Some Stopping \<and> st_of m i \<noteq> None \<and> st_of m' i = Some X"
    using assms by (auto simp: moves_def)
qed

lemma owned_other:
  assumes "moves a b X i m m'" "trans_of t = (if a then Some (i, X) else None)"
    and "trans_of u = Some (j, Y)" "trans_id t \<noteq> Some j" "st_of m j \<in> {None, Some Y}"
  shows "st_of m' j \<in> {None, Some Y} \<and> (\<not> a \<and> b \<longrightarrow> j \<noteq> i)"
proof (cases "j = i")
  case False
  with moves_st(1) [OF assms(1) False] assms(5) show ?thesis by simp
next
  case True
  with assms(2,4) have a: "\<not> a" by (auto simp: trans_id_def)
  have Y: "Y = Creating \<or> Y = Stopping" using trans_state [OF assms(3)] .
  then have "\<not> b" using a assms(5) True moves_st(3) [OF assms(1) a] by auto
  with a Y assms(5) True moves_st(2) [OF assms(1), of Y] show ?thesis by simp
qed

lemma owned_others:
  assumes "owned m ts" "k < length ts" "u \<in> others ts k" "trans_of u = Some (j, Y)"
  shows "trans_id (ts ! k) \<noteq> Some j" "st_of m j \<in> {None, Some Y}"
proof -
  have "trans_id u = Some j" using assms(4) by (simp add: trans_id_def)
  then show "trans_id (ts ! k) \<noteq> Some j"
    using assms(1-3) solo_others [of trans_id ts k u j] unfolding owned_def by blast
  show "st_of m j \<in> {None, Some Y}"
    using assms(1,4) others_sub [OF assms(3)] unfolding owned_def by blast
qed

lemma owned_after:
  assumes "owned m ts" "k < length ts" "\<forall>u \<in> set new. idle u"
    and own: "\<And>i X. trans_of t' = Some (i, X) \<Longrightarrow>
        st_of m' i \<in> {None, Some X} \<and> (trans_id (ts ! k) = Some i \<or> (\<forall>u \<in> others ts k. trans_id u \<noteq> Some i))"
    and rest: "\<And>u j Y. u \<in> others ts k \<Longrightarrow> trans_of u = Some (j, Y) \<Longrightarrow> st_of m' j \<in> {None, Some Y}"
  shows "owned m' (after ts k t' new)"
proof -
  have "solo trans_id (after ts k t' new)"
    using assms(1-3) own by (intro solo_after) (auto simp: owned_def idle_def trans_id_def)
  moreover have "st_of m' i \<in> {None, Some X}" if "u \<in> set (after ts k t' new)" "trans_of u = Some (i, X)" for u i X
    using set_after [OF assms(2) that(1)] that(2) own [of i X] rest [of u i X] assms(3) by (auto simp: idle_def)
  ultimately show ?thesis by (simp add: owned_def)
qed

lemma owned_moves:
  assumes "owned m ts" "k < length ts" "\<forall>u \<in> set new. idle u"
    and tr: "trans_of (ts ! k) \<in> {None, Some (i, X)}" "trans_of t' \<in> {None, Some (i, X)}"
    and mv: "moves (trans_of (ts ! k) \<noteq> None) (trans_of t' \<noteq> None) X i m m'"
  shows "owned m' (after ts k t' new)"
proof (rule owned_after [OF assms(1-3)])
  have "trans_of (ts ! k) = (if trans_of (ts ! k) \<noteq> None then Some (i, X) else None)" using tr(1) by auto
  note other = owned_other [OF mv this]
  { fix u j Y assume u: "u \<in> others ts k" "trans_of u = Some (j, Y)"
    show "st_of m' j \<in> {None, Some Y}"
      using other [OF u(2)] owned_others [OF assms(1,2) u] by blast }
  fix j Y assume own: "trans_of t' = Some (j, Y)"
  with tr(2) have jY: "j = i" "Y = X" by auto
  show "st_of m' j \<in> {None, Some Y} \<and> (trans_id (ts ! k) = Some j \<or> (\<forall>u \<in> others ts k. trans_id u \<noteq> Some j))"
  proof (cases "trans_of (ts ! k) = None")
    case True
    with mv own have "st_of m' i = Some X" by (auto simp: moves_def)
    moreover have "trans_id u \<noteq> Some i" if u: "u \<in> others ts k" for u
    proof
      assume "trans_id u = Some i"
      then obtain Z where Z: "trans_of u = Some (i, Z)" by (auto simp: trans_id_def)
      show False using other [OF Z] owned_others [OF assms(1,2) u Z] True own by auto
    qed
    ultimately show ?thesis using jY by auto
  next
    case False
    with tr(1) have s: "trans_of (ts ! k) = Some (i, X)" by auto
    then have "st_of m i \<in> {None, Some X}" using assms(1,2) nth_mem unfolding owned_def by blast
    with moves_st(2) [OF mv] False own trans_state [OF s] have "st_of m' i \<in> {None, Some X}" by simp
    with s jY show ?thesis by (auto simp: trans_id_def)
  qed
qed

lemma owned_same:
  assumes "owned m ts" "k < length ts" "\<forall>u \<in> set new. idle u" "trans_of t' = None"
    and "\<And>u j Y. u \<in> others ts k \<Longrightarrow> trans_of u = Some (j, Y) \<Longrightarrow> st_of m' j \<in> {None, st_of m j}"
  shows "owned m' (after ts k t' new)"
proof (rule owned_after [OF assms(1-3)])
  fix u j Y assume u: "u \<in> others ts k" "trans_of u = Some (j, Y)"
  show "st_of m' j \<in> {None, Some Y}"
    using assms(5) [OF u] owned_others [OF assms(1,2) u] by auto
qed (simp add: assms(4))

lemma owned_step:
  assumes "effect new_id (ts ! k) t' m m'" "k < length ts" "\<forall>u \<in> set new. idle u"
    and "owned m ts" "new_ids m ts"
  shows "owned m' (after ts k t' new)"
proof -
  note same = owned_same [OF assms(4,2,3)]
  from assms(1) show ?thesis
  proof cases
    case plain
    then consider i X where "trans_of (ts ! k) \<in> {None, Some (i, X)}" "trans_of t' \<in> {None, Some (i, X)}"
        "moves (trans_of (ts ! k) \<noteq> None) (trans_of t' \<noteq> None) X i m m'"
      | i where "trans_of t' = None" "took i m m'"
      unfolding plain_effect_def by blast
    then show ?thesis
    proof cases
      case 1
      then show ?thesis by (rule owned_moves [OF assms(4,2,3)])
    next
      case 2
      then show ?thesis by (intro same) (auto simp: st_of_def tookD)
    qed
  next
    case (inserts i e)
    then have "trans_id u \<noteq> Some i" if "u \<in> others ts k" for u
      using assms(5) nth_mem [OF assms(2)] others_sub [OF that] unfolding new_ids_def by blast
    with inserts show ?thesis by (intro same) (auto simp: st_of_def trans_id_def)
  next
    case (renames n i e m1)
    with renamesD(5) [OF renames(3-5)] show ?thesis by (intro same) auto
  qed (intro same; simp add: st_of_def entry_of_def)+
qed

lemma new_idsD:
  assumes "new_ids m ts" "k < length ts" "u \<in> others ts k \<or> u = ts ! k" "pend u = Some i"
  shows "entry_of m i = None" "v \<in> set ts \<Longrightarrow> trans_id v \<noteq> Some i" "trans_id (ts ! k) \<noteq> Some i"
proof -
  have u: "u \<in> set ts" using assms(3) others_sub [of u ts k] nth_mem [OF assms(2)] by blast
  show "entry_of m i = None" "v \<in> set ts \<Longrightarrow> trans_id v \<noteq> Some i" "trans_id (ts ! k) \<noteq> Some i"
    using assms(1,4) u nth_mem [OF assms(2)] unfolding new_ids_def by blast+
qed

lemma new_ids_after:
  assumes "new_ids m ts" "k < length ts" "\<forall>u \<in> set new. idle u" "fresh_id new_id (m, ts)"
    and p: "\<And>i. pend t' = Some i \<Longrightarrow> pend (ts ! k) = Some i \<or> i = new_id"
    and e: "\<And>i u. u \<in> others ts k \<or> u = t' \<Longrightarrow> pend u = Some i \<Longrightarrow> entry_of m' i = None \<and> trans_id t' \<noteq> Some i"
  shows "new_ids m' (after ts k t' new)"
proof -
  have fresh: "trans_id u \<noteq> Some new_id" "pend u \<noteq> Some new_id" if "u \<in> set ts" for u
    using assms(4) that by (auto simp: fresh_id_def dest: trans_in_ids pend_in_ids)
  have "solo pend (after ts k t' new)"
  proof (rule solo_after)
    show "pend (ts ! k) = Some x \<or> (\<forall>u \<in> others ts k. pend u \<noteq> Some x)" if "pend t' = Some x" for x
      using p [OF that] fresh(2) [OF others_sub] by auto
    show "solo pend ts" using assms(1) by (simp add: new_ids_def)
    show "\<forall>u \<in> set new. pend u = None" using assms(3) by (simp add: idle_def)
  qed (rule assms(2))
  moreover have apart: "trans_id v \<noteq> Some i"
    if u: "u \<in> others ts k \<or> u = t'" "pend u = Some i" and v: "v \<in> set (after ts k t' new)" for u v i
    using set_after [OF assms(2) v]
  proof (elim disjE)
    assume "v \<in> others ts k"
    then have v: "v \<in> set ts" by (rule others_sub)
    show ?thesis
    proof (cases "i = new_id")
      case False
      with u p [of i] obtain w where w: "w \<in> others ts k \<or> w = ts ! k" "pend w = Some i" by metis
      show ?thesis by (rule new_idsD(2) [OF assms(1,2) w v])
    qed (use fresh(1) [OF v] in simp)
  next
    assume "v \<in> set new"
    with assms(3) show ?thesis by (auto simp: idle_def trans_id_def)
  qed (use e [OF u] in simp)
  moreover have place: "u \<in> others ts k \<or> u = t'" if "u \<in> set (after ts k t' new)" "pend u = Some i" for u i
    using set_after [OF assms(2) that(1)] that(2) assms(3) by (auto simp: idle_def)
  ultimately show ?thesis unfolding new_ids_def using e place apart by (intro conjI ballI allI impI) metis+
qed

lemma plain_entries:
  assumes "plain_effect t t' m m'"
  shows "entry_of m i = None \<Longrightarrow> entry_of m' i = None \<and> (trans_id t' = Some i \<longrightarrow> trans_id t = Some i)"
proof (intro conjI impI)
  assume none: "entry_of m i = None"
  show "entry_of m' i = None"
    using plain_frame [OF assms] frameD(5) [of m' m i] tookD(6) [of _ m m'] none by force
  assume t': "trans_id t' = Some i"
  then obtain X where "trans_of t' = Some (i, X)" by (auto simp: trans_id_def)
  with assms have "trans_of t \<in> {None, Some (i, X)}" "moves (trans_of t \<noteq> None) True X i m m'"
    unfolding plain_effect_def by auto
  with moves_st(3) [of "trans_of t \<noteq> None" True X i m m'] none show "trans_id t = Some i"
    by (auto simp: st_of_def trans_id_def)
qed

lemma new_ids_keep:
  assumes "new_ids m ts" "k < length ts" "\<forall>u \<in> set new. idle u" "fresh_id new_id (m, ts)"
    and p: "pend t' \<in> {None, pend (ts ! k)}"
    and e: "\<And>i. entry_of m i = None \<Longrightarrow> trans_id (ts ! k) \<noteq> Some i \<Longrightarrow> entry_of m' i = None \<and> trans_id t' \<noteq> Some i"
  shows "new_ids m' (after ts k t' new)"
proof (rule new_ids_after [OF assms(1-4)])
  show "pend (ts ! k) = Some i \<or> i = new_id" if "pend t' = Some i" for i using that p by auto
  fix i u assume u: "u \<in> others ts k \<or> u = t'" "pend u = Some i"
  then obtain w where w: "w \<in> others ts k \<or> w = ts ! k" "pend w = Some i" using p by fastforce
  from new_idsD(1,3) [OF assms(1,2) w] show "entry_of m' i = None \<and> trans_id t' \<noteq> Some i" by (rule e)
qed

lemma new_ids_step:
  assumes "effect new_id (ts ! k) t' m m'" "k < length ts" "\<forall>u \<in> set new. idle u"
    and "new_ids m ts" "fresh_id new_id (m, ts)"
  shows "new_ids m' (after ts k t' new)"
proof -
  note keep = new_ids_keep [OF assms(4,2,3,5)] and step = new_ids_after [OF assms(4,2,3,5)]
    and old = new_idsD(1) [OF assms(4,2) disjI1]
  from assms(1) show ?thesis
  proof cases
    case plain
    then show ?thesis using plain_entries [OF plain(1)] by (intro keep) (auto simp: keeps_def)
  next
    case acquires
    have "entry_of m new_id = None" using assms(5) by (simp add: fresh_id_def)
    with acquires show ?thesis by (intro step) (auto simp: entry_of_def trans_id_def dest: old)
  next
    case (inserts i e)
    have "pend u \<noteq> Some i" if "u \<in> others ts k" for u
      using inserts assms(2,4) solo_others [of pend ts k u i] that unfolding new_ids_def by blast
    with inserts show ?thesis by (intro step) (auto simp: trans_id_def dest: old)
  next
    case (renames n i e m1)
    with renamesD(6) [OF renames(3-5)] show ?thesis by (intro keep) (auto simp: trans_id_def keeps_def)
  qed (intro keep; simp add: entry_of_def trans_id_def)+
qed

lemma unique_namesD:
  assumes "unique_names old m"
  shows "keys_ok (idnames m)"
    and "map_of (idnames m) i = Some n \<Longrightarrow> map_of (idnames m) j = Some n \<Longrightarrow> n \<noteq> '''' \<Longrightarrow>
      i = j \<or> (i, n) \<in> old \<and> (j, n) \<in> old"
    and "map_of (idnames m) i = Some n \<Longrightarrow> n = '''' \<or> sandbox_name n = Inr ()"
  using assms unfolding unique_names_def by blast+

lemma unique_put:
  assumes "unique_names old m" "n = '''' \<or> (\<forall>j. map_of (idnames m) j \<noteq> Some n) \<and> sandbox_name n = Inr ()"
    and "idnames m' = AList.update i n (idnames m)"
  shows "unique_names old m'"
proof -
  have mo: "map_of (idnames m') j = (if j = i then Some n else map_of (idnames m) j)" for j
    using assms(3) by (simp add: update_conv')
  note old = unique_namesD [OF assms(1)]
  show ?thesis
    unfolding unique_names_def
  proof (intro conjI allI impI; (elim conjE)?)
    show "keys_ok (idnames m')" using assms(3) old(1) by simp
    show "j = k \<or> (j, n') \<in> old \<and> (k, n') \<in> old"
      if "map_of (idnames m') j = Some n'" "map_of (idnames m') k = Some n'" "n' \<noteq> ''''" for j k n'
      using that assms(2) old(2) [of j n' k] unfolding mo by (metis option.inject)
    show "n' = '''' \<or> sandbox_name n' = Inr ()" if "map_of (idnames m') j = Some n'" for j n'
      using that assms(2) old(3) [of j n'] unfolding mo by (metis option.inject)
  qed
qed

lemma unique_delete:
  assumes "unique_names old m" "idnames m' = AList.delete i (idnames m)"
  shows "unique_names old m'"
proof -
  have mo: "map_of (idnames m') j = Some n \<Longrightarrow> map_of (idnames m) j = Some n" for j n
    using assms(2) by (simp add: delete_conv' split: if_splits)
  note old = unique_namesD [OF assms(1)]
  show ?thesis
    unfolding unique_names_def
  proof (intro conjI allI impI; (elim conjE)?)
    show "keys_ok (idnames m')" using assms(2) old(1) by simp
    show "j = k \<or> (j, n') \<in> old \<and> (k, n') \<in> old"
      if "map_of (idnames m') j = Some n'" "map_of (idnames m') k = Some n'" "n' \<noteq> ''''" for j k n'
      by (rule old(2) [OF mo [OF that(1)] mo [OF that(2)] that(3)])
    show "n' = '''' \<or> sandbox_name n' = Inr ()" if "map_of (idnames m') j = Some n'" for j n'
      by (rule old(3) [OF mo [OF that]])
  qed
qed

lemma unique_step:
  assumes "effect new_id (ts ! k) t' m m'" "k < length ts" "unique_names old m" "reservations m ts"
  shows "unique_names old m'"
  using assms(1)
proof cases
  case plain
  show ?thesis
    using plain_frame [OF plain(1)]
  proof
    assume "frame m' = frame m"
    from frameD(1) [OF this] assms(3) show ?thesis by (simp add: unique_names_def)
  next
    assume "\<exists>i. took i m m'"
    with tookD(1) unique_delete [OF assms(3)] show ?thesis by blast
  qed
next
  case (inserts i e)
  then have "name_of e = '''' \<or> (\<forall>j. map_of (idnames m) j \<noteq> Some (name_of e)) \<and> sandbox_name (name_of e) = Inr ()"
    using assms(4) nth_mem [OF assms(2)] unfolding reservations_def by blast
  with inserts show ?thesis by (intro unique_put [OF assms(3), of "name_of e" m' i]) (simp_all add: idnames_put)
next
  case (renames n i e m1)
  have "keys_ok (idnames m)" using assms(3) by (simp add: unique_names_def)
  with renames have "\<forall>j. map_of (idnames m) j \<noteq> Some n" by (simp add: holder_None)
  with renames renamesD(1) [OF renames(3-5)] show ?thesis by (intro unique_put [OF assms(3), of n m' i]) auto
qed (use assms(3) in \<open>simp_all add: unique_names_def idnames_def\<close>)

lemma reservations_after:
  assumes "reservations m ts" "k < length ts" "\<forall>u \<in> set new. idle u"
    and own: "\<And>n. resv t' = Some n \<Longrightarrow> n \<in> mg_pending m' \<and> (resv (ts ! k) = Some n \<or> n \<notin> mg_pending m)"
    and pending: "\<And>u n. u \<in> others ts k \<Longrightarrow> resv u = Some n \<Longrightarrow> n \<in> mg_pending m'"
    and names: "\<And>u n i. u \<in> others ts k \<or> u = t' \<Longrightarrow> checked u = Some n \<Longrightarrow> map_of (idnames m') i \<noteq> Some n"
  shows "reservations m' (after ts k t' new)"
  unfolding reservations_def
proof (intro conjI ballI allI impI)
  show "solo resv (after ts k t' new)"
  proof (rule solo_after)
    show "resv (ts ! k) = Some n \<or> (\<forall>u \<in> others ts k. resv u \<noteq> Some n)" if "resv t' = Some n" for n
      using own [OF that] assms(1) others_sub unfolding reservations_def by metis
    show "solo resv ts" using assms(1) by (simp add: reservations_def)
    show "\<forall>u \<in> set new. resv u = None" using assms(3) by (simp add: idle_def)
  qed (rule assms(2))
  fix u assume u: "u \<in> set (after ts k t' new)"
  have place: "u \<in> others ts k \<or> u = t' \<or> resv u = None \<and> checked u = None"
    using set_after [OF assms(2) u] assms(3) by (auto simp: idle_def)
  show "n \<in> mg_pending m'" if "resv u = Some n" for n using place that own pending by auto
  show "map_of (idnames m') i \<noteq> Some n" if "checked u = Some n" for n i using place that names [of u n i] by auto
qed

lemma reservationsD:
  assumes "reservations m ts" "k < length ts" "list_all wf_task ts"
  shows "u \<in> others ts k \<Longrightarrow> resv u = Some n \<Longrightarrow> n \<in> mg_pending m \<and> resv (ts ! k) \<noteq> Some n"
    and "resv (ts ! k) = Some n \<Longrightarrow> n \<in> mg_pending m"
    and "u \<in> others ts k \<Longrightarrow> checked u = Some n \<Longrightarrow> map_of (idnames m) i \<noteq> Some n \<and> resv (ts ! k) \<noteq> Some n \<and> n \<noteq> ''''"
    and "checked (ts ! k) = Some n \<Longrightarrow> map_of (idnames m) i \<noteq> Some n"
proof -
  show r: "n \<in> mg_pending m \<and> resv (ts ! k) \<noteq> Some n" if "u \<in> others ts k" "resv u = Some n" for u n
    using assms(1) others_sub [OF that(1)] that solo_others [OF _ assms(2) that(1), of resv n] unfolding reservations_def by blast
  show "resv (ts ! k) = Some n \<Longrightarrow> n \<in> mg_pending m" "checked (ts ! k) = Some n \<Longrightarrow> map_of (idnames m) i \<noteq> Some n"
    using assms(1) nth_mem [OF assms(2)] unfolding reservations_def by blast+
  show "map_of (idnames m) i \<noteq> Some n \<and> resv (ts ! k) \<noteq> Some n \<and> n \<noteq> ''''" if u: "u \<in> others ts k" "checked u = Some n"
  proof -
    have "wf_task u" using assms(3) others_sub [OF u(1)] by (simp add: list_all_iff)
    with u(2) have "resv u = Some n \<and> n \<noteq> ''''" using wf_checked by blast
    with r [OF u(1), of n] assms(1) others_sub [OF u(1)] u(2) show ?thesis unfolding reservations_def by blast
  qed
qed

lemma plain_names: "plain_effect t t' m m' \<Longrightarrow> mg_pending m' = mg_pending m \<and> (map_of (idnames m) i \<noteq> Some n \<longrightarrow> map_of (idnames m') i \<noteq> Some n)"
proof -
  assume "plain_effect t t' m m'"
  then consider "frame m' = frame m" | j where "took j m m'" by (blast dest: plain_frame)
  then show ?thesis
  proof cases
    case 1
    then show ?thesis by (simp add: frame_def)
  next
    case 2
    from tookD(1,4) [OF this] show ?thesis by (simp add: delete_conv')
  qed
qed

lemma reservations_step:
  assumes "effect new_id (ts ! k) t' m m'" "k < length ts" "\<forall>u \<in> set new. idle u" "list_all wf_task ts"
    and "reservations m ts" "unique_names old m"
  shows "reservations m' (after ts k t' new)"
proof -
  note step = reservations_after [OF assms(5,2,3)] and old = reservationsD [OF assms(5,2,4)]
  from assms(1) show ?thesis
  proof cases
    case plain
    then have k: "resv t' = resv (ts ! k)" "checked t' \<in> {None, checked (ts ! k)}" by (auto simp: keeps_def)
    have n: "mg_pending m' = mg_pending m" "map_of (idnames m) i \<noteq> Some n \<Longrightarrow> map_of (idnames m') i \<noteq> Some n" for i n
      using plain_names [OF plain(1), of i n] by auto
    show ?thesis
    proof (rule step)
      show "map_of (idnames m') i \<noteq> Some n" if "u \<in> others ts k \<or> u = t'" "checked u = Some n" for u n i
        using that k(2) old(3) [of u n i] old(4) [of n i] by (intro n(2)) fastforce
    qed (use k n(1) old(1,2) in auto)
  next
    case (checks n)
    have "keys_ok (idnames m)" using assms(6) by (simp add: unique_names_def)
    with checks have "\<forall>i. map_of (idnames m) i \<noteq> Some n" by (simp add: holder_None)
    with checks show ?thesis by (intro step) (auto dest: old old(2) [OF sym])
  next
    case (inserts i e)
    then show ?thesis by (intro step) (auto simp: idnames_put update_conv' dest: old old(2) [OF sym] split: if_splits)
  next
    case (renames n i e m1)
    then have k: "resv t' = Some n" "checked t' = None" by (auto simp: keeps_def)
    show ?thesis
      by (intro step) (use renames k in \<open>auto simp: renamesD [OF renames(3-5)] update_conv' dest: old old(2) [OF sym] split: if_splits\<close>)
  next
    case reserves
    then show ?thesis by (intro step) (auto simp: idnames_def dest: old)
  next
    case acquires
    have n: "idnames m' = idnames m" "mg_pending m' = mg_pending m" using acquires(2) by (simp_all add: idnames_def)
    have c: "map_of (idnames m) i \<noteq> Some n" if "checked t' = Some n" for i n
      using old(4) [of n i] acquires(8) that by metis
    show ?thesis unfolding n by (rule step) (use acquires(5) n c old in auto)
  next
    case releases
    then show ?thesis by (intro step) (use old in auto)
  qed
qed

lemma plain_ids:
  assumes "plain_effect t t' m m'" "entry_of m' i = Some e'"
  shows "\<exists>e. entry_of m i = Some e \<and> sm_id (se_meta e') = sm_id (se_meta e)"
proof -
  from assms(1) consider X j a b where "moves a b X j m m'" | j where "took j m m'"
    unfolding plain_effect_def by blast
  then show ?thesis
  proof cases
    case 1
    then have "entry_of m' i = entry_of m i \<or> (\<exists>e e'. entry_of m i = Some e \<and> entry_of m' i = Some e' \<and>
        sm_id (se_meta e') = sm_id (se_meta e))"
      unfolding moves_def touches_def by metis
    with assms(2) show ?thesis by (metis option.inject)
  next
    case 2
    with tookD(6) [OF 2] assms(2) show ?thesis by (auto split: if_splits)
  qed
qed

lemma ids_after:
  assumes "ids_ok m ts" "k < length ts" "\<forall>u \<in> set new. idle u"
    and "\<And>i e'. entry_of m' i = Some e' \<Longrightarrow>
        (\<exists>e. entry_of m i = Some e \<and> sm_id (se_meta e') = sm_id (se_meta e)) \<or> (valid_id i \<and> sm_id (se_meta e') = i)"
    and "\<And>i. pend t' = Some i \<Longrightarrow> pend (ts ! k) = Some i \<or> valid_id i"
  shows "ids_ok m' (after ts k t' new)"
  unfolding ids_ok_def
proof (intro conjI allI impI ballI)
  show "valid_id i" "sm_id (se_meta e') = i" if "entry_of m' i = Some e'" for i e'
    using assms(4) [OF that] assms(1) by (auto simp: ids_ok_def)
  have t: "ts ! k \<in> set ts" using assms(2) by simp
  show "valid_id i" if "u \<in> set (after ts k t' new)" "pend u = Some i" for u i
    using set_after [OF assms(2) that(1)]
  proof (elim disjE)
    assume "u \<in> others ts k"
    from others_sub [OF this] that(2) assms(1) show ?thesis by (auto simp: ids_ok_def)
  next
    assume "u = t'"
    with that(2) assms(5) [of i] assms(1) t show ?thesis by (auto simp: ids_ok_def)
  next
    assume "u \<in> set new"
    with that(2) assms(3) show ?thesis by (auto simp: idle_def)
  qed
qed

lemma ids_step:
  assumes "effect new_id (ts ! k) t' m m'" "k < length ts" "\<forall>u \<in> set new. idle u" "ids_ok m ts" "valid_id new_id"
  shows "ids_ok m' (after ts k t' new)"
proof -
  note step = ids_after [OF assms(4,2,3)]
  from assms(1) show ?thesis
  proof cases
    case plain
    then have "pend t' \<in> {None, pend (ts ! k)}" by (simp add: keeps_def)
    with plain_ids [OF plain(1)] show ?thesis by (intro step) auto
  next
    case (inserts i e)
    then have "valid_id i" using assms(4) nth_mem [OF assms(2)] unfolding ids_ok_def by blast
    with inserts show ?thesis by (intro step) (auto split: if_splits)
  next
    case (renames n i e m1)
    then have p: "pend t' \<in> {None, pend (ts ! k)}" by (simp add: keeps_def)
    have "entry_of m' = entry_of (put_entry i (set_name n e) m)"
      using renames(5) disk_onlyD(2) [OF renames(4)] by (simp add: quiet_def fun_eq_iff)
    with p renames(3) show ?thesis by (intro step) (auto simp: set_name_def split: if_splits)
  qed (intro step; use assms(5) in \<open>auto simp: entry_of_def\<close>)+
qed

text \<open>The whole invariant, over one step of the system.\<close>

definition generates :: "(env \<Rightarrow> bool) \<Rightarrow> env \<Rightarrow> bool" where
  "generates ok en \<longleftrightarrow> ok en \<and> valid_id (en_id en)"

lemma sys_inv_run:
  assumes "sys_inv old (m, ts)" "k < length ts" "generates ok en" "fresh_id (en_id en) (m, ts)"
    and "task_section wd en (ts ! k) m = (t', m', new)"
  shows "sys_inv old (m', after ts k t' new)"
proof -
  have inv: "list_all wf_task ts" "capacity m ts" "owned m ts" "new_ids m ts" "unique_names old m" "reservations m ts" "ids_ok m ts"
    using assms(1) by (simp_all add: sys_inv_def)
  then have "wf_task (ts ! k)" using assms(2) by (simp add: list_all_length)
  from task_effect [OF assms(5) this] have eff: "effect (en_id en) (ts ! k) t' m m'" and wf': "wf_task t'" by auto
  have new: "\<forall>u \<in> set new. idle u" using new_idle [OF assms(5)] by blast
  have "wf_task u" if "u \<in> set (after ts k t' new)" for u
    using set_after [OF assms(2) that] inv(1) others_sub [of u ts k] wf' new by (auto simp: list_all_iff idle_def)
  moreover have "valid_id (en_id en)" using assms(3) by (simp add: generates_def)
  ultimately show ?thesis
    unfolding sys_inv_def prod.case list_all_iff
    using capacity_step [OF eff assms(2) new inv(2,5,4)] owned_step [OF eff assms(2) new inv(3,4)]
      new_ids_step [OF eff assms(2) new inv(4) assms(4)] unique_step [OF eff assms(2) inv(5,6)]
      reservations_step [OF eff assms(2) new inv(1,6,5)] ids_step [OF eff assms(2) new inv(7)] by blast
qed

lemma sys_inv_arrive:
  assumes "sys_inv old (m, ts)" "idle t"
  shows "sys_inv old (m, ts @ [t])"
proof -
  have "trans_id t = None" using assms(2) by (simp add: idle_def trans_id_def)
  with assms show ?thesis
    unfolding sys_inv_def capacity_def owned_def new_ids_def reservations_def ids_ok_def idle_def
    by (simp add: solo_snoc)
qed

lemma sys_inv_exit: "sys_inv old (m, ts) \<Longrightarrow> sys_inv old (m\<lparr>mg_exit := x\<rparr>, ts)"
  by (simp add: sys_inv_def capacity_def owned_def new_ids_def unique_names_def reservations_def ids_ok_def
      idnames_def st_of_def entry_of_def)

interpretation lifecycle: invariant_system "sys_step wd (generates ok)" "sys_inv old" for wd ok old
proof
  fix s t :: "'c sys"
  assume "sys_step wd (generates ok) s t" "sys_inv old s"
  then show "sys_inv old t"
  proof (cases rule: sys_step_cases)
    case (runs k ts en m t' m' new)
    with sys_inv_run [of old m ts k ok en wd t' m' new] \<open>sys_inv old s\<close> show ?thesis by (simp add: after_def)
  next
    case (arrive t m ts)
    with sys_inv_arrive initial_idle \<open>sys_inv old s\<close> show ?thesis by blast
  next
    case (main_ends m pid ts raw oom)
    with sys_inv_exit \<open>sys_inv old s\<close> show ?thesis by blast
  qed
qed

end
