(* ===== verification/Reachable.thy ===== *)
theory Reachable
  imports Interleaving
begin

text \<open>
  The states the daemon can reach: it restores the records of an earlier run, and then its tasks run
  in any order. The invariant of theory \<open>Interleaving\<close> gives what a client may rely on: the limit on
  sandboxes, names and ids that find their sandbox, and one transition of a sandbox at a time.
\<close>

section \<open>Starting from the records of an earlier run\<close>

definition meta_name :: "sandbox_meta \<Rightarrow> string" where
  "meta_name meta = sp_name (co_spec (sm_options meta))"

text \<open>
  What the store holds of any earlier run: every record is filed under its id, and ids and names passed their
  checks. Names may repeat: a record that is not adopted stays on disk, and its name may be taken again.
\<close>

definition records_ok :: "sandbox_meta list \<Rightarrow> bool" where
  "records_ok metas \<longleftrightarrow>
     distinct (map sm_id metas) \<and>
     list_all (\<lambda>meta. valid_id (sm_id meta) \<and> (meta_name meta = '''' \<or> sandbox_name (meta_name meta) = Inr ())) metas"

definition names_on_disk :: "sandbox_meta list \<Rightarrow> (string \<times> string) set" where
  "names_on_disk metas = (\<lambda>meta. (sm_id meta, meta_name meta)) ` set metas"

lemma name_of_adopted [simp]: "name_of (adopted_entry now d meta) = meta_name meta" "se_meta (adopted_entry now d meta) = meta"
  by (simp_all add: adopted_entry_def meta_name_def name_of_def Let_def)

lemma adopt_cases:
  fixes m :: "'c manager"
  obtains (left) d where "adopt_persisted now deleted refused meta m = m\<lparr>mg_disk := d\<rparr>"
  | (adopted) "adopt_persisted now deleted refused meta m =
        put_entry (sm_id meta) (adopted_entry now (mg_exited_ttl m) meta) (m\<lparr>mg_permits := mg_permits m - 1\<rparr>)"
      "0 < mg_permits m"
proof -
  have "\<exists>d. m = m\<lparr>mg_disk := d\<rparr>" by (rule exI [of _ "mg_disk m"]) simp
  then have "(\<exists>d. adopt_persisted now deleted refused meta m = m\<lparr>mg_disk := d\<rparr>) \<or>
      adopt_persisted now deleted refused meta m =
        put_entry (sm_id meta) (adopted_entry now (mg_exited_ttl m) meta) (m\<lparr>mg_permits := mg_permits m - 1\<rparr>) \<and>
      0 < mg_permits m"
    by (auto simp: adopt_persisted_def Let_def)
  then show ?thesis by (elim disjE exE conjE) (erule left, erule (1) adopted)
qed

text \<open>
  A manager no task of which runs, between two records it adopts: \<open>metas\<close> are still to come, and every sandbox
  it has is of the records \<open>old\<close>.
\<close>

definition rests :: "(string \<times> string) set \<Rightarrow> sandbox_meta list \<Rightarrow> 'c manager \<Rightarrow> bool" where
  "rests old metas m \<longleftrightarrow>
     sys_inv old (m, []) \<and> set (idnames m) \<subseteq> old \<and> (\<forall>meta \<in> set metas. entry_of m (sm_id meta) = None)"

lemma sys_inv_rest: "sys_inv old (m, []) \<longleftrightarrow> capacity m [] \<and> unique_names old m \<and> ids_ok m []"
  by (simp add: sys_inv_def owned_def new_ids_def reservations_def solo_def)

lemma set_update_new: "set (AList.update k v xs) \<subseteq> insert (k, v) (set xs)"
  by (induction xs) auto

lemma unique_old:
  assumes "keys_ok (idnames m)" "set (idnames m) \<subseteq> old"
    "\<And>i n. map_of (idnames m) i = Some n \<Longrightarrow> n = '''' \<or> sandbox_name n = Inr ()"
  shows "unique_names old m"
  using assms map_of_SomeD [of "idnames m"] unfolding unique_names_def by blast

lemma adopt_rests:
  assumes "rests old (meta # metas) m" "records_ok (meta # metas)" "(sm_id meta, meta_name meta) \<in> old"
  shows "rests old metas (adopt_persisted now deleted refused meta m)"
proof (cases rule: adopt_cases [of now deleted refused meta m])
  case (left d)
  have "idnames (m\<lparr>mg_disk := d\<rparr>) = idnames m" "entry_of (m\<lparr>mg_disk := d\<rparr>) = entry_of m"
    by (simp_all add: idnames_def entry_of_def fun_eq_iff)
  with assms(1) left show ?thesis
    by (simp add: rests_def sys_inv_rest capacity_def unique_names_def ids_ok_def)
next
  case adopted
  let ?e = "adopted_entry now (mg_exited_ttl m) meta"
  let ?m' = "put_entry (sm_id meta) ?e (m\<lparr>mg_permits := mg_permits m - 1\<rparr>)"
  have ent: "entry_of ?m' i = (if i = sm_id meta then Some ?e else entry_of m i)" for i
    by (simp add: entry_of_def put_entry_def update_conv')
  have nam: "idnames ?m' = AList.update (sm_id meta) (meta_name meta) (idnames m)"
    by (simp add: idnames_put) (simp add: idnames_def)
  have none: "entry_of m (sm_id meta) = None" and inv: "capacity m []" "unique_names old m" "ids_ok m []"
    and sub: "set (idnames m) \<subseteq> old"
    using assms(1) by (auto simp: rests_def sys_inv_rest)
  then have "length (idnames ?m') = length (idnames m) + 1"
    unfolding nam by (intro length_update_new) (simp add: map_of_idnames)
  with inv(1) adopted(2) have "capacity ?m' []" by (simp add: capacity_def)
  moreover have sub': "set (idnames ?m') \<subseteq> old"
    using sub assms(3) set_update_new [of "sm_id meta" "meta_name meta" "idnames m"] unfolding nam by blast
  moreover have keys: "keys_ok (idnames ?m')" using unique_namesD(1) [OF inv(2)] unfolding nam by simp
  have val: "n = '''' \<or> sandbox_name n = Inr ()" if "map_of (idnames ?m') i = Some n" for i n
    using that assms(2) unique_namesD(3) [OF inv(2), of i n] unfolding nam
    by (auto simp: update_conv' records_ok_def split: if_splits)
  have "unique_names old ?m'" by (rule unique_old [OF keys sub' val])
  moreover have "ids_ok ?m' []"
    using inv(3) assms(2) by (auto simp: ids_ok_def ent records_ok_def)
  moreover have "entry_of ?m' (sm_id meta') = None" if "meta' \<in> set metas" for meta'
  proof -
    have "sm_id meta' \<noteq> sm_id meta" using assms(2) imageI [OF that, of sm_id] by (auto simp: records_ok_def)
    with assms(1) that show ?thesis unfolding ent by (simp add: rests_def)
  qed
  ultimately show ?thesis using adopted(1) by (simp add: rests_def sys_inv_rest)
qed

lemma records_ok_Cons: "records_ok (meta # metas) \<Longrightarrow> records_ok metas"
  by (auto simp: records_ok_def split: if_splits)

abbreviation record_of :: "nat \<times> bool \<times> bool \<times> sandbox_meta \<Rightarrow> sandbox_meta" where
  "record_of r \<equiv> snd (snd (snd r))"

lemma restore_rests:
  assumes "rests old (map record_of rs) m" "records_ok (map record_of rs)" "names_on_disk (map record_of rs) \<subseteq> old"
  shows "sys_inv old (restore rs m, [])"
  using assms
proof (induction rs arbitrary: m)
  case Nil
  then show ?case by (simp add: restore_def rests_def)
next
  case (Cons r rs)
  obtain now deleted refused meta where r: "r = (now, deleted, refused, meta)" by (cases r)
  from Cons.prems have "rests old (map record_of rs) (adopt_persisted now deleted refused meta m)"
    unfolding r by (intro adopt_rests) (simp_all add: names_on_disk_def)
  moreover have "names_on_disk (map record_of rs) \<subseteq> old" using Cons.prems(3) by (simp add: names_on_disk_def)
  ultimately have "sys_inv old (restore rs (adopt_persisted now deleted refused meta m), [])"
    using Cons.IH Cons.prems(2) records_ok_Cons by auto
  then show ?case by (simp add: restore_def r)
qed

section \<open>What every reachable state satisfies\<close>

text \<open>A daemon that starts: nothing in the map yet, and all permits free.\<close>

definition empty_manager :: "'c manager \<Rightarrow> bool" where
  "empty_manager m \<longleftrightarrow> mg_entries m = [] \<and> mg_permits m = mg_max_sandboxes m"

definition reachable :: "world \<Rightarrow> (env \<Rightarrow> bool) \<Rightarrow> (nat \<times> bool \<times> bool \<times> sandbox_meta) list \<Rightarrow> 'c manager \<Rightarrow> 'c sys \<Rightarrow> bool" where
  "reachable wd ok rs m0 s \<longleftrightarrow>
     empty_manager m0 \<and> records_ok (map record_of rs) \<and> (sys_step wd (generates ok))\<^sup>*\<^sup>* (restore rs m0, []) s"

abbreviation restored :: "(nat \<times> bool \<times> bool \<times> sandbox_meta) list \<Rightarrow> (string \<times> string) set" where
  "restored rs \<equiv> names_on_disk (map record_of rs)"

lemma reachable_inv:
  assumes "reachable wd ok rs m0 s"
  shows "sys_inv (restored rs) s"
proof -
  have "rests (restored rs) (map record_of rs) m0"
    using assms by (simp add: reachable_def empty_manager_def rests_def sys_inv_rest capacity_def unique_names_def
        ids_ok_def idnames_def entry_of_def)
  then have "sys_inv (restored rs) (restore rs m0, [])"
    using assms by (intro restore_rests) (simp_all add: reachable_def)
  with assms lifecycle.run_keeps show ?thesis unfolding reachable_def by blast
qed

text \<open>The limit itself never changes.\<close>

lemma effect_max:
  assumes "effect new_id t t' m m'"
  shows "mg_max_sandboxes m' = mg_max_sandboxes m"
  using assms
proof cases
  case plain
  show ?thesis using plain_frame [OF plain(1)] by (auto simp: frame_def dest: tookD(3))
next
  case (renames n i e m1)
  then show ?thesis by (simp add: renamesD(3))
qed simp_all

definition limited :: "(string \<times> string) set \<Rightarrow> nat \<Rightarrow> 'c sys \<Rightarrow> bool" where
  "limited old n s \<longleftrightarrow> sys_inv old s \<and> mg_max_sandboxes (fst s) = n"

interpretation limits: invariant_system "sys_step wd (generates ok)" "limited old n" for wd ok old n
proof
  fix s t :: "'c sys"
  assume step: "sys_step wd (generates ok) s t" and lim: "limited old n s"
  have "mg_max_sandboxes (fst t) = mg_max_sandboxes (fst s)"
    using step
  proof (cases rule: sys_step_cases)
    case (runs k ts en m t' m' new)
    then have "wf_task (ts ! k)" using lim by (simp add: limited_def sys_inv_def list_all_length)
    from task_effect [OF _ this] runs effect_max show ?thesis by fastforce
  qed auto
  with lifecycle.step_keeps [OF step] lim show "limited old n t" by (simp add: limited_def)
qed

lemma restore_max: "mg_max_sandboxes (restore rs m) = mg_max_sandboxes m"
proof (induction rs arbitrary: m)
  case (Cons r rs)
  obtain now deleted refused meta where r: "r = (now, deleted, refused, meta)" by (cases r)
  have "mg_max_sandboxes (adopt_persisted now deleted refused meta m) = mg_max_sandboxes m"
    by (simp add: adopt_persisted_def Let_def)
  with Cons show ?case by (simp add: restore_def r)
qed (simp add: restore_def)

lemma reachable_max:
  assumes "reachable wd ok rs m0 (m, ts)"
  shows "mg_max_sandboxes m = mg_max_sandboxes m0"
proof -
  have run: "(sys_step wd (generates ok))\<^sup>*\<^sup>* (restore rs m0, []) (m, ts)" and "sys_inv (restored rs) (restore rs m0, [])"
    using assms reachable_inv [of wd ok rs m0 "(restore rs m0, [])"] by (auto simp: reachable_def)
  then have "limited (restored rs) (mg_max_sandboxes m0) (restore rs m0, [])" by (simp add: limited_def restore_max)
  from limits.run_keeps [OF run this] show ?thesis by (simp add: limited_def)
qed

section \<open>References\<close>

lemma holder_Some:
  assumes "keys_ok (idnames m)" "holder_of n m = Some i"
  shows "map_of (idnames m) i = Some n"
proof -
  obtain e where "find (\<lambda>(_, e). name_of e = n) (mg_entries m) = Some (i, e)"
    using assms(2) by (auto simp: holder_of_def)
  then have "(i, e) \<in> set (mg_entries m)" "name_of e = n" by (auto simp: find_Some_iff in_set_conv_nth)
  then have "(i, n) \<in> set (idnames m)" by (force simp: idnames_def)
  with keys_ok_map_of [OF assms(1)] show ?thesis by simp
qed

lemma holder_of_name:
  assumes "unique_names old m" "map_of (idnames m) i = Some n" "n \<noteq> ''''"
  obtains j where "holder_of n m = Some j" "map_of (idnames m) j = Some n" "j = i \<or> (i, n) \<in> old \<and> (j, n) \<in> old"
proof -
  note u = unique_namesD [OF assms(1)]
  have "holder_of n m \<noteq> None" using holder_None [OF u(1)] assms(2) by auto
  then obtain j where j: "holder_of n m = Some j" by auto
  have "map_of (idnames m) j = Some n" by (rule holder_Some [OF u(1) j])
  with that [OF j] u(2) [OF _ assms(2,3)] show ?thesis by blast
qed

lemma valid_reference: "valid_id i \<Longrightarrow> sandbox_reference i = Inr ()"
  by (auto simp: valid_id_def entity_id_ok sandbox_reference_def err_when_def MAX_SANDBOX_NAME_LEN_def
      is_reference_char_def is_id_char_def is_lower_hex_def list_all_iff text_defs)

lemma name_not_valid_id: "n = '''' \<or> sandbox_name n = Inr () \<Longrightarrow> valid_id i \<Longrightarrow> n \<noteq> i"
  using name_not_id_prefix [of n i] by (auto simp: valid_id_def entity_id_ok)

lemma resolve_id:
  assumes "unique_names old m" "ids_ok m ts" "entry_of m i = Some e"
  shows "resolve i m = Inr i"
proof -
  have i: "valid_id i" using assms(2,3) by (simp add: ids_ok_def)
  have "holder_of i m = None"
  proof (rule ccontr)
    assume "holder_of i m \<noteq> None"
    then obtain j where "holder_of i m = Some j" by auto
    from holder_Some [OF unique_namesD(1) [OF assms(1)] this] unique_namesD(3) [OF assms(1)] name_not_valid_id [OF _ i]
    show False by blast
  qed
  with valid_reference [OF i] assms(3) show ?thesis by (simp add: resolve_def)
qed

lemma resolve_name:
  assumes "unique_names old m" "entry_of m i = Some e" "name_of e \<noteq> ''''"
  obtains j e' where "resolve (name_of e) m = Inr j" "entry_of m j = Some e'" "name_of e' = name_of e"
    "j = i \<or> (i, name_of e) \<in> old \<and> (j, name_of e) \<in> old"
proof -
  have n: "map_of (idnames m) i = Some (name_of e)" using assms(2) by (simp add: map_of_idnames)
  then have "sandbox_name (name_of e) = Inr ()" using unique_namesD(3) [OF assms(1)] assms(3) by blast
  from sandbox_name_ok [OF this] have ref: "sandbox_reference (name_of e) = Inr ()" by (simp add: sandbox_reference_def err_when_def)
  obtain j where j: "holder_of (name_of e) m = Some j" "map_of (idnames m) j = Some (name_of e)"
    "j = i \<or> (i, name_of e) \<in> old \<and> (j, name_of e) \<in> old"
    by (rule holder_of_name [OF assms(1) n assms(3)])
  from j(2) obtain e' where "entry_of m j = Some e'" "name_of e' = name_of e" by (auto simp: map_of_idnames)
  with that [of j e'] ref j show ?thesis by (simp add: resolve_def)
qed

section \<open>A small daemon\<close>

text \<open>One stopped sandbox on disk, for the instances below.\<close>

definition demo_spec :: "string \<Rightarrow> string list \<Rightarrow> sandbox_spec" where
  "demo_spec name cmd =
     \<lparr>sp_name = name, sp_command = cmd, sp_entrypoint_len = 0, sp_workdir = [], sp_user = [], sp_tty = False,
      sp_auto_remove = False, sp_published_ports = [], sp_image_digest = [], sp_labels = [], sp_hostname = [],
      sp_stop_signal = [], sp_stop_timeout = None, sp_restart = default_restart_policy, sp_guest = default_guest_options\<rparr>"

definition demo_opts :: "string \<Rightarrow> string list \<Rightarrow> create_opts" where
  "demo_opts name cmd =
     \<lparr>co_image = ''alpine'', co_mounts = [], co_volume_ids = [], co_egress = default_egress_policy,
      co_resources = default_resource_limits, co_env = [], co_from_snapshot = None,
      co_comms = default_communication_policy, co_spec = demo_spec name cmd\<rparr>"

definition demo_meta :: "string \<Rightarrow> string \<Rightarrow> sandbox_status \<Rightarrow> sandbox_meta" where
  "demo_meta i name status =
     \<lparr>sm_id = i, sm_options = demo_opts name [], sm_created_at = 0, sm_status = status, sm_exit_code = None,
      sm_started_at = None, sm_finished_at = None, sm_end_reason = None, sm_token_hash = [], sm_had_secrets = False,
      sm_restart_count = 0, sm_manually_stopped = False\<rparr>"

definition demo_manager :: "unit manager" where
  "demo_manager = (manager_new 2 False)\<lparr>mg_store := True\<rparr>"

definition demo_records :: "(nat \<times> bool \<times> bool \<times> sandbox_meta) list" where
  "demo_records = [(5, True, False, demo_meta ''a1'' ''web'' Stopped)]"

definition demo_world :: world where
  "demo_world = \<lparr>wd_json = (\<lambda>_. Some []), wd_sha256 = (\<lambda>_. []), wd_smoltcp = True\<rparr>"

definition demo_step :: "string \<Rightarrow> env" where
  "demo_step i =
     \<lparr>en_now = 9, en_save = Saved, en_backend = None, en_paused = False, en_id = i, en_pid = ''f00d'', en_ports = Inr [],
      en_write = WriteOk, en_owner = Inr [],
      en_closed = False, en_removed = None\<rparr>"

lemmas daemon_defs = demo_spec_def demo_opts_def demo_meta_def demo_manager_def demo_records_def demo_world_def demo_step_def
  manager_new_def default_resource_limits_def

definition demo_entry :: "sandbox_status \<Rightarrow> sandbox_entry" where
  "demo_entry status =
     \<lparr>se_egress = egress_new ''a1'' default_egress_policy, se_timeout = None, se_ttl = None,
      se_meta = demo_meta ''a1'' ''web'' status, se_listeners = [], se_health = None\<rparr>"

lemma demo_restored:
  "restore demo_records demo_manager = put_entry ''a1'' (demo_entry Stopped) (demo_manager\<lparr>mg_permits := 1\<rparr>)"
  by (simp add: restore_def daemon_defs adopt_persisted_def adopted_entry_def demo_entry_def rearm_exited_ttl_def
      exited_ttl_of_def Let_def has_ended_def)

lemma valid_demo: "valid_id ''a1''" "valid_id ''b2''"
  by (simp_all add: valid_id_def entity_id_def err_when_def is_id_char_def is_lower_hex_def text_defs)

lemma demo_web: "sandbox_name ''web'' = Inr ()"
  by (simp add: sandbox_name_def err_when_def is_reference_char_def is_id_char_def is_lower_hex_def
      MAX_SANDBOX_NAME_LEN_def text_defs)

lemma demo_reachable: "reachable demo_world (\<lambda>_. True) demo_records demo_manager (restore demo_records demo_manager, [])"
  by (simp add: reachable_def empty_manager_def records_ok_def valid_demo demo_web meta_name_def daemon_defs)

lemma demo_fields:
  "mg_entries (restore demo_records demo_manager) = [(''a1'', demo_entry Stopped)]"
  "mg_mains (restore demo_records demo_manager) = Map.empty" "mg_exit (restore demo_records demo_manager) = Map.empty"
  "mg_store (restore demo_records demo_manager)" "mg_exited_ttl (restore demo_records demo_manager) = None"
  "mg_max_sandboxes demo_manager = 2" "mg_permits (restore demo_records demo_manager) = 1"
  unfolding demo_restored by (simp_all add: put_entry_def demo_manager_def manager_new_def)


section \<open>Properties\<close>

text \<open>
  C1: Whatever the tasks of the daemon do and in whatever order their sections run, the free permits,
  the sandboxes and the creates that have passed the limit check add up to the configured limit. So there
  are never more sandboxes than the limit, no permit is lost by a create that fails or by any of the ways
  a sandbox is removed, and a create is refused only when the limit is really used up.
\<close>

theorem capacity_never_exceeded:
  assumes "reachable wd ok rs m0 (m, ts)"
  shows "mg_permits m + length (mg_entries m) + sum_list (map permit ts) = mg_max_sandboxes m0"
  using reachable_inv [OF assms] reachable_max [OF assms] by (simp add: sys_inv_def capacity_def idnames_def)

theorem capacity_never_exceeded_witness:
  "mg_permits (restore demo_records demo_manager) + length (mg_entries (restore demo_records demo_manager)) = 2"
  using capacity_never_exceeded [OF demo_reachable] by (simp add: demo_fields)

text \<open>
  C2: In every reachable state a sandbox is found by its full id, and its record carries the id it is filed
  under. The name of a sandbox, if it has one, finds a sandbox of that name; and no two sandboxes have the
  same name unless both were read with it from disk when the daemon started, although creates and renames
  check and set names in separate critical sections.
\<close>

theorem references_find_their_sandbox:
  assumes "reachable wd ok rs m0 (m, ts)" "entry_of m i = Some e"
  shows "resolve i m = Inr i \<and> sm_id (se_meta e) = i \<and>
    (name_of e \<noteq> '''' \<longrightarrow>
       (\<exists>j e'. resolve (name_of e) m = Inr j \<and> entry_of m j = Some e' \<and> name_of e' = name_of e) \<and>
       (\<forall>j e'. entry_of m j = Some e' \<and> name_of e' = name_of e \<longrightarrow>
          j = i \<or> (i, name_of e) \<in> restored rs \<and> (j, name_of e) \<in> restored rs))"
proof -
  have inv: "unique_names (restored rs) m" "ids_ok m ts" using reachable_inv [OF assms(1)] by (simp_all add: sys_inv_def)
  have same: "j = i \<or> (i, name_of e) \<in> restored rs \<and> (j, name_of e) \<in> restored rs"
    if "name_of e \<noteq> ''''" "entry_of m j = Some e'" "name_of e' = name_of e" for j e'
    using unique_namesD(2) [OF inv(1), of j "name_of e" i] that assms(2) by (auto simp: map_of_idnames)
  have found: "\<exists>j e'. resolve (name_of e) m = Inr j \<and> entry_of m j = Some e' \<and> name_of e' = name_of e" if "name_of e \<noteq> ''''"
    using resolve_name [OF inv(1) assms(2) that] by blast
  have "sm_id (se_meta e) = i" using inv(2) assms(2) unfolding ids_ok_def by blast
  with same found resolve_id [OF inv assms(2)] show ?thesis by blast
qed

theorem references_find_their_sandbox_witness:
  "resolve ''a1'' (restore demo_records demo_manager) = Inr ''a1'' \<and>
   resolve ''web'' (restore demo_records demo_manager) = Inr ''a1''"
proof -
  have "entry_of (restore demo_records demo_manager) ''a1'' = Some (demo_entry Stopped)"
    by (simp add: entry_of_def demo_fields)
  note found = references_find_their_sandbox [OF demo_reachable this]
  have "name_of (demo_entry Stopped) = ''web''" by (simp add: name_of_def demo_entry_def demo_meta_def demo_opts_def demo_spec_def)
  with found obtain j where "resolve ''web'' (restore demo_records demo_manager) = Inr j"
    "entry_of (restore demo_records demo_manager) j \<noteq> None" by auto
  then have "resolve ''web'' (restore demo_records demo_manager) = Inr ''a1''"
    by (auto simp: entry_of_def demo_fields split: if_splits)
  with found show ?thesis by simp
qed



end
