(* ===== verification/Progress.thy ===== *)
theory Progress
  imports Reachable
begin

text \<open>
  Progress of the manager's tasks, \<open>ward-core/src/sandbox/manager.rs\<close>. Every section of a task that is
  not done brings it closer to its end, whatever the backend, the disk and the other tasks do; the
  exceptions wait for a main process to end: its watcher, and a stop or restart without a time limit. The measure is a pair: how far the
  operation is, and how much is left of the list it is working through.
\<close>

section \<open>How much is left\<close>














section \<open>Each section makes progress\<close>


















section \<open>Runs\<close>





section \<open>Stopping a paused sandbox\<close>

text \<open>The place in \<open>thaw_if_paused\<close> of a task that is stopping a sandbox.\<close>

fun thaws :: "task \<Rightarrow> thaw_pc option" where
  "thaws (TStop i (SpStop grace (StThaw before meta pc))) = Some pc"
| "thaws (TRestart i (RoStop grace (StThaw before meta pc))) = Some pc"
| "thaws t = None"

definition unthawed :: "(string \<times> string) set \<Rightarrow> 'c sys \<Rightarrow> bool" where
  "unthawed old s \<longleftrightarrow> sys_inv old s \<and> (\<forall>t\<in>set (snd s). thaws t \<in> {None, Some ThStatus})"

lemma thaw_not_running:
  assumes "st_of m i \<noteq> Some Running"
  shows "\<exists>r. thaw_section en i ThStatus m = (ThDone r, m)"
  using assms by (auto simp: recorded_status_def st_of_def split: option.splits)

lemma stop_skips_thaw:
  assumes "st_of m i \<noteq> Some Running"
  shows "stop_section en grace i (StThaw before meta ThStatus) m = (StClose before meta, m)"
  using thaw_not_running [OF assms, of en] by (auto simp del: thaw_section.simps)

lemma stop_enters_thaw:
  assumes "stop_section en grace i pc m = (pc', m')" "\<And>before meta tp. pc = StThaw before meta tp \<Longrightarrow> tp = ThStatus \<and> st_of m i \<noteq> Some Running"
    "pc' = StThaw before meta tp"
  shows "tp = ThStatus"
proof (cases pc)
  case (StThaw b mt tq)
  with assms(2) stop_skips_thaw [of m i en grace b mt] assms(1,3) show ?thesis by auto
qed (use assms(1,3) in \<open>auto split: prod.splits sum.splits option.splits if_splits\<close>)

lemma task_enters_thaw:
  assumes sec: "task_section wd en t m = (t', m', new)" and "thaws t \<in> {None, Some ThStatus}"
    and own: "\<And>i. trans_of t = Some (i, Stopping) \<Longrightarrow> st_of m i \<noteq> Some Running"
  shows "thaws t' \<in> {None, Some ThStatus}"
proof (cases "thaws t'")
  case (Some tp)
  then consider i b mt grace where "t' = TStop i (SpStop grace (StThaw b mt tp))" | i b mt grace where "t' = TRestart i (RoStop grace (StThaw b mt tp))"
    by (cases t' rule: thaws.cases) auto
  then show ?thesis
  proof cases
    case 1
    with sec obtain pc where t: "t = TStop i pc" by (cases t) (auto split: prod.splits)
    with sec 1 obtain g sp where sp: "pc = SpStop g sp" by (cases pc) (auto split: prod.splits option.splits if_splits remove_op_pc.splits)
    with sec 1 t have "stop_section en g i sp m = (StThaw b mt tp, m')"
      by (auto split: prod.splits stop_pc.splits sum.splits)
    from stop_enters_thaw [OF this _ refl] assms(2) own t sp Some show ?thesis by fastforce
  next
    case 2
    with sec obtain pc where t: "t = TRestart i pc" by (cases t) (auto split: prod.splits)
    show ?thesis
    proof (cases "\<exists>g sp. pc = RoStop g sp")
      case True
      then obtain g sp where sp: "pc = RoStop g sp" by blast
      with sec 2 t have "stop_section en g i sp m = (StThaw b mt tp, m')"
        by (auto split: prod.splits stop_pc.splits sum.splits)
      from stop_enters_thaw [OF this _ refl] assms(2) own t sp Some show ?thesis by fastforce
    next
      case False
      with sec 2 t show ?thesis
        by (cases pc) (auto split: prod.splits sum.splits if_splits start_pc.splits)
    qed
  qed
qed simp

lemma owned_stopping:
  assumes "sys_inv old (m, ts)" "t \<in> set ts" "trans_of t = Some (i, Stopping)"
  shows "st_of m i \<noteq> Some Running"
  using assms unfolding sys_inv_def owned_def by fastforce

interpretation stops: invariant_system "sys_step wd (generates ok)" "unthawed old" for wd ok old
proof
  fix s t :: "'c sys"
  assume step: "sys_step wd (generates ok) s t" and un: "unthawed old s"
  have "\<forall>u\<in>set (snd t). thaws u \<in> {None, Some ThStatus}"
    using step
  proof (cases rule: sys_step_cases)
    case (runs k ts en m t' m' new)
    have k: "ts ! k \<in> set ts" "thaws (ts ! k) \<in> {None, Some ThStatus}"
      using runs un by (auto simp: unthawed_def)
    have "sys_inv old (m, ts)" and sec: "task_section wd en (ts ! k) m = (t', m', new)"
      using runs un by (simp_all add: unthawed_def)
    then have "thaws t' \<in> {None, Some ThStatus}"
      by (intro task_enters_thaw [OF sec k(2)] owned_stopping [OF _ k(1)])
    moreover have "thaws u = None" if "u \<in> set new" for u using new_tasks [of wd en "ts ! k" m t' m' new u] runs that by auto
    ultimately show ?thesis using runs un set_update_subset_insert [of ts k t'] by (fastforce simp: unthawed_def)
  next
    case (arrive u m ts)
    have "thaws u = None" using arrive by (cases u) auto
    with arrive un show ?thesis by (auto simp: unthawed_def)
  qed (use un in \<open>auto simp: unthawed_def\<close>)
  with lifecycle.step_keeps [OF step] un show "unthawed old t" by (simp add: unthawed_def)
qed

lemma reachable_unthawed:
  assumes "reachable wd ok rs m0 s"
  shows "unthawed (restored rs) s"
proof -
  have "unthawed (restored rs) (restore rs m0, [])"
    using assms reachable_inv [of wd ok rs m0 "(restore rs m0, [])"] by (simp add: unthawed_def reachable_def)
  with assms stops.run_keeps show ?thesis unfolding reachable_def by blast
qed

section \<open>Properties\<close>





text \<open>
  C5: Stopping a paused sandbox never thaws it. In every reachable state, a stop or a restart that is
  about to thaw the sandbox goes on without asking the backend, whether the sandbox is paused or not: the
  sandbox is already recorded as stopping, and only a running sandbox is looked at.
\<close>

theorem stop_never_thaws:
  assumes "reachable wd ok rs m0 (m, ts)"
    and "TStop i (SpStop grace (StThaw before meta pc)) \<in> set ts \<or> TRestart i (RoStop grace (StThaw before meta pc)) \<in> set ts"
  shows "stop_section en grace i (StThaw before meta pc) m = (StClose before meta, m)"
proof -
  have un: "unthawed (restored rs) (m, ts)" by (rule reachable_unthawed [OF assms(1)])
  then have "pc = ThStatus" using assms(2) by (auto simp: unthawed_def)
  moreover have "st_of m i \<noteq> Some Running" using assms(2) un owned_stopping [of "restored rs" m ts] by (auto simp: unthawed_def)
  ultimately show ?thesis using stop_skips_thaw by simp
qed

text \<open>A running sandbox, on which a client's stop has begun.\<close>

definition demo_running :: "unit manager" where
  "demo_running = restore [(5, True, False, demo_meta ''a1'' ''web'' Running)] demo_manager"

lemma demo_running_fields:
  "map fst (mg_entries demo_running) = [''a1'']" "mg_mains demo_running = Map.empty" "mg_exit demo_running = Map.empty"
  by (simp_all add: demo_running_def restore_def daemon_defs adopt_persisted_def entry_of_def put_entry_def Let_def)

lemma demo_running_fresh: "i \<noteq> ''a1'' \<Longrightarrow> entry_of demo_running i = None"
  using demo_running_fields(1) by (auto simp: entry_of_def map_of_eq_None_iff simp flip: set_map)

lemma demo_stop_begins:
  "stop_section (demo_step ''b2'') grace ''a1'' StBegin demo_running =
     (StThaw Running (demo_meta ''a1'' ''web'' Running) ThStatus, fst (begin_stop Saved 9 ''a1'' demo_running))"
  by (simp add: demo_running_def restore_def daemon_defs adopt_persisted_def adopted_entry_def rearm_exited_ttl_def
      exited_ttl_of_def Let_def has_ended_def begin_stop_def entry_of_def put_entry_def commit_meta_def commit_meta_ended_def
      persist_meta_def stamp_times_def set_manual_def)

lemma demo_stopping:
  "reachable demo_world (\<lambda>_. True) [(5, True, False, demo_meta ''a1'' ''web'' Running)] demo_manager
     (fst (begin_stop Saved 9 ''a1'' demo_running),
      [TStop ''a1'' (SpStop (Some 7) (StThaw Running (demo_meta ''a1'' ''web'' Running) ThStatus))])"
proof -
  let ?g = "TStop ''a1'' (SpGrace (Some 7))" and ?t = "TStop ''a1'' (SpStop (Some 7) StBegin)"
  let ?u = "TStop ''a1'' (SpStop (Some 7) (StThaw Running (demo_meta ''a1'' ''web'' Running) ThStatus))"
  note fresh = generates_def valid_demo fresh_id_def demo_running_fields demo_running_fresh demo_step_def
  have "sys_step demo_world (generates (\<lambda>_. True)) (demo_running, []) (demo_running, [] @ [?g])"
    by (rule sys_step.arrive) simp
  moreover have "sys_step demo_world (generates (\<lambda>_. True)) (demo_running, [?g]) (demo_running, [?g][0 := ?t] @ [])"
    by (rule sys_step.runs [where en = "demo_step ''b2''"]) (simp_all add: fresh grace_for_def grace_period_def)
  moreover have "sys_step demo_world (generates (\<lambda>_. True)) (demo_running, [?t])
      (fst (begin_stop Saved 9 ''a1'' demo_running), [?t][0 := ?u] @ [])"
    by (rule sys_step.runs [where en = "demo_step ''b2''"])
       (use demo_stop_begins in \<open>simp_all add: fresh del: stop_section.simps\<close>)
  ultimately have "(sys_step demo_world (generates (\<lambda>_. True)))\<^sup>*\<^sup>* (demo_running, [])
      (fst (begin_stop Saved 9 ''a1'' demo_running), [?u])"
    by (simp add: rtranclp.rtrancl_into_rtrancl)
  then show ?thesis
    by (simp add: reachable_def demo_running_def empty_manager_def records_ok_def valid_demo demo_web meta_name_def daemon_defs)
qed

theorem stop_never_thaws_witness:
  "stop_section ((demo_step ''b2'')\<lparr>en_paused := True\<rparr>) (Some 7) ''a1''
     (StThaw Running (demo_meta ''a1'' ''web'' Running) ThStatus) (fst (begin_stop Saved 9 ''a1'' demo_running)) =
   (StClose Running (demo_meta ''a1'' ''web'' Running), fst (begin_stop Saved 9 ''a1'' demo_running))"
  by (rule stop_never_thaws [OF demo_stopping]) simp

end
