(* ===== verification/Printing.thy ===== *)
theory Printing
  imports Addr
begin

text \<open>
  Text the Rust standard library writes and reads back: decimal and hexadecimal numbers, IP
  addresses (\<open>Display\<close>), and the parsers of signed and octal numbers. A number that is printed and
  parsed again is the same number.
\<close>

section \<open>Numbers\<close>

fun dec :: "nat \<Rightarrow> string" where
  "dec n = (if n < 10 then [char_of (48 + n)] else dec (n div 10) @ [char_of (48 + n mod 10)])"

declare dec.simps [simp del]

definition int_text :: "int \<Rightarrow> string" where
  "int_text i = (if i < 0 then CHR ''-'' # dec (nat (- i)) else dec (nat i))"

definition parse_i64 :: "string \<Rightarrow> int option" where
  "parse_i64 s =
     (case s of
        c # cs \<Rightarrow>
          if c = CHR ''-'' \<and> cs \<noteq> [] then
            (if list_all is_ascii_digit cs \<and> dec_val cs \<le> 9223372036854775808
             then Some (- int (dec_val cs)) else None)
          else map_option int (parse_unsigned 9223372036854775807 s)
      | [] \<Rightarrow> None)"

text \<open>\<open>u32::from_str_radix(_, 8)\<close>.\<close>

definition is_octal_digit :: "char \<Rightarrow> bool" where
  "is_octal_digit c \<longleftrightarrow> 48 \<le> byte c \<and> byte c \<le> 55"

definition oct_val :: "string \<Rightarrow> nat" where
  "oct_val s = foldl (\<lambda>n c. 8 * n + digit_val c) 0 s"

definition parse_octal :: "nat \<Rightarrow> string \<Rightarrow> nat option" where
  "parse_octal hi s =
     (let ds = (case s of c # cs \<Rightarrow> if c = CHR ''+'' \<and> cs \<noteq> [] then cs else s | [] \<Rightarrow> [])
      in if ds = [] \<or> \<not> list_all is_octal_digit ds \<or> oct_val ds > hi then None else Some (oct_val ds))"

lemma digit_char: "n < 10 \<Longrightarrow> is_ascii_digit (char_of (48 + n)) \<and> digit_val (char_of (48 + n)) = n"
  by (simp add: is_ascii_digit_def digit_val_def byte_def)

lemma dec_not_Nil [simp]: "dec n \<noteq> []"
  by (subst dec.simps) simp

lemma dec_digits: "list_all is_ascii_digit (dec n)"
proof (induction n rule: dec.induct)
  case (1 n)
  then show ?case
    by (subst dec.simps) (use digit_char [of n] digit_char [of "n mod 10"] in auto)
qed

lemma dec_val_dec [simp]: "dec_val (dec n) = n"
proof (induction n rule: dec.induct)
  case (1 n)
  show ?case
  proof (cases "n < 10")
    case True
    then show ?thesis by (subst dec.simps) (use digit_char [of n] in \<open>simp add: dec_val_def\<close>)
  next
    case False
    then have "dec_val (dec n) = 10 * dec_val (dec (n div 10)) + digit_val (char_of (48 + n mod 10))"
      by (subst dec.simps) (simp add: dec_val_def)
    with 1 False digit_char [of "n mod 10"] show ?thesis by simp
  qed
qed

lemma digits_not_sign: "list_all is_ascii_digit (c # cs) \<Longrightarrow> c \<noteq> CHR ''+'' \<and> c \<noteq> CHR ''-''"
  by (auto simp: is_ascii_digit_def byte_def)

lemma parse_dec [simp]: "parse_unsigned hi (dec n) = (if n \<le> hi then Some n else None)"
proof -
  obtain c cs where c: "dec n = c # cs" by (cases "dec n") auto
  with dec_digits [of n] have "c \<noteq> CHR ''+''" "list_all is_ascii_digit (c # cs)" using digits_not_sign by metis+
  with c dec_val_dec [of n] show ?thesis by (auto simp: parse_unsigned_def)
qed

lemma parse_int_text:
  assumes "- 9223372036854775808 \<le> i" "i \<le> 9223372036854775807"
  shows "parse_i64 (int_text i) = Some i"
proof (cases "i < 0")
  case True
  with assms(1) show ?thesis by (simp add: parse_i64_def int_text_def dec_digits)
next
  case False
  obtain c cs where c: "dec (nat i) = c # cs" by (cases "dec (nat i)") auto
  with dec_digits [of "nat i"] have "c \<noteq> CHR ''-''" using digits_not_sign by metis
  moreover have "nat i \<le> 9223372036854775807" using assms(2) by linarith
  ultimately show ?thesis using False c parse_dec [of 9223372036854775807 "nat i"]
    by (simp add: parse_i64_def int_text_def)
qed

lemma dec_chars: "c \<in> set (dec n) \<Longrightarrow> is_ascii_digit c"
  using dec_digits [of n] by (simp add: list_all_iff)

section \<open>Addresses\<close>

definition hex_char :: "nat \<Rightarrow> char" where
  "hex_char d = (if d < 10 then char_of (48 + d) else char_of (87 + d))"

text \<open>\<open>{:x}\<close>.\<close>

fun hex_text :: "nat \<Rightarrow> string" where
  "hex_text n = (if n < 16 then [hex_char n] else hex_text (n div 16) @ [hex_char (n mod 16)])"

declare hex_text.simps [simp del]

text \<open>The first longest run of zeros, as its start and length.\<close>

fun zero_run :: "nat \<Rightarrow> nat \<times> nat \<Rightarrow> nat \<times> nat \<Rightarrow> nat list \<Rightarrow> nat \<times> nat" where
  "zero_run i cur longest [] = longest"
| "zero_run i cur longest (s # ss) =
     (if s = 0
      then (let cur = (if snd cur = 0 then i else fst cur, snd cur + 1)
            in zero_run (i + 1) cur (if snd cur > snd longest then cur else longest) ss)
      else zero_run (i + 1) (0, 0) longest ss)"

definition v4_text :: "nat \<Rightarrow> nat \<Rightarrow> nat \<Rightarrow> nat \<Rightarrow> string" where
  "v4_text a b c d = dec a @ ''.'' @ dec b @ ''.'' @ dec c @ ''.'' @ dec d"

definition v6_text :: "nat list \<Rightarrow> string" where
  "v6_text ss =
     (if take 6 ss = [0, 0, 0, 0, 0, 65535]
      then ''::ffff:'' @ v4_text (ss ! 6 div 256) (ss ! 6 mod 256) (ss ! 7 div 256) (ss ! 7 mod 256)
      else (case zero_run 0 (0, 0) (0, 0) ss of (start, len) \<Rightarrow>
              if len > 1
              then join_with (CHR '':'') (map hex_text (take start ss)) @ ''::'' @
                   join_with (CHR '':'') (map hex_text (drop (start + len) ss))
              else join_with (CHR '':'') (map hex_text ss)))"

fun ip_text :: "ip_addr \<Rightarrow> string" where
  "ip_text (V4 a b c d) = v4_text (unat a) (unat b) (unat c) (unat d)"
| "ip_text (V6 a b c d e f g h) = v6_text (map unat [a, b, c, d, e, f, g, h])"

section \<open>Lines and white space\<close>

text \<open>\<open>str::lines\<close>: a line ends with a line feed, or a carriage return and a line feed.\<close>

definition strip_cr :: "string \<Rightarrow> string" where
  "strip_cr s = (if s \<noteq> [] \<and> last s = CHR 0x0D then butlast s else s)"

definition str_lines :: "string \<Rightarrow> string list" where
  "str_lines s =
     (let parts = split_on (CHR 0x0A) s
      in map strip_cr (butlast parts) @ (if last parts = [] then [] else [last parts]))"

text \<open>\<open>str::trim\<close>.\<close>

fun trim_left :: "string \<Rightarrow> string" where
  "trim_left [] = []"
| "trim_left (c # cs) =
     (let n = ws_len (c # cs) in if n = 0 then c # cs else trim_left (drop (n - 1) cs))"

fun trim_right :: "string \<Rightarrow> string" where
  "trim_right [] = []"
| "trim_right (c # cs) =
     (let n = ws_len (c # cs)
      in if n = 0 then c # trim_right cs
         else (let r = trim_right (drop (n - 1) cs) in if r = [] then [] else take n (c # cs) @ r))"

definition str_trim :: "string \<Rightarrow> string" where
  "str_trim s = trim_right (trim_left s)"

lemma ws_len_le: "ws_len s \<le> length s"
  by (auto simp: ws_len_def split: list.splits)

lemma ws_len_shape:
  "\<exists>w1 w2 w3. \<forall>s. ws_len s =
     (case s of [] \<Rightarrow> 0 | a # r \<Rightarrow> if w1 a then 1
      else (case r of [] \<Rightarrow> 0 | b # q \<Rightarrow> if w2 a b then 2
            else (case q of [] \<Rightarrow> 0 | c # _ \<Rightarrow> if w3 a b c then 3 else 0)))"
  unfolding ws_len_def by (intro exI allI, rule refl)

lemma ws_len_append: "ws_len (p @ t) \<le> length p \<Longrightarrow> ws_len p = ws_len (p @ t)"
proof -
  assume le: "ws_len (p @ t) \<le> length p"
  obtain w1 w2 w3 where w: "\<And>s. ws_len s =
     (case s of [] \<Rightarrow> 0 | a # r \<Rightarrow> if w1 a then 1
      else (case r of [] \<Rightarrow> 0 | b # q \<Rightarrow> if w2 a b then 2
            else (case q of [] \<Rightarrow> 0 | c # _ \<Rightarrow> if w3 a b c then 3 else 0)))"
    using ws_len_shape by blast
  show ?thesis using le
    by (cases p; cases "tl p"; cases "tl (tl p)") (auto simp: w split: list.splits if_splits)
qed

lemma ws_len_prefix: "prefix p s \<Longrightarrow> ws_len s \<le> length p \<Longrightarrow> ws_len p = ws_len s"
  using ws_len_append by (auto simp: prefix_def)

lemma ws_len_prefix_0: "prefix p s \<Longrightarrow> ws_len s = 0 \<Longrightarrow> ws_len p = 0"
  using ws_len_prefix by fastforce

lemma trim_right_prefix: "prefix (trim_right s) s"
proof (induction s rule: trim_right.induct)
  case (2 c cs)
  let ?n = "ws_len (c # cs)"
  show ?case
  proof (cases "?n = 0")
    case False
    then have "c # cs = take ?n (c # cs) @ drop (?n - 1) cs" by (simp add: take_Cons')
    moreover obtain t where "drop (?n - 1) cs = trim_right (drop (?n - 1) cs) @ t"
      using 2(2) False by (auto simp: prefix_def)
    ultimately have "c # cs = take ?n (c # cs) @ trim_right (drop (?n - 1) cs) @ t" by metis
    then show ?thesis using False by (simp add: Let_def) (metis prefixI append.assoc)
  qed (use 2 in \<open>simp add: Let_def\<close>)
qed simp

lemma trim_right_idem [simp]: "trim_right (trim_right s) = trim_right s"
proof (induction s rule: trim_right.induct)
  case (2 c cs)
  let ?n = "ws_len (c # cs)" and ?r = "trim_right (drop (ws_len (c # cs) - 1) cs)"
  show ?case
  proof (cases "?n = 0")
    case True
    have "ws_len (c # trim_right cs) = 0"
      using ws_len_prefix_0 [of "c # trim_right cs" "c # cs"] trim_right_prefix [of cs] True by simp
    with 2 True show ?thesis by (simp add: Let_def)
  next
    case False
    show ?thesis
    proof (cases "?r = []")
      case r: False
      let ?t = "take ?n (c # cs)"
      have t: "length ?t = ?n" "?t = c # take (?n - 1) cs" using False ws_len_le [of "c # cs"] by (simp_all add: take_Cons')
      have "prefix (?t @ ?r) (c # cs)"
        using trim_right_prefix [of "c # cs"] False r by (simp add: Let_def)
      then have "ws_len (?t @ ?r) = ?n" using t(1) by (intro ws_len_prefix) auto
      then have w: "ws_len (c # take (?n - 1) cs @ ?r) = ?n" using t(2) by simp
      have l: "length (take (?n - 1) cs) = ?n - 1" using t by simp
      have "trim_right (c # take (?n - 1) cs @ ?r) = take ?n (c # take (?n - 1) cs @ ?r) @ trim_right ?r"
        using False r 2(2) l unfolding trim_right.simps w by (simp add: Let_def)
      also have "take ?n (c # take (?n - 1) cs @ ?r) = ?t" using False l by (simp add: take_Cons' t(2))
      finally have "trim_right (?t @ ?r) = ?t @ trim_right ?r" using t(2) by simp
      with 2(2) False r show ?thesis by (simp add: Let_def)
    qed (use False in \<open>simp add: Let_def\<close>)
  qed
qed simp

lemma trim_left_start: "trim_left s = s \<or> ws_len s > 0"
  by (cases s) (auto simp: Let_def)

lemma trim_left_ws: "ws_len (trim_left s) = 0"
  by (induction s rule: trim_left.induct) (auto simp: Let_def ws_len_def [of "[]"])

lemma trim_left_fix: "ws_len s = 0 \<Longrightarrow> trim_left s = s"
  by (cases s) simp_all

lemma str_trim_idem [simp]: "str_trim (str_trim s) = str_trim s"
  using ws_len_prefix_0 [OF trim_right_prefix trim_left_ws] by (simp add: str_trim_def trim_left_fix)

end
