(* ===== verification/Guest.thy ===== *)
theory Guest
  imports Printing Validate Health
begin

text \<open>
  Guest setup options: \<open>ward-core/src/guest_options.rs\<close>, \<open>guest_network.rs\<close> and \<open>guest_limits.rs\<close>. Every
  validator in its order, what is stored of a request, and the arguments that hand the stored
  options to the guest agent.
\<close>

section \<open>Host names and resolver options\<close>

definition HOST_GATEWAY :: string where "HOST_GATEWAY = ''host-gateway''"
definition GATEWAY_ADDRESS :: string where "GATEWAY_ADDRESS = ''10.0.2.2''"
definition MAX_EXTRA_HOSTS :: nat where "MAX_EXTRA_HOSTS = 256"
definition MAX_HOST_NAME_LEN :: nat where "MAX_HOST_NAME_LEN = 253"
definition MAX_SEARCH_DOMAINS :: nat where "MAX_SEARCH_DOMAINS = 6"
definition MAX_SEARCH_CHARS :: nat where "MAX_SEARCH_CHARS = 256"
definition MAX_DNS_OPTIONS :: nat where "MAX_DNS_OPTIONS = 32"
definition MAX_OPTION_LEN :: nat where "MAX_OPTION_LEN = 64"

definition ADD_HOST_ARG :: string where "ADD_HOST_ARG = ''--add-host''"
definition DNS_SEARCH_ARG :: string where "DNS_SEARCH_ARG = ''--dns-search''"
definition DNS_OPTION_ARG :: string where "DNS_OPTION_ARG = ''--dns-option''"

definition is_name_char :: "char \<Rightarrow> bool" where
  "is_name_char c \<longleftrightarrow> is_ascii_alphanumeric c \<or> c \<in> set ''-._''"

definition trim_start :: "char \<Rightarrow> string \<Rightarrow> string" where
  "trim_start c s = dropWhile (\<lambda>x. x = c) s"

definition trim_end :: "char \<Rightarrow> string \<Rightarrow> string" where
  "trim_end c s = rev (dropWhile (\<lambda>x. x = c) (rev s))"

definition extra_host :: "string \<Rightarrow> string result" where
  "extra_host entry =
     (case split_once (CHR '':'') entry of
        None \<Rightarrow> Inl (invalid ''invalid --add-host '{entry}': use HOST:IP'' [S entry])
      | Some (name, address) \<Rightarrow>
          if name = '''' \<or> length name > MAX_HOST_NAME_LEN \<or> \<not> list_all is_name_char name
          then Inl (invalid ''invalid --add-host '{entry}': the host name is empty, too long or has a bad character'' [S entry])
          else (let address = trim_end (CHR '']'') (trim_start (CHR ''['') address)
                in if address = HOST_GATEWAY then Inr (name @ '':'' @ GATEWAY_ADDRESS)
                   else (case parse_ip address of
                           None \<Rightarrow> Inl (invalid ''invalid --add-host '{entry}': the address is not an IP'' [S entry])
                         | Some ip \<Rightarrow> Inr (name @ '':'' @ ip_text ip))))"

definition extra_hosts :: "string list \<Rightarrow> string list result" where
  "extra_hosts entries =
     and_then (err_when (length entries > MAX_EXTRA_HOSTS)
                 (invalid ''at most {MAX_EXTRA_HOSTS} --add-host entries are allowed'' [])) (\<lambda>_.
     collect_results extra_host entries)"

definition search_domains :: "string list \<Rightarrow> unit result" where
  "search_domains domains =
     and_then (err_when (length domains > MAX_SEARCH_DOMAINS \<or> sum_list (map (\<lambda>d. length d + 1) domains) > MAX_SEARCH_CHARS)
                 (invalid ''--dns-search takes at most {MAX_SEARCH_DOMAINS} domains and {MAX_SEARCH_CHARS} characters'' [])) (\<lambda>_.
     try_each (\<lambda>domain. err_when (domain = '''' \<or> length domain > MAX_HOST_NAME_LEN \<or> \<not> list_all is_name_char domain)
                 (invalid ''invalid --dns-search '{domain}' '' [S domain])) domains)"

definition dns_options_ok :: "string list \<Rightarrow> unit result" where
  "dns_options_ok opts =
     and_then (err_when (length opts > MAX_DNS_OPTIONS)
                 (invalid ''at most {MAX_DNS_OPTIONS} --dns-option entries are allowed'' [])) (\<lambda>_.
     try_each (\<lambda>opt. err_when (\<not> (opt \<noteq> '''' \<and> length opt \<le> MAX_OPTION_LEN \<and>
                   list_all (\<lambda>c. is_ascii_alphanumeric c \<or> c \<in> set '':-_.'') opt))
                 (invalid ''invalid --dns-option '{option}' '' [S opt])) opts)"

definition network_args :: "string list \<Rightarrow> string list \<Rightarrow> string list \<Rightarrow> string list" where
  "network_args hosts search opts =
     concat (map (\<lambda>entry. case split_once (CHR '':'') entry of
                            Some (name, address) \<Rightarrow> [ADD_HOST_ARG, name, address]
                          | None \<Rightarrow> []) hosts) @
     concat (map (\<lambda>domain. [DNS_SEARCH_ARG, domain]) search) @
     concat (map (\<lambda>opt. [DNS_OPTION_ARG, opt]) opts)"

section \<open>Limits and groups\<close>

definition ULIMIT_NAMES :: "string list" where
  "ULIMIT_NAMES =
     [''core'', ''cpu'', ''data'', ''fsize'', ''locks'', ''memlock'', ''msgqueue'', ''nice'', ''nofile'', ''nproc'', ''rss'',
      ''rtprio'', ''rttime'', ''sigpending'', ''stack'']"

definition UNLIMITED :: int where "UNLIMITED = -1"
definition MAX_GROUPS :: nat where "MAX_GROUPS = 64"
definition MAX_GROUP_NAME_LEN :: nat where "MAX_GROUP_NAME_LEN = 32"
definition MIN_CPU_SHARES :: nat where "MIN_CPU_SHARES = 2"
definition MAX_CPU_SHARES :: nat where "MAX_CPU_SHARES = 262144"
definition MIN_CPU_WEIGHT :: nat where "MIN_CPU_WEIGHT = 1"
definition MAX_CPU_WEIGHT :: nat where "MAX_CPU_WEIGHT = 10000"
definition MIN_CPU_PERIOD :: nat where "MIN_CPU_PERIOD = 1000"
definition MAX_CPU_PERIOD :: nat where "MAX_CPU_PERIOD = 1000000"
definition MIN_CPU_QUOTA :: int where "MIN_CPU_QUOTA = 1000"
definition DEFAULT_CPU_SHARES :: u32 where "DEFAULT_CPU_SHARES = 1024"
definition DEFAULT_CPU_PERIOD :: nat where "DEFAULT_CPU_PERIOD = 100000"
definition CPU_MAX_UNLIMITED :: string where "CPU_MAX_UNLIMITED = ''max''"

definition ULIMIT_ARG :: string where "ULIMIT_ARG = ''--ulimit''"
definition GROUP_ADD_ARG :: string where "GROUP_ADD_ARG = ''--group-add''"
definition MEMORY_LOW_ARG :: string where "MEMORY_LOW_ARG = ''--memory-low''"
definition CPU_WEIGHT_ARG :: string where "CPU_WEIGHT_ARG = ''--cpu-weight''"
definition CPU_MAX_ARG :: string where "CPU_MAX_ARG = ''--cpu-max''"
definition CPUSET_ARG :: string where "CPUSET_ARG = ''--cpuset-cpus''"

definition ulimit_step :: "ulimit list \<Rightarrow> ulimit \<Rightarrow> ulimit list result" where
  "ulimit_step kept u =
     (let below = (ul_soft u < UNLIMITED \<or> ul_hard u < UNLIMITED);
          soft_above_hard = (ul_hard u \<noteq> UNLIMITED \<and> (ul_soft u = UNLIMITED \<or> ul_soft u > ul_hard u))
      in if ul_name u \<notin> set ULIMIT_NAMES then Inl (invalid ''invalid ulimit type: {}'' [S (ul_name u)])
         else if below \<or> soft_above_hard
         then Inl (invalid ''ulimit {}: the soft limit must not exceed the hard limit, and -1 means unlimited'' [S (ul_name u)])
         else Inr (filter (\<lambda>k. ul_name k \<noteq> ul_name u) kept @ [u]))"

definition ulimits_ok :: "ulimit list \<Rightarrow> ulimit list result" where
  "ulimits_ok entries = foldl (\<lambda>acc u. and_then acc (\<lambda>kept. ulimit_step kept u)) (Inr []) entries"

definition group_add_ok :: "string list \<Rightarrow> unit result" where
  "group_add_ok groups =
     and_then (err_when (length groups > MAX_GROUPS)
                 (invalid ''at most {MAX_GROUPS} --group-add entries are allowed'' [])) (\<lambda>_.
     try_each (\<lambda>g.
       let numeric = (parse_unsigned 4294967295 g \<noteq> None);
           named = (g \<noteq> '''' \<and> length g \<le> MAX_GROUP_NAME_LEN \<and>
                    list_all (\<lambda>c. is_ascii_alphanumeric c \<or> c \<in> set ''-_.'') g)
       in err_when (\<not> numeric \<and> \<not> named) (invalid ''invalid --group-add '{group}' '' [S g])) groups)"

definition cpuset_part_ok :: "string \<Rightarrow> bool" where
  "cpuset_part_ok part =
     (case split_once (CHR ''-'') part of
        Some (low, high) \<Rightarrow>
          (case (parse_unsigned 4294967295 low, parse_unsigned 4294967295 high) of
             (Some l, Some h) \<Rightarrow> l \<le> h | _ \<Rightarrow> False)
      | None \<Rightarrow> parse_unsigned 4294967295 part \<noteq> None)"

definition cpuset_ok :: "string \<Rightarrow> unit result" where
  "cpuset_ok list =
     err_when (\<not> (list = '''' \<or> list_all cpuset_part_ok (split_on (CHR '','') list)))
       (invalid ''invalid --cpuset-cpus '{list}': use a list such as 0-1,3'' [S list])"

definition cgroup_ok :: "cgroup_limits \<Rightarrow> u32 \<Rightarrow> unit result" where
  "cgroup_ok limits memory_mb =
     (let memory = unat memory_mb * 1048576;
          memory_i64 = (if memory \<le> 9223372036854775807 then int memory else 0);
          reservation = unat (cg_memory_reservation_bytes limits);
          period = unat (cg_cpu_period limits);
          quota = cg_cpu_quota limits
      in and_then (err_when (cg_memory_swap_bytes limits \<noteq> 0 \<and> cg_memory_swap_bytes limits \<noteq> memory_i64)
                     (invalid ''--memory-swap: the guest has no swap, so only a value equal to --memory (no swap) is accepted'' [])) (\<lambda>_.
         and_then (err_when (reservation \<noteq> 0 \<and> memory \<noteq> 0 \<and> reservation > memory)
                     (invalid ''--memory-reservation ({}) must not exceed --memory ({memory})'' [N reservation, N memory])) (\<lambda>_.
         and_then (err_when (period \<noteq> 0 \<and> \<not> (MIN_CPU_PERIOD \<le> period \<and> period \<le> MAX_CPU_PERIOD))
                     (invalid ''--cpu-period must be 0 or from {MIN_CPU_PERIOD} to {MAX_CPU_PERIOD} microseconds'' [])) (\<lambda>_.
         and_then (err_when ((quota > 0 \<and> quota < MIN_CPU_QUOTA) \<or> quota < UNLIMITED)
                     (invalid ''--cpu-quota must be -1, 0 or at least {MIN_CPU_QUOTA} microseconds'' [])) (\<lambda>_.
         cpuset_ok (cg_cpuset_cpus limits))))))"

definition cpu_weight :: "u32 \<Rightarrow> nat" where
  "cpu_weight shares =
     (let shares = min (max (unat shares) MIN_CPU_SHARES) MAX_CPU_SHARES;
          span = MAX_CPU_SHARES - MIN_CPU_SHARES;
          scaled = (shares - MIN_CPU_SHARES) * (MAX_CPU_WEIGHT - MIN_CPU_WEIGHT) div span
      in MIN_CPU_WEIGHT + scaled)"

definition cpu_max :: "cgroup_limits \<Rightarrow> (string \<times> nat) option" where
  "cpu_max limits =
     (if cg_cpu_quota limits \<le> 0 \<and> cg_cpu_period limits = 0 then None
      else Some (if cg_cpu_quota limits > 0 then int_text (cg_cpu_quota limits) else CPU_MAX_UNLIMITED,
                 if cg_cpu_period limits = 0 then DEFAULT_CPU_PERIOD else unat (cg_cpu_period limits)))"

definition cpu_max_removed :: "string \<times> nat" where
  "cpu_max_removed = (CPU_MAX_UNLIMITED, DEFAULT_CPU_PERIOD)"

record live_settings =
  ls_memory_low_bytes :: "u64 option"
  ls_cpu_weight :: "nat option"
  ls_cpu_max :: "(string \<times> nat) option"
  ls_cpuset_cpus :: "string option"

definition live_settings_of :: "cgroup_update \<Rightarrow> cgroup_limits \<Rightarrow> live_settings" where
  "live_settings_of update merged =
     \<lparr>ls_memory_low_bytes = map_option (\<lambda>_. cg_memory_reservation_bytes merged) (cu_memory_reservation_bytes update),
      ls_cpu_weight = map_option (\<lambda>_. cpu_weight (if cg_cpu_shares merged = 0 then DEFAULT_CPU_SHARES else cg_cpu_shares merged))
        (cu_cpu_shares update),
      ls_cpu_max = (if cu_cpu_quota update \<noteq> None \<or> cu_cpu_period update \<noteq> None
                    then Some (unwrap_or (cpu_max merged) cpu_max_removed) else None),
      ls_cpuset_cpus = map_option (\<lambda>_. cg_cpuset_cpus merged) (cu_cpuset_cpus update)\<rparr>"

definition limits_args :: "ulimit list \<Rightarrow> string list \<Rightarrow> cgroup_limits \<Rightarrow> string list" where
  "limits_args ulimits groups limits =
     concat (map (\<lambda>u. [ULIMIT_ARG, ul_name u, int_text (ul_soft u), int_text (ul_hard u)]) ulimits) @
     concat (map (\<lambda>g. [GROUP_ADD_ARG, g]) groups) @
     (if cg_memory_reservation_bytes limits \<noteq> 0
      then [MEMORY_LOW_ARG, dec (unat (cg_memory_reservation_bytes limits))] else []) @
     (if cg_cpu_shares limits \<noteq> 0 then [CPU_WEIGHT_ARG, dec (cpu_weight (cg_cpu_shares limits))] else []) @
     (case cpu_max limits of Some (quota, period) \<Rightarrow> [CPU_MAX_ARG, quota, dec period] | None \<Rightarrow> []) @
     (if cg_cpuset_cpus limits \<noteq> '''' then [CPUSET_ARG, cg_cpuset_cpus limits] else [])"

section \<open>Tmpfs mounts\<close>

definition MAX_TMPFS_MOUNTS :: nat where "MAX_TMPFS_MOUNTS = 64"
definition MAX_PATH_LEN :: nat where "MAX_PATH_LEN = 4096"
definition RESERVED_ROOTS :: "string list" where "RESERVED_ROOTS = [''/proc'', ''/sys'', ''/dev'']"
definition SHM_PATH :: string where "SHM_PATH = ''/dev/shm''"

definition READ_ONLY_ARG :: string where "READ_ONLY_ARG = ''--read-only''"
definition TMPFS_ARG :: string where "TMPFS_ARG = ''--tmpfs''"
definition SHM_SIZE_ARG :: string where "SHM_SIZE_ARG = ''--shm-size''"

definition TMPFS_FLAG_OPTIONS :: "string list" where
  "TMPFS_FLAG_OPTIONS =
     [''ro'', ''rw'', ''suid'', ''nosuid'', ''dev'', ''nodev'', ''exec'', ''noexec'', ''sync'', ''async'', ''dirsync'', ''atime'',
      ''noatime'', ''diratime'', ''nodiratime'', ''relatime'', ''norelatime'', ''strictatime'', ''nostrictatime'']"

definition TMPFS_DATA_KEYS :: "string list" where
  "TMPFS_DATA_KEYS = [''size'', ''mode'', ''nr_inodes'', ''uid'', ''gid'']"

text \<open>\<open>0o7777\<close>.\<close>

definition MAX_TMPFS_MODE :: nat where "MAX_TMPFS_MODE = 4095"

definition U64_MAX :: nat where "U64_MAX = 18446744073709551615"

definition size_in_bytes :: "string \<Rightarrow> nat option" where
  "size_in_bytes text =
     (if text = [] then None
      else (let (digits, unit) =
                  (if last text \<in> set ''kK'' then (butlast text, 1024)
                   else if last text \<in> set ''mM'' then (butlast text, 1048576)
                   else if last text \<in> set ''gG'' then (butlast text, 1073741824)
                   else (text, 1))
            in if digits = [] \<or> \<not> list_all is_ascii_digit digits then None
               else (case parse_unsigned U64_MAX digits of
                       None \<Rightarrow> None
                     | Some n \<Rightarrow> if n * unit \<le> U64_MAX then Some (n * unit) else None)))"

definition check_tmpfs_data :: "string \<Rightarrow> string \<Rightarrow> message + unit" where
  "check_tmpfs_data key val =
     (if key \<notin> set TMPFS_DATA_KEYS
      then Inl (Msg ''invalid tmpfs option '{key}': use one of {}'' (S key # map S TMPFS_DATA_KEYS))
      else err_when
        (\<not> (if key = ''size'' \<or> key = ''nr_inodes'' then size_in_bytes val \<noteq> None
            else if key = ''mode''
            then (case parse_octal 4294967295 val of Some m \<Rightarrow> m \<le> MAX_TMPFS_MODE | None \<Rightarrow> False)
            else parse_unsigned 4294967295 val \<noteq> None))
        (Msg ''invalid value '{value}' for tmpfs option '{key}' '' [S val, S key]))"

definition check_tmpfs_option :: "string \<Rightarrow> message + unit" where
  "check_tmpfs_option opt =
     (case split_once (CHR ''='') opt of
        Some (key, val) \<Rightarrow> check_tmpfs_data key val
      | None \<Rightarrow> err_when (opt \<notin> set TMPFS_FLAG_OPTIONS) (Msg ''invalid tmpfs option '{option}' '' [S opt]))"

definition nonempty_parts :: "char \<Rightarrow> string \<Rightarrow> string list" where
  "nonempty_parts c s = filter (\<lambda>p. p \<noteq> []) (split_on c s)"

definition check_tmpfs_options :: "string \<Rightarrow> message + unit" where
  "check_tmpfs_options opts = try_each check_tmpfs_option (nonempty_parts (CHR '','') opts)"

definition clean_path :: "string \<Rightarrow> message + string" where
  "clean_path path =
     (if \<not> starts_with path ''/'' \<or> length path > MAX_PATH_LEN \<or> CHR 0x00 \<in> set path
      then Inl (Msg ''mount destination must be an absolute path: {path}'' [S path])
      else (case find (\<lambda>p. p = ''..'' \<or> p = ''.'') (nonempty_parts (CHR ''/'') path) of
              Some part \<Rightarrow> Inl (Msg ''mount destination must not contain '{part}': {path}'' [S part, S path])
            | None \<Rightarrow> Inr (CHR ''/'' # join_with (CHR ''/'') (nonempty_parts (CHR ''/'') path))))"

definition is_reserved :: "string \<Rightarrow> bool" where
  "is_reserved path \<longleftrightarrow>
     path = SHM_PATH \<or> list_ex (\<lambda>root. path = root \<or> starts_with path (root @ ''/'')) RESERVED_ROOTS"

section \<open>The options of a request\<close>

record pb_guest_options =
  pg_read_only_rootfs :: bool
  pg_tmpfs :: "tmpfs_mount list"
  pg_shm_size_bytes :: u64
  pg_extra_hosts :: "string list"
  pg_dns_search :: "string list"
  pg_dns_options :: "string list"
  pg_ulimits :: "ulimit list"
  pg_group_add :: "string list"
  pg_cgroup :: "cgroup_limits option"
  pg_healthcheck :: "healthcheck option"

definition as_invalid :: "message + 'a \<Rightarrow> 'a result" where
  "as_invalid r = (case r of Inl msg \<Rightarrow> Inl (InvalidRequest msg) | Inr a \<Rightarrow> Inr a)"

fun tmpfs_from :: "string list \<Rightarrow> tmpfs_mount list \<Rightarrow> tmpfs_mount list result" where
  "tmpfs_from seen [] = Inr []"
| "tmpfs_from seen (t # ts) =
     and_then (as_invalid (clean_path (tm_path t))) (\<lambda>path.
     and_then (err_when (path = ''/'' \<or> is_reserved path)
                 (invalid ''mount destination {path} is reserved by the guest; /dev/shm is sized with --shm-size'' [S path])) (\<lambda>_.
     and_then (as_invalid (check_tmpfs_options (tm_options t))) (\<lambda>_.
     and_then (err_when (path \<in> set seen) (invalid ''Duplicate mount point: {path}'' [S path])) (\<lambda>_.
     and_then (tmpfs_from (seen @ [path]) ts) (\<lambda>rest.
       Inr (\<lparr>tm_path = path, tm_options = tm_options t\<rparr> # rest))))))"

definition guest_validate :: "pb_guest_options option \<Rightarrow> string list \<Rightarrow> u32 \<Rightarrow> guest_options result" where
  "guest_validate req mount_targets memory_mb =
     (case req of
        None \<Rightarrow> Inr default_guest_options
      | Some g \<Rightarrow>
          and_then (err_when (length (pg_tmpfs g) > MAX_TMPFS_MOUNTS)
                      (invalid ''at most {MAX_TMPFS_MOUNTS} tmpfs mounts are allowed'' [])) (\<lambda>_.
          and_then (collect_results (\<lambda>t. as_invalid (clean_path t)) mount_targets) (\<lambda>seen.
          and_then (tmpfs_from seen (pg_tmpfs g)) (\<lambda>tmpfs.
          and_then (search_domains (pg_dns_search g)) (\<lambda>_.
          and_then (dns_options_ok (pg_dns_options g)) (\<lambda>_.
          let cgroup = unwrap_or (pg_cgroup g) default_cgroup_limits
          in and_then (cgroup_ok cgroup memory_mb) (\<lambda>_.
             and_then (group_add_ok (pg_group_add g)) (\<lambda>_.
             and_then (case pg_healthcheck g of None \<Rightarrow> Inr () | Some h \<Rightarrow> health_validate h) (\<lambda>_.
             and_then (ulimits_ok (pg_ulimits g)) (\<lambda>ulimits.
             and_then (extra_hosts (pg_extra_hosts g)) (\<lambda>hosts.
               Inr \<lparr>go_read_only_rootfs = pg_read_only_rootfs g, go_tmpfs = tmpfs,
                    go_shm_size_bytes = pg_shm_size_bytes g, go_extra_hosts = hosts,
                    go_dns_search = pg_dns_search g, go_dns_options = pg_dns_options g, go_ulimits = ulimits,
                    go_group_add = pg_group_add g, go_cgroup = cgroup, go_healthcheck = pg_healthcheck g\<rparr>)))))))))))"

definition guest_to_pb :: "guest_options \<Rightarrow> pb_guest_options" where
  "guest_to_pb g =
     \<lparr>pg_read_only_rootfs = go_read_only_rootfs g, pg_tmpfs = go_tmpfs g, pg_shm_size_bytes = shm_size g,
      pg_extra_hosts = go_extra_hosts g, pg_dns_search = go_dns_search g, pg_dns_options = go_dns_options g,
      pg_ulimits = go_ulimits g, pg_group_add = go_group_add g, pg_cgroup = Some (go_cgroup g),
      pg_healthcheck = go_healthcheck g\<rparr>"

section \<open>The agent's command line\<close>

definition guest_args :: "guest_options \<Rightarrow> string list" where
  "guest_args g =
     (if go_read_only_rootfs g then [READ_ONLY_ARG] else []) @
     concat (map (\<lambda>t. [TMPFS_ARG, tm_path t, tm_options t]) (go_tmpfs g)) @
     [SHM_SIZE_ARG, dec (unat (shm_size g))] @
     network_args (go_extra_hosts g) (go_dns_search g) (go_dns_options g) @
     limits_args (go_ulimits g) (go_group_add g) (go_cgroup g)"

text \<open>The whole command line the backend boots a sandbox with, \<open>backend/krunvm.rs\<close>.\<close>

definition AGENT_MOUNT_ARG :: string where "AGENT_MOUNT_ARG = ''--mount''"
definition AGENT_PIDS_MAX_ARG :: string where "AGENT_PIDS_MAX_ARG = ''--pids-max''"
definition AGENT_HOSTNAME_ARG :: string where "AGENT_HOSTNAME_ARG = ''--hostname''"
definition MOUNT_MODE_RO :: string where "MOUNT_MODE_RO = ''ro''"
definition MOUNT_MODE_RW :: string where "MOUNT_MODE_RW = ''rw''"

definition mount_tag :: "nat \<Rightarrow> string" where
  "mount_tag idx = ''ward-mnt-'' @ dec idx"

definition mount_args :: "nat \<Rightarrow> mount \<Rightarrow> string list" where
  "mount_args idx mt =
     [AGENT_MOUNT_ARG, mount_tag idx, mnt_target mt, if mnt_readonly mt then MOUNT_MODE_RO else MOUNT_MODE_RW]"

definition exec_args :: "string \<Rightarrow> create_opts \<Rightarrow> string list" where
  "exec_args sid opts =
     concat (map (\<lambda>(idx, mt). mount_args idx mt) (enumerate 0 (co_mounts opts))) @
     (if rl_pids_max (co_resources opts) > 0
      then [AGENT_PIDS_MAX_ARG, dec (unat (rl_pids_max (co_resources opts)))] else []) @
     [AGENT_HOSTNAME_ARG, hostname_for (co_spec opts) sid] @
     guest_args (sp_guest (co_spec opts))"

lemmas host_arg_defs = READ_ONLY_ARG_def TMPFS_ARG_def SHM_SIZE_ARG_def ULIMIT_ARG_def GROUP_ADD_ARG_def MEMORY_LOW_ARG_def CPU_WEIGHT_ARG_def CPU_MAX_ARG_def CPUSET_ARG_def ADD_HOST_ARG_def DNS_SEARCH_ARG_def DNS_OPTION_ARG_def AGENT_HOSTNAME_ARG_def AGENT_PIDS_MAX_ARG_def AGENT_MOUNT_ARG_def

end
