(* ===== verification/Agent.thy ===== *)
theory Agent
  imports Guest
begin

text \<open>
  The guest agent's side of a boot, \<open>ward-agent/src\<close>: the command line (\<open>parse_args\<close> of \<open>lib.rs\<close>) with the
  values of \<open>process_limits.rs\<close>, \<open>cgroup_limits.rs\<close> and \<open>guest_network.rs\<close> it holds, and the tmpfs mounts of
  \<open>guest_mounts.rs\<close>. What the daemon wrote with theory \<open>Guest\<close> is read back here.
\<close>

section \<open>Arguments\<close>

text \<open>The agent has its own copy of each argument name.\<close>

definition GUEST_READ_ONLY_ARG :: string where "GUEST_READ_ONLY_ARG = ''--read-only''"
definition GUEST_TMPFS_ARG :: string where "GUEST_TMPFS_ARG = ''--tmpfs''"
definition GUEST_SHM_SIZE_ARG :: string where "GUEST_SHM_SIZE_ARG = ''--shm-size''"
definition GUEST_ULIMIT_ARG :: string where "GUEST_ULIMIT_ARG = ''--ulimit''"
definition GUEST_GROUP_ADD_ARG :: string where "GUEST_GROUP_ADD_ARG = ''--group-add''"
definition GUEST_MEMORY_LOW_ARG :: string where "GUEST_MEMORY_LOW_ARG = ''--memory-low''"
definition GUEST_CPU_WEIGHT_ARG :: string where "GUEST_CPU_WEIGHT_ARG = ''--cpu-weight''"
definition GUEST_CPU_MAX_ARG :: string where "GUEST_CPU_MAX_ARG = ''--cpu-max''"
definition GUEST_CPUSET_ARG :: string where "GUEST_CPUSET_ARG = ''--cpuset-cpus''"
definition GUEST_ADD_HOST_ARG :: string where "GUEST_ADD_HOST_ARG = ''--add-host''"
definition GUEST_DNS_SEARCH_ARG :: string where "GUEST_DNS_SEARCH_ARG = ''--dns-search''"
definition GUEST_DNS_OPTION_ARG :: string where "GUEST_DNS_OPTION_ARG = ''--dns-option''"
definition GUEST_HOSTNAME_ARG :: string where "GUEST_HOSTNAME_ARG = ''--hostname''"
definition GUEST_PIDS_MAX_ARG :: string where "GUEST_PIDS_MAX_ARG = ''--pids-max''"
definition GUEST_MOUNT_ARG :: string where "GUEST_MOUNT_ARG = ''--mount''"

lemmas guest_arg_defs = GUEST_READ_ONLY_ARG_def GUEST_TMPFS_ARG_def GUEST_SHM_SIZE_ARG_def GUEST_ULIMIT_ARG_def GUEST_GROUP_ADD_ARG_def GUEST_MEMORY_LOW_ARG_def GUEST_CPU_WEIGHT_ARG_def GUEST_CPU_MAX_ARG_def GUEST_CPUSET_ARG_def GUEST_ADD_HOST_ARG_def GUEST_DNS_SEARCH_ARG_def GUEST_DNS_OPTION_ARG_def GUEST_HOSTNAME_ARG_def GUEST_PIDS_MAX_ARG_def GUEST_MOUNT_ARG_def

record guest_tmpfs =
  gt_target :: string
  gt_options :: string

record guest_host =
  gh_name :: string
  gh_address :: string

record guest_ulimit =
  gu_name :: string
  gu_soft :: "nat option"
  gu_hard :: "nat option"

record cgroup_settings =
  cs_memory_low :: "nat option"
  cs_cpu_weight :: "nat option"
  cs_cpu_max :: "(string \<times> nat) option"
  cs_cpuset_cpus :: "string option"

record guest_mount =
  gm_tag :: string
  gm_target :: string
  gm_read_only :: bool

record agent_args =
  aa_read_only :: bool
  aa_tmpfs :: "guest_tmpfs list"
  aa_shm_size :: "nat option"
  aa_hosts :: "guest_host list"
  aa_dns_search :: "string list"
  aa_dns_options :: "string list"
  aa_ulimits :: "guest_ulimit list"
  aa_group_add :: "string list"
  aa_cgroup :: cgroup_settings
  aa_hostname :: "string option"
  aa_mounts :: "guest_mount list"
  aa_pids_max :: "nat option"

definition no_settings :: cgroup_settings where
  "no_settings = \<lparr>cs_memory_low = None, cs_cpu_weight = None, cs_cpu_max = None, cs_cpuset_cpus = None\<rparr>"

definition default_args :: agent_args where
  "default_args =
     \<lparr>aa_read_only = False, aa_tmpfs = [], aa_shm_size = None, aa_hosts = [], aa_dns_search = [], aa_dns_options = [],
      aa_ulimits = [], aa_group_add = [], aa_cgroup = no_settings, aa_hostname = None, aa_mounts = [],
      aa_pids_max = None\<rparr>"

text \<open>The limits \<open>resource_of\<close> knows.\<close>

definition resource_known :: "string \<Rightarrow> bool" where
  "resource_known name \<longleftrightarrow>
     name \<in> {''core'', ''cpu'', ''data'', ''fsize'', ''locks'', ''memlock'', ''msgqueue'', ''nice'', ''nofile'', ''nproc'',
       ''rss'', ''rtprio'', ''rttime'', ''sigpending'', ''stack''}"

definition ulimit_value :: "string \<Rightarrow> string \<Rightarrow> message + nat option" where
  "ulimit_value name text =
     (case parse_i64 text of
        None \<Rightarrow> Inl (Msg ''ulimit {name}: {text} is not a number'' [S name, S text])
      | Some n \<Rightarrow>
          if n = -1 then Inr None
          else if n \<ge> 0 then Inr (Some (nat n))
          else Inl (Msg ''ulimit {name}: {text} is below -1'' [S name, S text]))"

definition ulimit_parse :: "string \<Rightarrow> string \<Rightarrow> string \<Rightarrow> message + guest_ulimit" where
  "ulimit_parse name soft hard =
     (if \<not> resource_known name then Inl (Msg ''unknown ulimit {name}'' [S name])
      else and_then (ulimit_value name soft) (\<lambda>s.
           and_then (ulimit_value name hard) (\<lambda>h.
             Inr \<lparr>gu_name = name, gu_soft = s, gu_hard = h\<rparr>)))"

definition parse_number :: "string \<Rightarrow> string \<Rightarrow> message + nat" where
  "parse_number flag val =
     (case parse_unsigned U64_MAX val of
        None \<Rightarrow> Inl (Msg ''{flag} must be a number, got {value}'' [S flag, S val])
      | Some n \<Rightarrow> Inr n)"

text \<open>\<open>args.next().ok_or(..)\<close>.\<close>

definition next_arg :: "string \<Rightarrow> string list \<Rightarrow> message + string \<times> string list" where
  "next_arg why args = (case args of [] \<Rightarrow> Inl (Msg why []) | a # rest \<Rightarrow> Inr (a, rest))"

definition set_cgroup :: "(cgroup_settings \<Rightarrow> cgroup_settings) \<Rightarrow> agent_args \<Rightarrow> agent_args" where
  "set_cgroup f p = p\<lparr>aa_cgroup := f (aa_cgroup p)\<rparr>"

text \<open>One turn of the loop: the argument, and the words after it.\<close>

definition parse_arg :: "agent_args \<Rightarrow> string \<Rightarrow> string list \<Rightarrow> message + agent_args \<times> string list" where
  "parse_arg p arg args =
     (if arg = GUEST_READ_ONLY_ARG then Inr (p\<lparr>aa_read_only := True\<rparr>, args)
      else if arg = GUEST_TMPFS_ARG then
        and_then (next_arg ''--tmpfs needs <path> <options>'' args) (\<lambda>(target, args).
        and_then (next_arg ''--tmpfs needs <path> <options>'' args) (\<lambda>(opts, args).
          Inr (p\<lparr>aa_tmpfs := aa_tmpfs p @ [\<lparr>gt_target = target, gt_options = opts\<rparr>]\<rparr>, args)))
      else if arg = GUEST_SHM_SIZE_ARG then
        and_then (next_arg ''--shm-size needs <bytes>'' args) (\<lambda>(val, args).
          case parse_unsigned U64_MAX val of
            None \<Rightarrow> Inl (Msg ''--shm-size must be a number of bytes, got {value}'' [S val])
          | Some n \<Rightarrow> Inr (p\<lparr>aa_shm_size := Some n\<rparr>, args))
      else if arg = GUEST_ULIMIT_ARG then
        (case args of
           name # soft # hard # args \<Rightarrow>
             and_then (ulimit_parse name soft hard) (\<lambda>u. Inr (p\<lparr>aa_ulimits := aa_ulimits p @ [u]\<rparr>, args))
         | _ \<Rightarrow> Inl (Msg ''--ulimit needs <name> <soft> <hard>'' []))
      else if arg = GUEST_GROUP_ADD_ARG then
        and_then (next_arg ''--group-add needs <name|gid>'' args) (\<lambda>(g, args).
          Inr (p\<lparr>aa_group_add := aa_group_add p @ [g]\<rparr>, args))
      else if arg = GUEST_MEMORY_LOW_ARG then
        and_then (next_arg ''--memory-low needs <bytes>'' args) (\<lambda>(val, args).
        and_then (parse_number arg val) (\<lambda>n. Inr (set_cgroup (cs_memory_low_update (\<lambda>_. Some n)) p, args)))
      else if arg = GUEST_CPU_WEIGHT_ARG then
        and_then (next_arg ''--cpu-weight needs <weight>'' args) (\<lambda>(val, args).
        and_then (parse_number arg val) (\<lambda>n. Inr (set_cgroup (cs_cpu_weight_update (\<lambda>_. Some n)) p, args)))
      else if arg = GUEST_CPU_MAX_ARG then
        (case args of
           quota # period # args \<Rightarrow>
             and_then (parse_number arg period) (\<lambda>n.
               Inr (set_cgroup (cs_cpu_max_update (\<lambda>_. Some (quota, n))) p, args))
         | _ \<Rightarrow> Inl (Msg ''--cpu-max needs <quota|max> <period>'' []))
      else if arg = GUEST_CPUSET_ARG then
        and_then (next_arg ''--cpuset-cpus needs <list>'' args) (\<lambda>(cpus, args).
          Inr (set_cgroup (cs_cpuset_cpus_update (\<lambda>_. Some cpus)) p, args))
      else if arg = GUEST_ADD_HOST_ARG then
        and_then (next_arg ''--add-host needs <name> <ip>'' args) (\<lambda>(name, args).
        and_then (next_arg ''--add-host needs <name> <ip>'' args) (\<lambda>(address, args).
          Inr (p\<lparr>aa_hosts := aa_hosts p @ [\<lparr>gh_name = name, gh_address = address\<rparr>]\<rparr>, args)))
      else if arg = GUEST_DNS_SEARCH_ARG then
        and_then (next_arg ''--dns-search needs <domain>'' args) (\<lambda>(d, args).
          Inr (p\<lparr>aa_dns_search := aa_dns_search p @ [d]\<rparr>, args))
      else if arg = GUEST_DNS_OPTION_ARG then
        and_then (next_arg ''--dns-option needs <option>'' args) (\<lambda>(opt, args).
          Inr (p\<lparr>aa_dns_options := aa_dns_options p @ [opt]\<rparr>, args))
      else if arg = GUEST_HOSTNAME_ARG then
        and_then (next_arg ''--hostname needs <name>'' args) (\<lambda>(name, args).
          if name = [] then Inl (Msg ''hostname must not be empty'' [])
          else Inr (p\<lparr>aa_hostname := Some name\<rparr>, args))
      else if arg = GUEST_PIDS_MAX_ARG then
        and_then (next_arg ''--pids-max needs <n>'' args) (\<lambda>(val, args).
          case parse_unsigned 4294967295 val of
            Some n \<Rightarrow> if n > 0 then Inr (p\<lparr>aa_pids_max := Some n\<rparr>, args)
                      else Inl (Msg ''pids max must be a positive number, got {value}'' [S val])
          | None \<Rightarrow> Inl (Msg ''pids max must be a positive number, got {value}'' [S val]))
      else if arg \<noteq> GUEST_MOUNT_ARG then Inl (Msg ''unknown argument {arg}'' [S arg])
      else (case args of
              tag # target # mode # args \<Rightarrow>
                if mode = ''ro'' \<or> mode = ''rw''
                then Inr (p\<lparr>aa_mounts := aa_mounts p @
                       [\<lparr>gm_tag = tag, gm_target = target, gm_read_only = (mode = ''ro'')\<rparr>]\<rparr>, args)
                else Inl (Msg ''mount mode must be ro or rw, got {other}'' [S mode])
            | _ \<Rightarrow> Inl (Msg ''--mount needs <tag> <target> <ro|rw>'' [])))"

lemma next_arg_length: "next_arg why args = Inr (a, rest) \<Longrightarrow> length rest < length args"
  by (auto simp: next_arg_def split: list.splits)

lemma next_arg_Cons [simp]: "next_arg why (a # args) = Inr (a, args)"
  by (simp add: next_arg_def)

lemma parse_arg_length: "parse_arg p arg args = Inr (p', rest) \<Longrightarrow> length rest \<le> length args"
  unfolding parse_arg_def
  by (auto split: if_splits list.splits option.splits prod.splits dest!: next_arg_length)

function parse_from :: "agent_args \<Rightarrow> string list \<Rightarrow> message + agent_args" where
  "parse_from p [] = Inr p"
| "parse_from p (arg # args) =
     (case parse_arg p arg args of Inl err \<Rightarrow> Inl err | Inr (p', rest) \<Rightarrow> parse_from p' rest)"
  by pat_completeness auto

termination
  by (relation "measure (length \<circ> snd)") (auto dest: parse_arg_length)

definition parse_args :: "string list \<Rightarrow> message + agent_args" where
  "parse_args args = parse_from default_args args"

section \<open>What the daemon asked for is what the agent reads\<close>

text \<open>The host's argument names and the agent's are the same words.\<close>

lemma same_args:
  "READ_ONLY_ARG = GUEST_READ_ONLY_ARG" "TMPFS_ARG = GUEST_TMPFS_ARG" "SHM_SIZE_ARG = GUEST_SHM_SIZE_ARG"
  "ULIMIT_ARG = GUEST_ULIMIT_ARG" "GROUP_ADD_ARG = GUEST_GROUP_ADD_ARG" "MEMORY_LOW_ARG = GUEST_MEMORY_LOW_ARG"
  "CPU_WEIGHT_ARG = GUEST_CPU_WEIGHT_ARG" "CPU_MAX_ARG = GUEST_CPU_MAX_ARG" "CPUSET_ARG = GUEST_CPUSET_ARG"
  "ADD_HOST_ARG = GUEST_ADD_HOST_ARG" "DNS_SEARCH_ARG = GUEST_DNS_SEARCH_ARG" "DNS_OPTION_ARG = GUEST_DNS_OPTION_ARG"
  "AGENT_HOSTNAME_ARG = GUEST_HOSTNAME_ARG" "AGENT_PIDS_MAX_ARG = GUEST_PIDS_MAX_ARG" "AGENT_MOUNT_ARG = GUEST_MOUNT_ARG"
  by (simp_all add: host_arg_defs guest_arg_defs)

text \<open>One turn per kind of argument.\<close>

lemma parse_turns:
  "parse_from p (GUEST_READ_ONLY_ARG # r) = parse_from (p\<lparr>aa_read_only := True\<rparr>) r"
  "parse_from p (GUEST_TMPFS_ARG # a # b # r) = parse_from (p\<lparr>aa_tmpfs := aa_tmpfs p @ [\<lparr>gt_target = a, gt_options = b\<rparr>]\<rparr>) r"
  "n \<le> U64_MAX \<Longrightarrow> parse_from p (GUEST_SHM_SIZE_ARG # dec n # r) = parse_from (p\<lparr>aa_shm_size := Some n\<rparr>) r"
  "ulimit_parse a b c = Inr u \<Longrightarrow>
     parse_from p (GUEST_ULIMIT_ARG # a # b # c # r) = parse_from (p\<lparr>aa_ulimits := aa_ulimits p @ [u]\<rparr>) r"
  "parse_from p (GUEST_GROUP_ADD_ARG # a # r) = parse_from (p\<lparr>aa_group_add := aa_group_add p @ [a]\<rparr>) r"
  "n \<le> U64_MAX \<Longrightarrow> parse_from p (GUEST_MEMORY_LOW_ARG # dec n # r) = parse_from (set_cgroup (cs_memory_low_update (\<lambda>_. Some n)) p) r"
  "n \<le> U64_MAX \<Longrightarrow> parse_from p (GUEST_CPU_WEIGHT_ARG # dec n # r) = parse_from (set_cgroup (cs_cpu_weight_update (\<lambda>_. Some n)) p) r"
  "n \<le> U64_MAX \<Longrightarrow> parse_from p (GUEST_CPU_MAX_ARG # a # dec n # r) = parse_from (set_cgroup (cs_cpu_max_update (\<lambda>_. Some (a, n))) p) r"
  "parse_from p (GUEST_CPUSET_ARG # a # r) = parse_from (set_cgroup (cs_cpuset_cpus_update (\<lambda>_. Some a)) p) r"
  "parse_from p (GUEST_ADD_HOST_ARG # a # b # r) = parse_from (p\<lparr>aa_hosts := aa_hosts p @ [\<lparr>gh_name = a, gh_address = b\<rparr>]\<rparr>) r"
  "parse_from p (GUEST_DNS_SEARCH_ARG # a # r) = parse_from (p\<lparr>aa_dns_search := aa_dns_search p @ [a]\<rparr>) r"
  "parse_from p (GUEST_DNS_OPTION_ARG # a # r) = parse_from (p\<lparr>aa_dns_options := aa_dns_options p @ [a]\<rparr>) r"
  "a \<noteq> [] \<Longrightarrow> parse_from p (GUEST_HOSTNAME_ARG # a # r) = parse_from (p\<lparr>aa_hostname := Some a\<rparr>) r"
  "0 < n \<Longrightarrow> n \<le> 4294967295 \<Longrightarrow> parse_from p (GUEST_PIDS_MAX_ARG # dec n # r) = parse_from (p\<lparr>aa_pids_max := Some n\<rparr>) r"
  "mode = ''ro'' \<or> mode = ''rw'' \<Longrightarrow> parse_from p (GUEST_MOUNT_ARG # a # b # mode # r) =
     parse_from (p\<lparr>aa_mounts := aa_mounts p @ [\<lparr>gm_tag = a, gm_target = b, gm_read_only = (mode = ''ro'')\<rparr>]\<rparr>) r"
  by (simp_all add: parse_arg_def guest_arg_defs parse_number_def)

declare parse_from.simps(2) [simp del]

text \<open>What a stored set of options asks of the agent.\<close>

definition limit_value :: "int \<Rightarrow> nat option" where
  "limit_value n = (if n = UNLIMITED then None else Some (nat n))"

definition asked_host :: "string \<Rightarrow> guest_host list" where
  "asked_host entry =
     (case split_once (CHR '':'') entry of
        Some (name, address) \<Rightarrow> [\<lparr>gh_name = name, gh_address = address\<rparr>] | None \<Rightarrow> [])"

definition asked_ulimit :: "ulimit \<Rightarrow> guest_ulimit" where
  "asked_ulimit u = \<lparr>gu_name = ul_name u, gu_soft = limit_value (ul_soft u), gu_hard = limit_value (ul_hard u)\<rparr>"

definition asked_settings :: "cgroup_limits \<Rightarrow> cgroup_settings" where
  "asked_settings c =
     \<lparr>cs_memory_low = (if cg_memory_reservation_bytes c = 0 then None else Some (unat (cg_memory_reservation_bytes c))),
      cs_cpu_weight = (if cg_cpu_shares c = 0 then None else Some (cpu_weight (cg_cpu_shares c))),
      cs_cpu_max = cpu_max c,
      cs_cpuset_cpus = (if cg_cpuset_cpus c = [] then None else Some (cg_cpuset_cpus c))\<rparr>"

definition asked_mount :: "nat \<times> mount \<Rightarrow> guest_mount" where
  "asked_mount = (\<lambda>(idx, mt). \<lparr>gm_tag = mount_tag idx, gm_target = mnt_target mt, gm_read_only = mnt_readonly mt\<rparr>)"

definition asked :: "string \<Rightarrow> create_opts \<Rightarrow> agent_args" where
  "asked sid opts =
     (let g = sp_guest (co_spec opts); pids = rl_pids_max (co_resources opts)
      in \<lparr>aa_read_only = go_read_only_rootfs g,
          aa_tmpfs = map (\<lambda>t. \<lparr>gt_target = tm_path t, gt_options = tm_options t\<rparr>) (go_tmpfs g),
          aa_shm_size = Some (unat (shm_size g)),
          aa_hosts = concat (map asked_host (go_extra_hosts g)),
          aa_dns_search = go_dns_search g, aa_dns_options = go_dns_options g,
          aa_ulimits = map asked_ulimit (go_ulimits g), aa_group_add = go_group_add g,
          aa_cgroup = asked_settings (go_cgroup g),
          aa_hostname = Some (hostname_for (co_spec opts) sid),
          aa_mounts = map asked_mount (enumerate 0 (co_mounts opts)),
          aa_pids_max = (if pids = 0 then None else Some (unat pids))\<rparr>)"

text \<open>A repeated argument is read one turn at a time.\<close>

lemma parse_mounts:
  "parse_from p (concat (map (\<lambda>(idx, mt). mount_args idx mt) ms) @ r) =
     parse_from (p\<lparr>aa_mounts := aa_mounts p @ map asked_mount ms\<rparr>) r"
  by (induction ms arbitrary: p)
     (auto simp: mount_args_def same_args parse_turns asked_mount_def MOUNT_MODE_RO_def MOUNT_MODE_RW_def)

lemma parse_tmpfs:
  "parse_from p (concat (map (\<lambda>t. [TMPFS_ARG, tm_path t, tm_options t]) ts) @ r) =
     parse_from (p\<lparr>aa_tmpfs := aa_tmpfs p @ map (\<lambda>t. \<lparr>gt_target = tm_path t, gt_options = tm_options t\<rparr>) ts\<rparr>) r"
  by (induction ts arbitrary: p) (simp_all add: same_args parse_turns)

lemma parse_search:
  "parse_from p (concat (map (\<lambda>d. [DNS_SEARCH_ARG, d]) ds) @ r) =
     parse_from (p\<lparr>aa_dns_search := aa_dns_search p @ ds\<rparr>) r"
  by (induction ds arbitrary: p) (simp_all add: same_args parse_turns)

lemma parse_dns_options:
  "parse_from p (concat (map (\<lambda>d. [DNS_OPTION_ARG, d]) ds) @ r) =
     parse_from (p\<lparr>aa_dns_options := aa_dns_options p @ ds\<rparr>) r"
  by (induction ds arbitrary: p) (simp_all add: same_args parse_turns)

lemma parse_groups:
  "parse_from p (concat (map (\<lambda>d. [GROUP_ADD_ARG, d]) ds) @ r) =
     parse_from (p\<lparr>aa_group_add := aa_group_add p @ ds\<rparr>) r"
  by (induction ds arbitrary: p) (simp_all add: same_args parse_turns)

lemma parse_hosts:
  "parse_from p (concat (map (\<lambda>entry. case split_once (CHR '':'') entry of
        Some (name, address) \<Rightarrow> [ADD_HOST_ARG, name, address] | None \<Rightarrow> []) hs) @ r) =
     parse_from (p\<lparr>aa_hosts := aa_hosts p @ concat (map asked_host hs)\<rparr>) r"
  by (induction hs arbitrary: p) (auto simp: same_args parse_turns asked_host_def split: option.splits)

text \<open>A limit the host accepts is one the agent can set: the same names, and a value of at least \<open>-1\<close>.\<close>

definition ulimit_ok :: "ulimit \<Rightarrow> bool" where
  "ulimit_ok u \<longleftrightarrow> ul_name u \<in> set ULIMIT_NAMES \<and>
     ul_soft u \<in> {-1..9223372036854775807} \<and> ul_hard u \<in> {-1..9223372036854775807}"

lemma ulimit_value_text: "n \<in> {-1..9223372036854775807} \<Longrightarrow> ulimit_value name (int_text n) = Inr (limit_value n)"
  by (auto simp: ulimit_value_def parse_int_text limit_value_def UNLIMITED_def)

lemma ulimit_parse_text:
  "ulimit_ok u \<Longrightarrow> ulimit_parse (ul_name u) (int_text (ul_soft u)) (int_text (ul_hard u)) = Inr (asked_ulimit u)"
  by (auto simp: ulimit_ok_def ulimit_parse_def ulimit_value_text asked_ulimit_def resource_known_def ULIMIT_NAMES_def)

lemma parse_ulimits:
  "list_all ulimit_ok us \<Longrightarrow>
     parse_from p (concat (map (\<lambda>u. [ULIMIT_ARG, ul_name u, int_text (ul_soft u), int_text (ul_hard u)]) us) @ r) =
     parse_from (p\<lparr>aa_ulimits := aa_ulimits p @ map asked_ulimit us\<rparr>) r"
  by (induction us arbitrary: p) (simp_all add: same_args parse_turns(4) ulimit_parse_text)

lemma cpu_weight_bounds: "MIN_CPU_WEIGHT \<le> cpu_weight shares" "cpu_weight shares \<le> MAX_CPU_WEIGHT"
proof -
  have "(min (max n 2) 262144 - 2) * 9999 div 262142 \<le> 9999" for n :: nat
    using div_le_mono [of "(min (max n 2) 262144 - 2) * 9999" "262142 * 9999" 262142] by simp
  then show "cpu_weight shares \<le> MAX_CPU_WEIGHT"
    by (simp add: cpu_weight_def Let_def MIN_CPU_WEIGHT_def MAX_CPU_WEIGHT_def MIN_CPU_SHARES_def MAX_CPU_SHARES_def)
qed (simp add: cpu_weight_def Let_def)

lemma unat_u64: "unat (w :: u64) \<le> U64_MAX"
proof -
  have "unat w < 2 ^ LENGTH(64)" by (rule unsigned_less)
  then show ?thesis by (simp add: U64_MAX_def)
qed

lemma unat_u32: "unat (w :: u32) \<le> 4294967295"
proof -
  have "unat w < 2 ^ LENGTH(32)" by (rule unsigned_less)
  then show ?thesis by simp
qed

lemma cpu_max_period: "cpu_max c = Some (quota, period) \<Longrightarrow> period \<le> U64_MAX"
  using unat_u64 [of "cg_cpu_period c"] by (auto simp: cpu_max_def DEFAULT_CPU_PERIOD_def U64_MAX_def split: if_splits)

lemma parse_settings:
  assumes "aa_cgroup p = no_settings"
  shows "parse_from p
     ((if cg_memory_reservation_bytes c \<noteq> 0 then [MEMORY_LOW_ARG, dec (unat (cg_memory_reservation_bytes c))] else []) @
      (if cg_cpu_shares c \<noteq> 0 then [CPU_WEIGHT_ARG, dec (cpu_weight (cg_cpu_shares c))] else []) @
      (case cpu_max c of Some (quota, period) \<Rightarrow> [CPU_MAX_ARG, quota, dec period] | None \<Rightarrow> []) @
      (if cg_cpuset_cpus c \<noteq> [] then [CPUSET_ARG, cg_cpuset_cpus c] else [])) =
     Inr (p\<lparr>aa_cgroup := asked_settings c\<rparr>)"
proof -
  have w: "cpu_weight (cg_cpu_shares c) \<le> U64_MAX"
    using cpu_weight_bounds(2) [of "cg_cpu_shares c"] by (simp add: MAX_CPU_WEIGHT_def U64_MAX_def)
  show ?thesis
    using assms w unat_u64
    by (cases "cpu_max c")
       (auto simp: same_args parse_turns set_cgroup_def asked_settings_def no_settings_def cpu_max_period)
qed

lemma parse_single:
  "parse_from p ((if b then [READ_ONLY_ARG] else []) @ r) = parse_from (p\<lparr>aa_read_only := b \<or> aa_read_only p\<rparr>) r"
  "parse_from p ([SHM_SIZE_ARG, dec (unat (w :: u64))] @ r) = parse_from (p\<lparr>aa_shm_size := Some (unat w)\<rparr>) r"
  "parse_from p ((if n > 0 then [AGENT_PIDS_MAX_ARG, dec (unat (n :: u32))] else []) @ r) =
     parse_from (p\<lparr>aa_pids_max := (if n = 0 then aa_pids_max p else Some (unat n))\<rparr>) r"
  "h \<noteq> [] \<Longrightarrow> parse_from p ([AGENT_HOSTNAME_ARG, h] @ r) = parse_from (p\<lparr>aa_hostname := Some h\<rparr>) r"
  using unat_u64 unat_u32 by (simp_all add: same_args parse_turns word_gt_0 unat_gt_0)

lemmas parse_pieces =
  parse_mounts parse_tmpfs parse_search parse_dns_options parse_groups parse_hosts parse_ulimits parse_single

lemma parse_boot:
  assumes "list_all ulimit_ok (go_ulimits (sp_guest (co_spec opts)))" and "hostname_for (co_spec opts) sid \<noteq> []"
  shows "parse_args (exec_args sid opts) = Inr (asked sid opts)"
proof -
  have "parse_args (exec_args sid opts) = Inr (default_args
      \<lparr>aa_mounts := aa_mounts (asked sid opts), aa_pids_max := aa_pids_max (asked sid opts),
       aa_hostname := aa_hostname (asked sid opts), aa_read_only := aa_read_only (asked sid opts),
       aa_tmpfs := aa_tmpfs (asked sid opts), aa_shm_size := aa_shm_size (asked sid opts),
       aa_hosts := aa_hosts (asked sid opts), aa_dns_search := aa_dns_search (asked sid opts),
       aa_dns_options := aa_dns_options (asked sid opts), aa_ulimits := aa_ulimits (asked sid opts),
       aa_group_add := aa_group_add (asked sid opts), aa_cgroup := aa_cgroup (asked sid opts)\<rparr>)"
    unfolding parse_args_def exec_args_def guest_args_def network_args_def limits_args_def append_assoc
      parse_pieces(1-6) parse_single(1-3) parse_single(4) [OF assms(2)] parse_ulimits [OF assms(1)]
    by (subst parse_settings) (simp_all add: asked_def Let_def default_args_def)
  then show ?thesis by (simp add: default_args_def)
qed

section \<open>Tmpfs plans\<close>

record tmpfs_plan =
  tp_read_only :: bool
  tp_nosuid :: bool
  tp_nodev :: bool
  tp_noexec :: bool
  tp_sync :: bool
  tp_dirsync :: bool
  tp_noatime :: bool
  tp_nodiratime :: bool
  tp_strictatime :: bool
  tp_data :: string

definition default_plan :: tmpfs_plan where
  "default_plan =
     \<lparr>tp_read_only = False, tp_nosuid = True, tp_nodev = True, tp_noexec = True, tp_sync = False, tp_dirsync = False,
      tp_noatime = False, tp_nodiratime = False, tp_strictatime = False, tp_data = []\<rparr>"

definition DATA_KEYS :: "string list" where
  "DATA_KEYS = [''size'', ''mode'', ''nr_inodes'', ''uid'', ''gid'']"

definition plan_option :: "tmpfs_plan \<times> string list \<Rightarrow> string \<Rightarrow> message + tmpfs_plan \<times> string list" where
  "plan_option = (\<lambda>(plan, data) opt.
     if opt = ''ro'' then Inr (plan\<lparr>tp_read_only := True\<rparr>, data)
     else if opt = ''rw'' then Inr (plan\<lparr>tp_read_only := False\<rparr>, data)
     else if opt = ''suid'' then Inr (plan\<lparr>tp_nosuid := False\<rparr>, data)
     else if opt = ''nosuid'' then Inr (plan\<lparr>tp_nosuid := True\<rparr>, data)
     else if opt = ''dev'' then Inr (plan\<lparr>tp_nodev := False\<rparr>, data)
     else if opt = ''nodev'' then Inr (plan\<lparr>tp_nodev := True\<rparr>, data)
     else if opt = ''exec'' then Inr (plan\<lparr>tp_noexec := False\<rparr>, data)
     else if opt = ''noexec'' then Inr (plan\<lparr>tp_noexec := True\<rparr>, data)
     else if opt = ''sync'' then Inr (plan\<lparr>tp_sync := True\<rparr>, data)
     else if opt = ''async'' then Inr (plan\<lparr>tp_sync := False\<rparr>, data)
     else if opt = ''dirsync'' then Inr (plan\<lparr>tp_dirsync := True\<rparr>, data)
     else if opt = ''atime'' then Inr (plan\<lparr>tp_noatime := False\<rparr>, data)
     else if opt = ''noatime'' then Inr (plan\<lparr>tp_noatime := True\<rparr>, data)
     else if opt = ''diratime'' then Inr (plan\<lparr>tp_nodiratime := False\<rparr>, data)
     else if opt = ''nodiratime'' then Inr (plan\<lparr>tp_nodiratime := True\<rparr>, data)
     else if opt = ''strictatime'' then Inr (plan\<lparr>tp_strictatime := True\<rparr>, data)
     else if opt \<in> {''relatime'', ''norelatime'', ''nostrictatime''} then Inr (plan, data)
     else (case split_once (CHR ''='') opt of
             Some (key, _) \<Rightarrow>
               if key \<in> set DATA_KEYS then Inr (plan, data @ [opt])
               else Inl (Msg ''unknown tmpfs option '{other}' '' [S opt])
           | None \<Rightarrow> Inl (Msg ''unknown tmpfs option '{other}' '' [S opt])))"

fun plan_options :: "tmpfs_plan \<times> string list \<Rightarrow> string list \<Rightarrow> message + tmpfs_plan \<times> string list" where
  "plan_options acc [] = Inr acc"
| "plan_options acc (opt # opts) = and_then (plan_option acc opt) (\<lambda>acc'. plan_options acc' opts)"

definition plan_parse :: "string \<Rightarrow> message + tmpfs_plan" where
  "plan_parse opts =
     and_then (plan_options (default_plan, []) (nonempty_parts (CHR '','') opts)) (\<lambda>(plan, data).
       Inr (plan\<lparr>tp_data := join_with (CHR '','') data\<rparr>))"

definition GUEST_SHM_PATH :: string where "GUEST_SHM_PATH = ''/dev/shm''"
definition SHM_MODE :: string where "SHM_MODE = ''1777''"
definition WRITABLE_DIRS :: "string list" where "WRITABLE_DIRS = [''/tmp'', ''/run'']"
definition WRITABLE_DIR_MODE :: string where "WRITABLE_DIR_MODE = ''1777''"

definition implicit_writable_dirs :: "string list \<Rightarrow> string list" where
  "implicit_writable_dirs taken = filter (\<lambda>dir. dir \<notin> set taken) WRITABLE_DIRS"

definition shm_plan :: "nat \<Rightarrow> tmpfs_plan" where
  "shm_plan bytes = default_plan\<lparr>tp_data := ''size='' @ dec bytes @ '',mode='' @ SHM_MODE\<rparr>"

definition writable_plan :: tmpfs_plan where
  "writable_plan = default_plan\<lparr>tp_noexec := False, tp_data := ''mode='' @ WRITABLE_DIR_MODE\<rparr>"

text \<open>
  The mounts \<open>mount_tmpfs_all\<close> asks the kernel for, in order. \<open>refuse\<close> says which of them it refuses;
  the first refusal ends the setup, and so does an option the agent cannot read.
\<close>

definition mount_tmpfs ::
  "(string \<Rightarrow> tmpfs_plan \<Rightarrow> message option) \<Rightarrow> string \<Rightarrow> tmpfs_plan \<Rightarrow> (string \<times> tmpfs_plan) list \<Rightarrow> message + (string \<times> tmpfs_plan) list" where
  "mount_tmpfs refuse target plan mounted =
     (if CHR 0x00 \<in> set (tp_data plan) then Inl (Msg ''nul byte found in provided data'' [])
      else (case refuse target plan of Some err \<Rightarrow> Inl err | None \<Rightarrow> Inr (mounted @ [(target, plan)])))"

fun mount_requested where
  "mount_requested refuse [] mounted = Inr mounted"
| "mount_requested refuse (t # ts) mounted =
     and_then (plan_parse (gt_options t)) (\<lambda>plan.
     and_then (mount_tmpfs refuse (gt_target t) plan mounted) (\<lambda>mounted'.
       mount_requested refuse ts mounted'))"

fun mount_writable where
  "mount_writable refuse [] mounted = Inr mounted"
| "mount_writable refuse (dir # dirs) mounted =
     and_then (mount_tmpfs refuse dir writable_plan mounted)
       (\<lambda>mounted'. mount_writable refuse dirs mounted')"

definition mount_tmpfs_all ::
  "(string \<Rightarrow> tmpfs_plan \<Rightarrow> message option) \<Rightarrow> guest_tmpfs list \<Rightarrow> nat option \<Rightarrow> bool \<Rightarrow> string list \<Rightarrow>
   message + (string \<times> tmpfs_plan) list" where
  "mount_tmpfs_all refuse tmpfs shm read_only bind_targets =
     and_then (mount_requested refuse tmpfs []) (\<lambda>mounted.
     and_then (case shm of
                 None \<Rightarrow> Inr mounted
               | Some bytes \<Rightarrow> mount_tmpfs refuse GUEST_SHM_PATH (shm_plan bytes) mounted) (\<lambda>mounted.
     if read_only then mount_writable refuse (implicit_writable_dirs (map gt_target tmpfs @ bind_targets)) mounted
     else Inr mounted))"

text \<open>Every option the host accepts is one the agent knows.\<close>

lemma plan_option_total: "check_tmpfs_option opt = Inr () \<Longrightarrow> \<exists>acc'. plan_option acc opt = Inr acc'"
  by (cases acc)
     (auto simp: check_tmpfs_option_def check_tmpfs_data_def plan_option_def TMPFS_FLAG_OPTIONS_def TMPFS_DATA_KEYS_def
       DATA_KEYS_def split: option.splits prod.splits)

lemma plan_options_total: "\<forall>opt \<in> set opts. check_tmpfs_option opt = Inr () \<Longrightarrow> \<exists>acc'. plan_options acc opts = Inr acc'"
proof (induction opts arbitrary: acc)
  case (Cons opt opts)
  then obtain acc' where "plan_option acc opt = Inr acc'" using plan_option_total [of opt acc] by auto
  with Cons show ?case by simp
qed simp

lemma plan_parse_total: "check_tmpfs_options opts = Inr () \<Longrightarrow> \<exists>plan. plan_parse opts = Inr plan"
  using plan_options_total [of "nonempty_parts (CHR '','') opts" "(default_plan, [])"]
  by (auto simp: check_tmpfs_options_def plan_parse_def)

section \<open>A validated request can be set up\<close>

lemma tmpfs_from_ok:
  "tmpfs_from seen ts = Inr ts' \<Longrightarrow>
     list_all2 (\<lambda>t t'. clean_path (tm_path t) = Inr (tm_path t') \<and> tm_options t' = tm_options t) ts ts' \<and>
     list_all (\<lambda>t. tm_path t \<noteq> ''/'' \<and> \<not> is_reserved (tm_path t) \<and> check_tmpfs_options (tm_options t) = Inr ()) ts' \<and>
     distinct (map tm_path ts') \<and> set (map tm_path ts') \<inter> set seen = {}"
proof (induction seen ts arbitrary: ts' rule: tmpfs_from.induct)
  case (2 seen t ts)
  then show ?case by (fastforce simp: as_invalid_def split: sum.splits)
qed simp

lemma ulimits_from_ok:
  assumes "foldl (\<lambda>acc u. and_then acc (\<lambda>kept. ulimit_step kept u)) (Inr kept) us = Inr us'"
    and "list_all ulimit_ok kept" "list_all (\<lambda>u. ul_soft u \<le> 9223372036854775807 \<and> ul_hard u \<le> 9223372036854775807) us"
  shows "list_all ulimit_ok us'"
  using assms
proof (induction us arbitrary: kept)
  case (Cons u us)
  have stuck: "foldl (\<lambda>acc u. and_then acc (\<lambda>kept. ulimit_step kept u)) (Inl err) us = Inl err" for err
    by (induction us) simp_all
  show ?case
  proof (cases "ulimit_step kept u")
    case (Inr kept')
    then have "list_all ulimit_ok kept'"
      using Cons.prems by (auto simp: ulimit_step_def Let_def ulimit_ok_def UNLIMITED_def list_all_iff split: if_splits)
    with Cons Inr show ?thesis by simp
  qed (use Cons stuck in simp)
qed simp

lemmas ulimits_ok_sound = ulimits_from_ok [of "[]", folded ulimits_ok_def, simplified]

lemma guest_validate_parts:
  assumes "guest_validate (Some req) targets mb = Inr g"
  shows "ulimits_ok (pg_ulimits req) = Inr (go_ulimits g)"
    "\<exists>seen. tmpfs_from seen (pg_tmpfs req) = Inr (go_tmpfs g)"
  using assms by (auto simp: guest_validate_def Let_def split: if_splits)

text \<open>No option the host accepts carries a NUL byte into the mount data.\<close>

definition no_nul :: "string \<Rightarrow> bool" where
  "no_nul s \<longleftrightarrow> CHR 0x00 \<notin> set s"

lemma digit_not_nul: "\<not> is_ascii_digit (CHR 0x00)" "\<not> is_octal_digit (CHR 0x00)"
  by (simp_all add: is_ascii_digit_def is_octal_digit_def byte_def)

lemma parse_unsigned_no_nul: "parse_unsigned hi s = Some n \<Longrightarrow> no_nul s"
  using digit_not_nul
  by (auto simp: parse_unsigned_def no_nul_def Let_def list_all_iff split: list.splits if_splits)

lemma parse_octal_no_nul: "parse_octal hi s = Some n \<Longrightarrow> no_nul s"
  using digit_not_nul
  by (auto simp: parse_octal_def no_nul_def Let_def list_all_iff split: list.splits if_splits)

lemma size_in_bytes_no_nul:
  assumes "size_in_bytes s = Some n"
  shows "no_nul s"
proof -
  have "s \<noteq> []" using assms by (auto simp: size_in_bytes_def)
  then have s: "s = butlast s @ [last s]" by simp
  have "no_nul (butlast s) \<and> last s \<noteq> CHR 0x00 \<or> no_nul s"
    using assms digit_not_nul
    by (auto simp: size_in_bytes_def Let_def no_nul_def list_all_iff split: if_splits option.splits)
  then show ?thesis by (metis no_nul_def Un_iff append_butlast_last_id empty_iff empty_set insert_iff list.simps(15) s set_append)
qed

lemma option_no_nul:
  assumes "check_tmpfs_option opt = Inr ()"
  shows "no_nul opt"
proof (cases "split_once (CHR ''='') opt")
  case None
  then have "opt \<in> set TMPFS_FLAG_OPTIONS" using assms by (simp add: check_tmpfs_option_def)
  moreover have "list_all no_nul TMPFS_FLAG_OPTIONS" by code_simp
  ultimately show ?thesis by (simp add: list_all_iff)
next
  case (Some kv)
  then obtain key val where kv: "split_once (CHR ''='') opt = Some (key, val)" by (cases kv) auto
  then have opt: "opt = key @ CHR ''='' # val" by (simp add: split_once_Some)
  have data: "check_tmpfs_data key val = Inr ()" using assms kv by (simp add: check_tmpfs_option_def)
  then have "key \<in> set TMPFS_DATA_KEYS" by (simp add: check_tmpfs_data_def split: if_splits)
  moreover have "list_all no_nul TMPFS_DATA_KEYS" by code_simp
  ultimately have "no_nul key" by (simp add: list_all_iff)
  moreover have "size_in_bytes val \<noteq> None \<or> parse_octal 4294967295 val \<noteq> None \<or> parse_unsigned 4294967295 val \<noteq> None"
    using data by (simp add: check_tmpfs_data_def split: if_splits option.splits)
  then have "no_nul val"
    using parse_unsigned_no_nul parse_octal_no_nul size_in_bytes_no_nul by blast
  ultimately show ?thesis by (simp add: opt no_nul_def)
qed

lemma plan_option_data:
  "plan_option (plan, data) opt = Inr (plan', data') \<Longrightarrow> tp_data plan' = tp_data plan \<and> (data' = data \<or> data' = data @ [opt])"
  by (auto simp: plan_option_def split: if_splits option.splits prod.splits)

lemma plan_options_data:
  "plan_options (plan, data) opts = Inr (plan', data') \<Longrightarrow> set data' \<subseteq> set data \<union> set opts"
proof (induction opts arbitrary: plan data)
  case (Cons opt opts)
  then obtain plan1 data1 where "plan_option (plan, data) opt = Inr (plan1, data1)"
    "plan_options (plan1, data1) opts = Inr (plan', data')" by auto
  with Cons.IH plan_option_data [of plan data opt plan1 data1] show ?case by fastforce
qed simp

lemma join_no_nul: "list_all no_nul ps \<Longrightarrow> no_nul (join_with (CHR '','') ps)"
  by (induction "CHR '',''" ps rule: join_with.induct) (auto simp: no_nul_def)

lemma plan_parse_ok:
  assumes "check_tmpfs_options opts = Inr ()"
  obtains plan where "plan_parse opts = Inr plan" "no_nul (tp_data plan)"
proof -
  let ?parts = "nonempty_parts (CHR '','') opts"
  have ok: "\<forall>opt \<in> set ?parts. check_tmpfs_option opt = Inr ()" using assms by (simp add: check_tmpfs_options_def)
  obtain plan data where p: "plan_options (default_plan, []) ?parts = Inr (plan, data)"
    using plan_options_total [OF ok, of "(default_plan, [])"] by auto
  then have "list_all no_nul data"
    using plan_options_data [OF p] ok option_no_nul by (fastforce simp: list_all_iff)
  with p show thesis using that [of "plan\<lparr>tp_data := join_with (CHR '','') data\<rparr>"]
    by (simp add: plan_parse_def join_no_nul)
qed

abbreviation permits :: "string \<Rightarrow> tmpfs_plan \<Rightarrow> message option" where
  "permits \<equiv> \<lambda>_ _. None"

lemma mount_requested_ok:
  assumes "list_all (\<lambda>t. check_tmpfs_options (gt_options t) = Inr ()) ts"
  shows "\<exists>mounted'. mount_requested permits ts mounted = Inr mounted' \<and> map fst mounted' = map fst mounted @ map gt_target ts"
  using assms
proof (induction ts arbitrary: mounted)
  case (Cons t ts)
  then obtain plan where "plan_parse (gt_options t) = Inr plan" "no_nul (tp_data plan)"
    using plan_parse_ok [of "gt_options t"] by auto
  with Cons.prems Cons.IH [of "mounted @ [(gt_target t, plan)]"] show ?case
    by (simp add: mount_tmpfs_def no_nul_def)
qed simp

lemma mount_writable_ok:
  "\<exists>mounted'. mount_writable permits dirs mounted = Inr mounted' \<and> map fst mounted' = map fst mounted @ dirs"
proof (induction dirs arbitrary: mounted)
  case (Cons dir dirs)
  from this [of "mounted @ [(dir, writable_plan)]"] show ?case
    by (simp add: mount_tmpfs_def writable_plan_def WRITABLE_DIR_MODE_def)
qed simp

lemma mount_shm_ok:
  "mount_tmpfs permits GUEST_SHM_PATH (shm_plan n) mounted =
   Inr (mounted @ [(GUEST_SHM_PATH, shm_plan n)])"
proof -
  have "CHR 0x00 \<notin> set (dec n)" using dec_chars digit_not_nul(1) by blast
  then show ?thesis by (simp add: mount_tmpfs_def shm_plan_def SHM_MODE_def)
qed

lemma mount_all_ok:
  assumes "list_all (\<lambda>t. check_tmpfs_options (gt_options t) = Inr ()) ts"
  shows "\<exists>mounts. mount_tmpfs_all permits ts (Some n) ro binds = Inr mounts \<and>
     map fst mounts = map gt_target ts @ GUEST_SHM_PATH #
       (if ro then implicit_writable_dirs (map gt_target ts @ binds) else [])"
proof -
  obtain m1 where m1: "mount_requested permits ts [] = Inr m1" "map fst m1 = map gt_target ts"
    using mount_requested_ok [OF assms, of "[]"] by auto
  let ?m2 = "m1 @ [(GUEST_SHM_PATH, shm_plan n)]"
  obtain m3 where "mount_writable permits (implicit_writable_dirs (map gt_target ts @ binds)) ?m2 = Inr m3"
    "map fst m3 = map fst ?m2 @ implicit_writable_dirs (map gt_target ts @ binds)"
    using mount_writable_ok by blast
  with m1 show ?thesis unfolding mount_tmpfs_all_def
    by (cases ro) (simp_all add: mount_shm_ok)
qed

text \<open>
  C6: A guest request that \<open>guest_options::validate\<close> accepts boots as asked. The agent reads back from its
  command line exactly the stored options, the mounts, the hostname and the pids limit, and every tmpfs
  it then mounts has options it knows, so only the guest kernel can refuse one. No two tmpfs mounts
  share a target, so neither \<open>/dev/shm\<close> nor an implicit \<open>/tmp\<close> or \<open>/run\<close> hides a requested one.
\<close>

theorem validated_request_boots:
  assumes "guest_validate (Some req) targets mb = Inr (sp_guest (co_spec opts))"
    and "list_all (\<lambda>u. ul_soft u \<le> 9223372036854775807 \<and> ul_hard u \<le> 9223372036854775807) (pg_ulimits req)"
    and "sid \<noteq> []"
  shows "parse_args (exec_args sid opts) = Inr (asked sid opts) \<and>
    (\<exists>mounts. mount_tmpfs_all (\<lambda>_ _. None) (aa_tmpfs (asked sid opts)) (aa_shm_size (asked sid opts))
         (aa_read_only (asked sid opts)) (map gm_target (aa_mounts (asked sid opts))) = Inr mounts \<and>
       distinct (map fst mounts))"
proof -
  let ?g = "sp_guest (co_spec opts)" and ?a = "asked sid opts"
  have "list_all ulimit_ok (go_ulimits ?g)"
    using guest_validate_parts(1) [OF assms(1)] assms(2) ulimits_ok_sound by blast
  moreover have "hostname_for (co_spec opts) sid \<noteq> []"
    using assms(3) by (simp add: hostname_for_def DEFAULT_HOSTNAME_LEN_def)
  ultimately have boot: "parse_args (exec_args sid opts) = Inr ?a" by (rule parse_boot)
  obtain seen where "tmpfs_from seen (pg_tmpfs req) = Inr (go_tmpfs ?g)"
    using guest_validate_parts(2) [OF assms(1)] by blast
  then have t: "list_all (\<lambda>t. \<not> is_reserved (tm_path t) \<and> check_tmpfs_options (tm_options t) = Inr ()) (go_tmpfs ?g)"
    "distinct (map tm_path (go_tmpfs ?g))"
    by (auto dest!: tmpfs_from_ok simp: list_all_iff)
  have a: "map gt_target (aa_tmpfs ?a) = map tm_path (go_tmpfs ?g)" "aa_shm_size ?a = Some (unat (shm_size ?g))"
    "list_all (\<lambda>t. check_tmpfs_options (gt_options t) = Inr ()) (aa_tmpfs ?a)"
    using t(1) by (auto simp: asked_def Let_def list_all_iff)
  have "distinct (map tm_path (go_tmpfs ?g) @ GUEST_SHM_PATH #
      (if aa_read_only ?a then implicit_writable_dirs (map tm_path (go_tmpfs ?g) @ map gm_target (aa_mounts ?a)) else []))"
    using t by (auto simp: implicit_writable_dirs_def WRITABLE_DIRS_def GUEST_SHM_PATH_def is_reserved_def SHM_PATH_def list_all_iff)
  with boot a mount_all_ok [OF a(3), of "unat (shm_size ?g)" "aa_read_only ?a" "map gm_target (aa_mounts ?a)"]
  show ?thesis by auto
qed

definition demo_request :: pb_guest_options where
  "demo_request =
     \<lparr>pg_read_only_rootfs = True, pg_tmpfs = [\<lparr>tm_path = ''//cache/'', tm_options = ''size=64m,exec''\<rparr>], pg_shm_size_bytes = 0,
      pg_extra_hosts = [''db:host-gateway''], pg_dns_search = [''lan''], pg_dns_options = [],
      pg_ulimits = [\<lparr>ul_name = ''nofile'', ul_soft = 64, ul_hard = -1\<rparr>], pg_group_add = [''audio''], pg_cgroup = None,
      pg_healthcheck = None\<rparr>"

definition demo_guest :: guest_options where
  "demo_guest =
     \<lparr>go_read_only_rootfs = True, go_tmpfs = [\<lparr>tm_path = ''/cache'', tm_options = ''size=64m,exec''\<rparr>], go_shm_size_bytes = 0,
      go_extra_hosts = [''db:10.0.2.2''], go_dns_search = [''lan''], go_dns_options = [],
      go_ulimits = [\<lparr>ul_name = ''nofile'', ul_soft = 64, ul_hard = -1\<rparr>], go_group_add = [''audio''],
      go_cgroup = default_cgroup_limits, go_healthcheck = None\<rparr>"

definition demo_boot :: create_opts where
  "demo_boot =
     \<lparr>co_image = ''alpine'', co_mounts = [\<lparr>mnt_source = ''/srv/app'', mnt_target = ''/app'', mnt_readonly = True, mnt_volume = None, mnt_anonymous = False\<rparr>],
      co_volume_ids = [], co_egress = default_egress_policy, co_resources = default_resource_limits, co_env = [],
      co_from_snapshot = None, co_comms = default_communication_policy,
      co_spec = \<lparr>sp_name = [], sp_command = [], sp_entrypoint_len = 0, sp_workdir = [], sp_user = [], sp_tty = False,
        sp_auto_remove = False, sp_published_ports = [], sp_image_digest = [], sp_labels = [], sp_hostname = [],
        sp_stop_signal = [], sp_stop_timeout = None, sp_restart = default_restart_policy, sp_guest = demo_guest\<rparr>\<rparr>"

lemma demo_parts:
  "clean_path ''/app'' = Inr ''/app''" "clean_path ''//cache/'' = Inr ''/cache''" "\<not> is_reserved ''/cache''"
  "check_tmpfs_options ''size=64m,exec'' = Inr ()" "search_domains [''lan''] = Inr ()" "dns_options_ok [] = Inr ()"
  "cgroup_ok default_cgroup_limits 256 = Inr ()" "group_add_ok [''audio''] = Inr ()"
  "extra_hosts [''db:host-gateway''] = Inr [''db:10.0.2.2'']"
  "ulimits_ok [\<lparr>ul_name = ''nofile'', ul_soft = 64, ul_hard = -1\<rparr>] = Inr [\<lparr>ul_name = ''nofile'', ul_soft = 64, ul_hard = -1\<rparr>]"
  subgoal by (simp add: clean_path_def nonempty_parts_def MAX_PATH_LEN_def starts_with_def)
  subgoal by (simp add: clean_path_def nonempty_parts_def MAX_PATH_LEN_def starts_with_def)
  subgoal by (simp add: is_reserved_def SHM_PATH_def RESERVED_ROOTS_def starts_with_def)
  subgoal by (simp add: check_tmpfs_options_def nonempty_parts_def check_tmpfs_option_def check_tmpfs_data_def
        TMPFS_DATA_KEYS_def TMPFS_FLAG_OPTIONS_def size_in_bytes_def text_defs U64_MAX_def byte_def)
  subgoal by (simp add: search_domains_def MAX_SEARCH_DOMAINS_def MAX_SEARCH_CHARS_def MAX_HOST_NAME_LEN_def is_name_char_def text_defs byte_def)
  subgoal by (simp add: dns_options_ok_def)
  subgoal by (simp add: cgroup_ok_def default_cgroup_limits_def cpuset_ok_def UNLIMITED_def)
  subgoal by (simp add: group_add_ok_def MAX_GROUPS_def MAX_GROUP_NAME_LEN_def text_defs byte_def)
  subgoal by (simp add: extra_hosts_def extra_host_def MAX_EXTRA_HOSTS_def MAX_HOST_NAME_LEN_def is_name_char_def HOST_GATEWAY_def
        GATEWAY_ADDRESS_def trim_start_def trim_end_def text_defs byte_def)
  subgoal by (simp add: ulimits_ok_def ulimit_step_def ULIMIT_NAMES_def UNLIMITED_def)
  done

lemma demo_validates: "guest_validate (Some demo_request) [''/app''] 256 = Inr demo_guest"
  by (simp add: guest_validate_def demo_request_def demo_guest_def demo_parts as_invalid_def MAX_TMPFS_MOUNTS_def)

theorem validated_request_boots_witness:
  "guest_validate (Some demo_request) [''/app''] 256 = Inr demo_guest \<and>
   parse_args (exec_args ''0a1b2c'' demo_boot) = Inr (asked ''0a1b2c'' demo_boot)"
  using validated_request_boots [of demo_request "[''/app'']" 256 demo_boot "''0a1b2c''"] demo_validates
  by (simp add: demo_request_def demo_boot_def)

end
