(* ===== verification/Utf8.thy ===== *)
theory Utf8
  imports Prelude
begin

text \<open>
  UTF-8 as Rust's standard library reads it, and \<open>ward-core/src/utf8.rs\<close>, which decodes a byte stream that
  arrives in chunks. The main result is that the chunking cannot be seen in the text.
\<close>

section \<open>One character\<close>

text \<open>
  The start of a non-empty text: a character of so many bytes, so many bytes that can never start
  one (\<open>Utf8Error::error_len\<close> is \<open>Some\<close>), or the text ends inside a character (\<open>error_len\<close> is \<open>None\<close>).
\<close>

datatype utf8_step = Good nat | Bad nat | Cut

definition continuation :: "char \<Rightarrow> bool" where
  "continuation c \<longleftrightarrow> 128 \<le> byte c \<and> byte c \<le> 191"

definition second_ok :: "nat \<Rightarrow> nat \<Rightarrow> bool" where
  "second_ok a b \<longleftrightarrow>
     (a = 0xE0 \<and> 0xA0 \<le> b \<and> b \<le> 0xBF) \<or> (0xE1 \<le> a \<and> a \<le> 0xEC \<and> 0x80 \<le> b \<and> b \<le> 0xBF) \<or>
     (a = 0xED \<and> 0x80 \<le> b \<and> b \<le> 0x9F) \<or> (0xEE \<le> a \<and> a \<le> 0xEF \<and> 0x80 \<le> b \<and> b \<le> 0xBF) \<or>
     (a = 0xF0 \<and> 0x90 \<le> b \<and> b \<le> 0xBF) \<or> (0xF1 \<le> a \<and> a \<le> 0xF3 \<and> 0x80 \<le> b \<and> b \<le> 0xBF) \<or>
     (a = 0xF4 \<and> 0x80 \<le> b \<and> b \<le> 0x8F)"

definition utf8_width :: "nat \<Rightarrow> nat" where
  "utf8_width a =
     (if a < 0x80 then 1 else if 0xC2 \<le> a \<and> a \<le> 0xDF then 2 else if 0xE0 \<le> a \<and> a \<le> 0xEF then 3
      else if 0xF0 \<le> a \<and> a \<le> 0xF4 then 4 else 0)"

definition utf8_step :: "bytes \<Rightarrow> utf8_step" where
  "utf8_step s =
     (case s of
        [] \<Rightarrow> Cut
      | a # r \<Rightarrow>
          let w = utf8_width (byte a)
          in if w = 0 then Bad 1
             else if w = 1 then Good 1
             else (case r of
                     [] \<Rightarrow> Cut
                   | b # q \<Rightarrow>
                       if w = 2 then (if continuation b then Good 2 else Bad 1)
                       else if \<not> second_ok (byte a) (byte b) then Bad 1
                       else (case q of
                               [] \<Rightarrow> Cut
                             | c # p \<Rightarrow>
                                 if \<not> continuation c then Bad 2
                                 else if w = 3 then Good 3
                                 else (case p of
                                         [] \<Rightarrow> Cut
                                       | d # _ \<Rightarrow> if continuation d then Good 4 else Bad 3))))"

lemma utf8_step_bounds:
  "utf8_step s = Good n \<Longrightarrow> 0 < n \<and> n \<le> length s"
  "utf8_step s = Bad n \<Longrightarrow> 0 < n \<and> n \<le> length s"
  by (auto simp: utf8_step_def Let_def split: list.splits if_splits)

text \<open>More input changes the verdict on a start only if the start was cut off.\<close>

lemma utf8_step_append: "utf8_step s \<noteq> Cut \<Longrightarrow> utf8_step (s @ t) = utf8_step s"
  by (cases s; cases "tl s"; cases "tl (tl s)"; cases "tl (tl (tl s))")
     (simp_all add: utf8_step_def Let_def split: if_splits)

section \<open>Whole texts\<close>

text \<open>\<open>str::from_utf8\<close>: the number of valid bytes, and what stopped it, if anything.\<close>

function from_utf8 :: "bytes \<Rightarrow> nat \<times> nat option option" where
  "from_utf8 s =
     (if s = [] then (0, None)
      else (case utf8_step s of
              Good n \<Rightarrow> (let (up_to, err) = from_utf8 (drop n s) in (n + up_to, err))
            | Bad n \<Rightarrow> (0, Some (Some n))
            | Cut \<Rightarrow> (0, Some None)))"
  by pat_completeness auto

termination
  by (relation "measure length") (auto dest: utf8_step_bounds)

declare from_utf8.simps [simp del]

definition REPLACEMENT :: bytes where
  "REPLACEMENT = [CHR 0xEF, CHR 0xBF, CHR 0xBD]"

text \<open>\<open>String::from_utf8_lossy\<close>.\<close>

function from_utf8_lossy :: "bytes \<Rightarrow> bytes" where
  "from_utf8_lossy s =
     (if s = [] then []
      else (case utf8_step s of
              Good n \<Rightarrow> take n s @ from_utf8_lossy (drop n s)
            | Bad n \<Rightarrow> REPLACEMENT @ from_utf8_lossy (drop n s)
            | Cut \<Rightarrow> REPLACEMENT))"
  by pat_completeness auto

termination
  by (relation "measure length") (auto dest: utf8_step_bounds)

declare from_utf8_lossy.simps [simp del]

lemma lossy_Nil [simp]: "from_utf8_lossy [] = []"
  by (simp add: from_utf8_lossy.simps)

lemma lossy_Good: "utf8_step s = Good n \<Longrightarrow> from_utf8_lossy s = take n s @ from_utf8_lossy (drop n s)"
  using utf8_step_bounds(1) [of s n] by (subst from_utf8_lossy.simps) auto

lemma lossy_Bad: "utf8_step s = Bad n \<Longrightarrow> from_utf8_lossy s = REPLACEMENT @ from_utf8_lossy (drop n s)"
  using utf8_step_bounds(2) [of s n] by (subst from_utf8_lossy.simps) auto

section \<open>A stream in chunks\<close>

record utf8_stream =
  us_pending :: bytes

definition utf8_new :: utf8_stream where
  "utf8_new = \<lparr>us_pending = []\<rparr>"

text \<open>The loop of \<open>push\<close>: the text so far and the bytes still to read, to the text and what stays pending.\<close>

lemma from_utf8_bad: "from_utf8 s = (v, Some (Some n)) \<Longrightarrow> 0 < n \<and> v + n \<le> length s"
proof (induction s arbitrary: v rule: from_utf8.induct)
  case (1 s)
  show ?case
  proof (cases "utf8_step s")
    case (Good m)
    with 1 utf8_step_bounds(1) [OF Good] show ?thesis
      by (subst (asm) (2) from_utf8.simps) (fastforce split: prod.splits if_splits)
  qed (use 1 utf8_step_bounds(2) [of s] in \<open>subst (asm) (2) from_utf8.simps; auto split: if_splits\<close>)+
qed

function push_loop :: "bytes \<Rightarrow> bytes \<Rightarrow> bytes \<times> bytes" where
  "push_loop txt rest =
     (case from_utf8 rest of
        (_, None) \<Rightarrow> (txt @ rest, [])
      | (up_to, Some err) \<Rightarrow>
          (let valid = take up_to rest; after = drop up_to rest; txt = txt @ from_utf8_lossy valid
           in case err of
                Some bad \<Rightarrow> push_loop (txt @ REPLACEMENT) (drop bad after)
              | None \<Rightarrow> (txt, after)))"
  by pat_completeness auto

termination
  by (relation "measure (length \<circ> snd)") (auto dest!: from_utf8_bad [OF sym])

declare push_loop.simps [simp del]

definition utf8_push :: "bytes \<Rightarrow> utf8_stream \<Rightarrow> bytes \<times> utf8_stream" where
  "utf8_push chunk st =
     (let (txt, pending) = push_loop [] (us_pending st @ chunk)
      in (txt, st\<lparr>us_pending := pending\<rparr>))"

definition utf8_finish :: "utf8_stream \<Rightarrow> bytes \<times> utf8_stream" where
  "utf8_finish st = (from_utf8_lossy (us_pending st), st\<lparr>us_pending := []\<rparr>)"

text \<open>A consumer that pushes every chunk and finishes at the end of the stream.\<close>

fun utf8_all :: "bytes list \<Rightarrow> utf8_stream \<Rightarrow> bytes" where
  "utf8_all [] st = fst (utf8_finish st)"
| "utf8_all (chunk # chunks) st =
     (let (txt, st') = utf8_push chunk st in txt @ utf8_all chunks st')"

section \<open>The chunking cannot be seen\<close>

lemma from_utf8_Good:
  "utf8_step s = Good n \<Longrightarrow> from_utf8 s = (n + fst (from_utf8 (drop n s)), snd (from_utf8 (drop n s)))"
  using utf8_step_bounds(1) [of s n] by (subst from_utf8.simps) (auto split: prod.splits)

lemma from_utf8_end: "snd (from_utf8 s) = None \<Longrightarrow> fst (from_utf8 s) = length s"
proof (induction s rule: from_utf8.induct)
  case (1 s)
  show ?case
  proof (cases "utf8_step s")
    case (Good n)
    then have "s \<noteq> []" "n \<le> length s" using utf8_step_bounds(1) by fastforce+
    with 1(1) [OF _ Good] 1(2) show ?thesis by (simp add: from_utf8_Good [OF Good])
  qed (use 1(2) in \<open>simp_all add: from_utf8.simps [of s] split: if_splits\<close>)
qed

lemma from_utf8_bad_step: "snd (from_utf8 s) = Some (Some m) \<Longrightarrow> utf8_step (drop (fst (from_utf8 s)) s) = Bad m"
proof (induction s rule: from_utf8.induct)
  case (1 s)
  show ?case
  proof (cases "utf8_step s")
    case (Good n)
    then have "s \<noteq> []" using utf8_step_bounds(1) by fastforce
    with 1(1) [OF _ Good] 1(2) show ?thesis by (simp add: from_utf8_Good [OF Good] add.commute)
  qed (use 1(2) in \<open>simp_all add: from_utf8.simps [of s] split: if_splits\<close>)
qed

lemma utf8_step_take:
  assumes "utf8_step s = Good n"
  shows "utf8_step (take n s) = Good n"
proof -
  have each: "utf8_step s = Good k \<Longrightarrow> utf8_step (take k s) = Good k" if "k = 1 \<or> k = 2 \<or> k = 3 \<or> k = 4" for k
    using that
    by (elim disjE; cases s; cases "tl s"; cases "tl (tl s)"; cases "tl (tl (tl s))")
       (simp_all add: utf8_step_def Let_def split: if_splits)
  have "n = 1 \<or> n = 2 \<or> n = 3 \<or> n = 4"
    using assms by (auto simp: utf8_step_def Let_def split: list.splits if_splits)
  with assms each show ?thesis by simp
qed

lemma lossy_valid_prefix:
  "from_utf8_lossy (s @ t) = take (fst (from_utf8 s)) s @ from_utf8_lossy (drop (fst (from_utf8 s)) s @ t)"
proof (induction s rule: from_utf8.induct)
  case (1 s)
  show ?case
  proof (cases "utf8_step s")
    case (Good n)
    then have "s \<noteq> []" "n \<le> length s" using utf8_step_bounds(1) by fastforce+
    moreover have "utf8_step (s @ t) = Good n" using Good utf8_step_append [of s t] by simp
    ultimately show ?thesis using 1 [OF _ Good] Good
      by (simp add: lossy_Good from_utf8_Good take_add add.commute)
  qed (simp_all add: from_utf8.simps)
qed

lemma lossy_valid: "from_utf8_lossy (take (fst (from_utf8 s)) s) = take (fst (from_utf8 s)) s"
proof (induction s rule: from_utf8.induct)
  case (1 s)
  show ?case
  proof (cases "utf8_step s")
    case (Good n)
    then have n: "s \<noteq> []" "0 < n" "n \<le> length s" using utf8_step_bounds(1) by fastforce+
    let ?v = "fst (from_utf8 (drop n s))"
    have t: "take (n + ?v) s = take n s @ take ?v (drop n s)" by (simp add: take_add)
    have "utf8_step (take n s) = Good n" using Good by (rule utf8_step_take)
    then have "utf8_step (take (n + ?v) s) = Good n" using utf8_step_append [of "take n s" "take ?v (drop n s)"] t by simp
    then show ?thesis using 1 [OF n(1) Good] Good n
      by (simp add: lossy_Good from_utf8_Good take_add add.commute drop_take)
  qed (simp_all add: from_utf8.simps)
qed

lemma push_loop_lossy: "push_loop acc s = (acc', pending) \<Longrightarrow> acc' @ from_utf8_lossy (pending @ t) = acc @ from_utf8_lossy (s @ t)"
proof (induction acc s rule: push_loop.induct)
  case (1 acc s)
  obtain v e where f: "from_utf8 s = (v, e)" by (cases "from_utf8 s")
  note split = lossy_valid_prefix [of s t, unfolded f fst_conv] and valid = lossy_valid [of s, unfolded f fst_conv]
  show ?case
  proof (cases e)
    case None
    then have "v = length s" using from_utf8_end [of s] f by simp
    with 1(2) None f split show ?thesis by (simp add: push_loop.simps [of acc s])
  next
    case (Some err)
    show ?thesis
    proof (cases err)
      case None
      with 1(2) Some f split valid show ?thesis by (simp add: push_loop.simps [of acc s])
    next
      case (Some n)
      then have "utf8_step (drop v s) = Bad n" using from_utf8_bad_step [of s n] f \<open>e = Some err\<close> by simp
      then have "from_utf8_lossy (drop v s @ t) = REPLACEMENT @ from_utf8_lossy (drop n (drop v s) @ t)"
        using utf8_step_append [of "drop v s" t] utf8_step_bounds(2) [of "drop v s" n] by (simp add: lossy_Bad)
      with 1 Some \<open>e = Some err\<close> f split valid show ?thesis
        by (simp add: push_loop.simps [of acc s])
    qed
  qed
qed

lemma utf8_all_lossy: "utf8_all chunks st = from_utf8_lossy (us_pending st @ concat chunks)"
proof (induction chunks arbitrary: st)
  case (Cons chunk chunks)
  obtain out pending where "push_loop [] (us_pending st @ chunk) = (out, pending)" by fastforce
  with Cons push_loop_lossy [OF this, of "concat chunks"] show ?case by (simp add: utf8_push_def)
qed (simp add: utf8_finish_def)

text \<open>
  C13: However a byte stream is cut into chunks, pushing the chunks through \<open>Utf8Stream\<close> and finishing gives
  the text that decoding the whole stream at once gives: no character that is split over chunks is lost or
  replaced, and no byte is decoded twice.
\<close>

theorem chunking_invisible: "utf8_all chunks utf8_new = from_utf8_lossy (concat chunks)"
  by (simp add: utf8_all_lossy utf8_new_def)

end
