(* ===== verification/Wire.thy ===== *)
theory Wire
  imports Utf8 OutputBuf Guest
begin

text \<open>
  The protocol between the daemon and the guest agent: frames (\<open>ward-agent/src/lib.rs\<close> and
  \<open>ward-core/src/backend/agent.rs\<close>), the messages of \<open>proto/ward_agent.proto\<close>, the agent's side of one
  process and the daemon's side of the same connection. A byte stream is the list of the bytes the
  peer sent before it closed its end. The protobuf encoding of a message is a parameter.
\<close>

section \<open>I/O errors\<close>

datatype io_error_kind = KUnexpectedEof | KInvalidData | KInvalidInput | KNotFound | KUnsupported | KTimedOut | KBrokenPipe | KOther

type_synonym io_error = "io_error_kind \<times> message"
type_synonym 'a io = "io_error + 'a"

definition io_err :: "io_error_kind \<Rightarrow> string \<Rightarrow> msg_arg list \<Rightarrow> io_error" where
  "io_err k fmt args = (k, Msg fmt args)"

section \<open>Frames\<close>

definition MAX_FRAME_BYTES :: nat where "MAX_FRAME_BYTES = 2097152"

text \<open>\<open>u32::to_be_bytes\<close> and \<open>u32::from_be_bytes\<close>.\<close>

definition to_be_bytes :: "nat \<Rightarrow> bytes" where
  "to_be_bytes n = map char_of [n div 16777216 mod 256, n div 65536 mod 256, n div 256 mod 256, n mod 256]"

definition from_be_bytes :: "bytes \<Rightarrow> nat" where
  "from_be_bytes bs = foldl (\<lambda>acc c. acc * 256 + byte c) 0 bs"

text \<open>\<open>read_exact\<close>: the bytes and the rest of the stream, or an early end.\<close>

definition read_exact :: "nat \<Rightarrow> bytes \<Rightarrow> (bytes \<times> bytes) io" where
  "read_exact n s =
     (if length s < n then Inl (io_err KUnexpectedEof ''early eof'' []) else Inr (take n s, drop n s))"

text \<open>The agent's reader: a frame and the rest of the stream, \<open>None\<close> at the end, or an error.\<close>

definition read_frame :: "bytes \<Rightarrow> (bytes \<times> bytes) option io" where
  "read_frame s =
     (case read_exact 4 s of
        Inl err \<Rightarrow> if fst err = KUnexpectedEof then Inr None else Inl err
      | Inr (len_buf, s) \<Rightarrow>
          let len = from_be_bytes len_buf
          in if len = 0 then Inl (io_err KInvalidData ''frame length must be non-zero'' [])
             else if len > MAX_FRAME_BYTES
             then Inl (io_err KInvalidData ''frame too large: {len} bytes (max {MAX_FRAME_BYTES})'' [N len])
             else and_then (read_exact len s) (\<lambda>(buf, s). Inr (Some (buf, s))))"

text \<open>The agent's writer: the bytes it puts on the stream.\<close>

definition write_frame :: "bytes \<Rightarrow> bytes io" where
  "write_frame bs =
     (if bs = [] then Inl (io_err KInvalidInput ''frame payload must be non-empty'' [])
      else if length bs > 4294967295 then Inl (io_err KInvalidInput ''frame exceeds u32'' [])
      else if length bs > MAX_FRAME_BYTES
      then Inl (io_err KInvalidInput ''frame too large to write: {len} bytes (max {MAX_FRAME_BYTES})'' [N (length bs)])
      else Inr (to_be_bytes (length bs) @ bs))"

text \<open>The daemon's copies in \<open>backend/agent.rs\<close>.\<close>

definition HOST_MAX_FRAME_BYTES :: nat where "HOST_MAX_FRAME_BYTES = 2097152"

definition host_read_frame :: "bytes \<Rightarrow> (bytes \<times> bytes) option io" where
  "host_read_frame s =
     (case read_exact 4 s of
        Inl err \<Rightarrow> if fst err = KUnexpectedEof then Inr None else Inl err
      | Inr (len_buf, s) \<Rightarrow>
          let len = from_be_bytes len_buf
          in if len = 0 then Inl (io_err KInvalidData ''frame length must be non-zero'' [])
             else if len > HOST_MAX_FRAME_BYTES
             then Inl (io_err KInvalidData ''frame too large: {len} bytes (max {MAX_FRAME_BYTES})'' [N len])
             else and_then (read_exact len s) (\<lambda>(buf, s). Inr (Some (buf, s))))"

definition host_write_frame :: "bytes \<Rightarrow> bytes io" where
  "host_write_frame bs =
     (if bs = [] then Inl (io_err KInvalidInput ''frame payload must be non-empty'' [])
      else if length bs > 4294967295 then Inl (io_err KInvalidInput ''frame exceeds u32'' [])
      else if length bs > HOST_MAX_FRAME_BYTES
      then Inl (io_err KInvalidInput ''frame too large to write: {len} bytes (max {MAX_FRAME_BYTES})'' [N (length bs)])
      else Inr (to_be_bytes (length bs) @ bs))"

lemma be_bytes_length [simp]: "length (to_be_bytes n) = 4"
  by (simp add: to_be_bytes_def)

lemma be_bytes_round: "n < 4294967296 \<Longrightarrow> from_be_bytes (to_be_bytes n) = n"
proof -
  assume n: "n < 4294967296"
  define a b c where abc: "a = n div 256" "b = a div 256" "c = b div 256"
  have d: "n div 256 = a" "n div 65536 = b" "n div 16777216 = c"
    using div_mult2_eq [of n 256 256] div_mult2_eq [of n 256 65536] div_mult2_eq [of a 256 256] by (simp_all add: abc)
  have "n = a * 256 + n mod 256" "a = b * 256 + a mod 256" "b = c * 256 + b mod 256" by (simp_all add: abc)
  moreover have "c mod 256 = c" using n unfolding abc by (simp add: div_mult2_eq [symmetric])
  ultimately have "(((n div 16777216 mod 256) * 256 + n div 65536 mod 256) * 256 + n div 256 mod 256) * 256 + n mod 256 = n"
    unfolding d by simp
  moreover have "n div 16777216 mod 256 = n div 16777216" using n by (simp add: div_less)
  ultimately show ?thesis by (simp add: from_be_bytes_def to_be_bytes_def byte_def)
qed

lemma same_frames: "host_read_frame = read_frame" "host_write_frame = write_frame"
proof -
  have "HOST_MAX_FRAME_BYTES = MAX_FRAME_BYTES" by (simp add: HOST_MAX_FRAME_BYTES_def MAX_FRAME_BYTES_def)
  then show "host_read_frame = read_frame" "host_write_frame = write_frame"
    by (simp_all only: fun_eq_iff host_read_frame_def read_frame_def host_write_frame_def write_frame_def simp_thms)
qed

abbreviation fits :: "bytes \<Rightarrow> bool" where
  "fits bs \<equiv> bs \<noteq> [] \<and> length bs \<le> MAX_FRAME_BYTES"

lemma write_frame_ok: "write_frame bs = Inr w \<longleftrightarrow> fits bs \<and> w = to_be_bytes (length bs) @ bs"
  by (auto simp: write_frame_def MAX_FRAME_BYTES_def)

lemma read_written: "fits bs \<Longrightarrow> read_frame (to_be_bytes (length bs) @ bs @ rest) = Inr (Some (bs, rest))"
  by (simp add: read_frame_def read_exact_def be_bytes_round MAX_FRAME_BYTES_def)

lemma read_frame_Nil [simp]: "read_frame [] = Inr None"
  by (simp add: read_frame_def read_exact_def io_err_def)

lemma read_frame_shorter: "read_frame s = Inr (Some (bs, rest)) \<Longrightarrow> length rest < length s"
  by (auto simp: read_frame_def read_exact_def Let_def split: if_splits)

lemma read_frame_fits: "read_frame s = Inr (Some (bs, rest)) \<Longrightarrow> fits bs \<and> (\<exists>w. length w = 4 \<and> s = w @ bs @ rest)"
proof -
  assume r: "read_frame s = Inr (Some (bs, rest))"
  then have p: "4 \<le> length s" "bs = take (from_be_bytes (take 4 s)) (drop 4 s)" "rest = drop (from_be_bytes (take 4 s)) (drop 4 s)"
    "from_be_bytes (take 4 s) \<noteq> 0" "from_be_bytes (take 4 s) \<le> MAX_FRAME_BYTES"
    "from_be_bytes (take 4 s) \<le> length s - 4"
    by (auto simp: read_frame_def read_exact_def Let_def split: if_splits)
  then have "drop 4 s = bs @ rest" by (metis append_take_drop_id)
  then have "s = take 4 s @ bs @ rest" by (metis append_take_drop_id)
  with p show ?thesis by (intro conjI exI [of _ "take 4 s"]) (auto simp: min_def)
qed

section \<open>Messages\<close>

datatype archive_error_kind = AeUnspecified | AeNotFound | AeRefused | AeFailed

record exec_request =
  ex_command :: "string list"
  ex_working_dir :: string
  ex_env :: "(string \<times> string) list"
  ex_tty :: bool
  ex_user :: string
  ex_raw :: bool

record set_limits_request =
  sl_memory_bytes :: "nat option"
  sl_nano_cpus :: "nat option"
  sl_pids_max :: "nat option"
  sl_memory_low_bytes :: "nat option"
  sl_cpu_weight :: "nat option"
  sl_cpu_max_quota :: "string option"
  sl_cpu_max_period :: "nat option"
  sl_cpuset_cpus :: "string option"

record stats_sample =
  ss_cpu_nanos :: nat
  ss_online_cpus :: nat
  ss_mem_total_bytes :: nat
  ss_mem_available_bytes :: nat
  ss_pids :: nat
  ss_mem_peak_bytes :: nat
  ss_block_read_bytes :: nat
  ss_block_write_bytes :: nat

datatype request_kind =
    RqExec exec_request
  | RqStdin bytes
  | RqKill
  | RqPing
  | RqResize nat nat
  | RqSignal int
  | RqPutArchive string
  | RqGetArchive string
  | RqArchiveChunk bytes
  | RqArchiveEnd
  | RqTop "string list"
  | RqStats
  | RqPutSecrets string "(string \<times> bytes) list"
  | RqSetLimits set_limits_request
  | RqFreeze bool

datatype event_kind =
    EvStdout string
  | EvStderr string
  | EvExited int int nat
  | EvPong
  | EvData int bytes
  | EvArchiveChunk bytes
  | EvArchiveDone
  | EvArchiveError message archive_error_kind
  | EvProcesses "string list" "string list list"
  | EvTopError message
  | EvStatsSample stats_sample

text \<open>
  \<open>oneof kind\<close>: a message may carry none. \<open>encode\<close> and \<open>decode\<close> are prost's; what is relied on is that
  decoding a message of \<open>M\<close> gives back what was encoded.
\<close>

type_synonym request = "request_kind option"
type_synonym event = "event_kind option"

definition codec :: "'m set \<Rightarrow> ('m \<Rightarrow> bytes) \<Rightarrow> (bytes \<Rightarrow> 'm option) \<Rightarrow> bool" where
  "codec M encode decode \<longleftrightarrow> (\<forall>m \<in> M. decode (encode m) = Some m)"

section \<open>The agent's side of a process\<close>

definition READ_CHUNK_BYTES :: nat where "READ_CHUNK_BYTES = 16384"
definition EXIT_NOT_INVOKABLE :: int where "EXIT_NOT_INVOKABLE = 126"
definition EXIT_NOT_FOUND :: int where "EXIT_NOT_FOUND = 127"
definition EXIT_UNKNOWN :: int where "EXIT_UNKNOWN = -1"
definition OOM_REREADS :: nat where "OOM_REREADS = 5"
definition SIGKILL_NUMBER :: int where "SIGKILL_NUMBER = 9"

text \<open>\<open>enum Stream\<close>.\<close>

definition STREAM_STDOUT :: int where "STREAM_STDOUT = 1"
definition STREAM_STDERR :: int where "STREAM_STDERR = 2"

definition stream_tag :: "raw_stream \<Rightarrow> int" where
  "stream_tag s = (case s of Stdout \<Rightarrow> STREAM_STDOUT | Stderr \<Rightarrow> STREAM_STDERR)"

definition line_event :: "raw_stream \<Rightarrow> string \<Rightarrow> event" where
  "line_event s line = Some (case s of Stdout \<Rightarrow> EvStdout line | Stderr \<Rightarrow> EvStderr line)"

definition data_event :: "raw_stream \<Rightarrow> bytes \<Rightarrow> event" where
  "data_event s bs = Some (EvData (stream_tag s) bs)"

definition exited_event :: "int \<Rightarrow> int \<Rightarrow> event" where
  "exited_event code wait_status = Some (EvExited code wait_status 0)"

text \<open>\<open>(code & 0xff) << WAIT_STATUS_CODE_SHIFT\<close>.\<close>

definition synthetic_exit_event :: "int \<Rightarrow> event" where
  "synthetic_exit_event code = exited_event code (code mod 256 * 256)"

text \<open>\<open>ExitStatus::code\<close> and \<open>ExitStatus::signal\<close> of a raw wait status.\<close>

definition status_code :: "int \<Rightarrow> int option" where
  "status_code raw = (if raw mod 128 = 0 then Some (raw div 256 mod 256) else None)"

definition status_signal :: "int \<Rightarrow> int option" where
  "status_signal raw = (if raw mod 128 \<noteq> 0 \<and> raw mod 128 \<noteq> 127 then Some (raw mod 128) else None)"

definition exit_event :: "int option \<Rightarrow> nat \<Rightarrow> event" where
  "exit_event status oom_kills =
     (case (case status of
              Some raw \<Rightarrow> exited_event (unwrap_or (status_code raw) EXIT_UNKNOWN) raw
            | None \<Rightarrow> synthetic_exit_event EXIT_UNKNOWN) of
        Some (EvExited code ws _) \<Rightarrow> Some (EvExited code ws oom_kills)
      | ev \<Rightarrow> ev)"

text \<open>
  \<open>spawn_failure_exit_code\<close>; \<open>is_dir\<close> and \<open>exists\<close> are the guest's file system, \<open>path\<close> the agent's own
  \<open>PATH\<close>.
\<close>

definition command_file_exists :: "(string \<Rightarrow> bool) \<Rightarrow> string option \<Rightarrow> exec_request \<Rightarrow> bool" where
  "command_file_exists exists path ex =
     (let command = hd (ex_command ex)
      in if CHR ''/'' \<in> set command then exists command
         else list_ex (\<lambda>dir. exists (if dir = [] then command
                                     else if last dir = CHR ''/'' then dir @ command else dir @ ''/'' @ command))
           (split_on (CHR '':'') (unwrap_or (case map_of (ex_env ex) ''PATH'' of Some p \<Rightarrow> Some p | None \<Rightarrow> path) [])))"

definition spawn_failure_exit_code ::
  "(string \<Rightarrow> bool) \<Rightarrow> (string \<Rightarrow> bool) \<Rightarrow> string option \<Rightarrow> exec_request \<Rightarrow> io_error_kind \<Rightarrow> int" where
  "spawn_failure_exit_code is_dir exists path ex kind =
     (if kind \<noteq> KNotFound then EXIT_NOT_INVOKABLE
      else let workdir_missing = (ex_working_dir ex \<noteq> [] \<and> \<not> is_dir (ex_working_dir ex))
           in if workdir_missing \<or> command_file_exists exists path ex then EXIT_NOT_INVOKABLE
              else EXIT_NOT_FOUND)"

text \<open>The OOM kill counters, \<open>oom.rs\<close>.\<close>

definition OOM_KILL_KEY :: string where "OOM_KILL_KEY = ''oom_kill''"

record oom_reading =
  or_cgroup :: "nat option"
  or_vmstat :: "nat option"

fun parse_counter_lines :: "string list \<Rightarrow> nat option" where
  "parse_counter_lines [] = None"
| "parse_counter_lines (line # lines) =
     (case split_once (CHR '' '') line of
        Some (key, val) \<Rightarrow>
          (case (if key = OOM_KILL_KEY then parse_unsigned U64_MAX (str_trim val) else None) of
             Some n \<Rightarrow> Some n
           | None \<Rightarrow> parse_counter_lines lines)
      | None \<Rightarrow> parse_counter_lines lines)"

definition parse_counter :: "string \<Rightarrow> nat option" where
  "parse_counter txt = parse_counter_lines (str_lines txt)"

definition oom_delta :: "nat option \<Rightarrow> nat option \<Rightarrow> nat" where
  "oom_delta before after = (case (before, after) of (Some b, Some a) \<Rightarrow> a - b | _ \<Rightarrow> 0)"

definition kills_since :: "oom_reading \<Rightarrow> oom_reading \<Rightarrow> nat" where
  "kills_since before after =
     max (oom_delta (or_cgroup before) (or_cgroup after)) (oom_delta (or_vmstat before) (or_vmstat after))"

text \<open>\<open>settled_oom_kills\<close>; \<open>reads k\<close> is the counters at the \<open>k\<close>-th reading after the process ended.\<close>

fun settle :: "oom_reading \<Rightarrow> bool \<Rightarrow> (nat \<Rightarrow> oom_reading) \<Rightarrow> nat \<Rightarrow> nat \<Rightarrow> nat \<times> oom_reading" where
  "settle before killed reads k 0 = (kills_since before (reads k), reads k)"
| "settle before killed reads k (Suc left) =
     (if kills_since before (reads k) > 0 \<or> \<not> killed then (kills_since before (reads k), reads k)
      else settle before killed reads (Suc k) left)"

definition settled_oom_kills :: "(nat \<Rightarrow> oom_reading) \<Rightarrow> oom_reading \<Rightarrow> int option \<Rightarrow> nat \<times> oom_reading" where
  "settled_oom_kills reads before status =
     settle before (Option.bind status status_signal = Some SIGKILL_NUMBER) reads 0 OOM_REREADS"

text \<open>
  \<open>pump_output\<close>: in raw mode the reads of one stream, up to the empty one; in line mode its lines, up to
  the first that is not UTF-8.
\<close>

definition pump_raw :: "raw_stream \<Rightarrow> bytes list \<Rightarrow> event list" where
  "pump_raw s reads = map (data_event s) (takeWhile (\<lambda>bs. bs \<noteq> []) reads)"

definition pump_lines :: "raw_stream \<Rightarrow> bytes \<Rightarrow> event list" where
  "pump_lines s bs = map (line_event s) (takeWhile (\<lambda>line. snd (from_utf8 line) = None) (str_lines bs))"

text \<open>
  What happens around one run: the text of the error when the identity or the extra groups do not
  resolve, the spawn error with the step it failed at, the output events in the order the pumps queued them, the wait status, and the
  OOM counters.
\<close>

record process_run =
  pr_identity :: "string option"
  pr_groups :: "string option"
  pr_spawn :: "(string option \<times> io_error_kind \<times> string) option"
  pr_output :: "event list"
  pr_status :: "int option"
  pr_oom_before :: oom_reading
  pr_oom_reads :: "nat \<Rightarrow> oom_reading"

definition end_without_process :: "string \<Rightarrow> int \<Rightarrow> event list" where
  "end_without_process msg code = [line_event Stderr msg, synthetic_exit_event code]"

definition run_process ::
  "(string \<Rightarrow> bool) \<Rightarrow> (string \<Rightarrow> bool) \<Rightarrow> string option \<Rightarrow> exec_request \<Rightarrow> process_run \<Rightarrow> event list" where
  "run_process is_dir exists path ex run =
     (if ex_command ex = [] then end_without_process ''empty command'' EXIT_UNKNOWN
      else (case pr_identity run of
              Some msg \<Rightarrow> end_without_process msg EXIT_NOT_INVOKABLE
            | None \<Rightarrow>
      (case pr_groups run of
         Some msg \<Rightarrow> end_without_process msg EXIT_NOT_INVOKABLE
       | None \<Rightarrow>
      (case pr_spawn run of
         Some (failed_step, kind, msg) \<Rightarrow>
           end_without_process
             (case failed_step of
                Some step \<Rightarrow> ''spawn failed at '' @ step @ '': '' @ msg
              | None \<Rightarrow> ''spawn failed: '' @ msg)
             (spawn_failure_exit_code is_dir exists path ex kind)
       | None \<Rightarrow>
           pr_output run @
           [exit_event (pr_status run)
              (fst (settled_oom_kills (pr_oom_reads run) (pr_oom_before run) (pr_status run)))]))))"

text \<open>The writer task: it stops at the first frame it cannot write.\<close>

fun write_events :: "(event \<Rightarrow> bytes) \<Rightarrow> event list \<Rightarrow> bytes" where
  "write_events encode [] = []"
| "write_events encode (ev # evs) =
     (case write_frame (encode ev) of Inl _ \<Rightarrow> [] | Inr w \<Rightarrow> w @ write_events encode evs)"

text \<open>\<open>apply_request\<close>; \<open>named\<close> says which signal numbers the system knows.\<close>

datatype child_action = QueueStdin bytes | SignalGroup int | ResizePty nat nat | NoAction

definition apply_request :: "(int \<Rightarrow> bool) \<Rightarrow> bool \<Rightarrow> request_kind \<Rightarrow> child_action" where
  "apply_request named has_pty kind =
     (case kind of
        RqStdin bs \<Rightarrow> QueueStdin bs
      | RqKill \<Rightarrow> SignalGroup SIGKILL_NUMBER
      | RqSignal signo \<Rightarrow> if named signo then SignalGroup signo else NoAction
      | RqResize rows cols \<Rightarrow> if has_pty then ResizePty rows cols else NoAction
      | _ \<Rightarrow> NoAction)"

text \<open>\<open>frame_task\<close>: the actions the inbound frames cause, up to a malformed frame or the end.\<close>

function frame_task :: "(bytes \<Rightarrow> request option) \<Rightarrow> (int \<Rightarrow> bool) \<Rightarrow> bool \<Rightarrow> bytes \<Rightarrow> child_action list" where
  "frame_task decode named has_pty s =
     (case read_frame s of
        Inr (Some (frame, rest)) \<Rightarrow>
          (case decode frame of
             None \<Rightarrow> []
           | Some None \<Rightarrow> frame_task decode named has_pty rest
           | Some (Some kind) \<Rightarrow> apply_request named has_pty kind # frame_task decode named has_pty rest)
      | _ \<Rightarrow> [])"
  by pat_completeness auto

termination
  by (relation "measure (\<lambda>(_, _, _, s). length s)") (auto dest: read_frame_shorter)

declare frame_task.simps [simp del]

section \<open>The daemon's side of a process\<close>

datatype stream_event_kind = SeStdout | SeStderr | SeExit | SeData raw_stream bytes

text \<open>\<open>StreamEvent\<close> without the two fields the daemon's clock fills in.\<close>

record stream_event =
  se_kind :: stream_event_kind
  se_line :: string
  se_exit_code :: "int option"
  se_wait_status :: "int option"
  se_oom_kills :: nat

definition raw_stream_of :: "int \<Rightarrow> raw_stream option" where
  "raw_stream_of tag = (if tag = STREAM_STDOUT then Some Stdout else if tag = STREAM_STDERR then Some Stderr else None)"

definition raw_wait_status :: "int \<Rightarrow> int \<Rightarrow> int option" where
  "raw_wait_status code wait_status = (if wait_status \<noteq> 0 \<or> code = 0 then Some wait_status else None)"

datatype inbound_step = Forward stream_event | ForwardLast stream_event | Skip

definition translate :: "event \<Rightarrow> inbound_step" where
  "translate ev =
     (case ev of
        Some (EvStdout line) \<Rightarrow>
          Forward \<lparr>se_kind = SeStdout, se_line = line, se_exit_code = None, se_wait_status = None, se_oom_kills = 0\<rparr>
      | Some (EvStderr line) \<Rightarrow>
          Forward \<lparr>se_kind = SeStderr, se_line = line, se_exit_code = None, se_wait_status = None, se_oom_kills = 0\<rparr>
      | Some (EvData tag bs) \<Rightarrow>
          (case raw_stream_of tag of
             None \<Rightarrow> Skip
           | Some s \<Rightarrow>
               Forward \<lparr>se_kind = SeData s bs, se_line = [], se_exit_code = None, se_wait_status = None, se_oom_kills = 0\<rparr>)
      | Some (EvExited code ws oom) \<Rightarrow>
          ForwardLast \<lparr>se_kind = SeExit, se_line = [], se_exit_code = Some code,
            se_wait_status = raw_wait_status code ws, se_oom_kills = oom\<rparr>
      | _ \<Rightarrow> Skip)"

text \<open>
  The inbound task: the events it puts on the output channel. \<open>room\<close> is how many sends succeed before
  the consumer is gone.
\<close>

function inbound :: "(bytes \<Rightarrow> event option) \<Rightarrow> nat \<Rightarrow> bytes \<Rightarrow> stream_event list" where
  "inbound decode room s =
     (case host_read_frame s of
        Inr (Some (frame, rest)) \<Rightarrow>
          (case decode frame of
             None \<Rightarrow> []
           | Some ev \<Rightarrow>
               (case translate ev of
                  Skip \<Rightarrow> inbound decode room rest
                | ForwardLast e \<Rightarrow> if room = 0 then [] else [e]
                | Forward e \<Rightarrow> if room = 0 then [] else e # inbound decode (room - 1) rest))
      | _ \<Rightarrow> [])"
  by pat_completeness auto

termination
  by (relation "measure (\<lambda>(_, _, s). length s)") (auto simp: same_frames dest: read_frame_shorter)

declare inbound.simps [simp del]

text \<open>
  The outbound task: what \<open>select!\<close> picks, one branch at a time. A branch is polled only while its
  channel is open, a failed write ends the task, and so does the kill branch.
\<close>

datatype process_control = Resize nat nat | Signal int

definition control_request :: "process_control \<Rightarrow> request_kind" where
  "control_request ctl = (case ctl of Resize rows cols \<Rightarrow> RqResize rows cols | Signal signo \<Rightarrow> RqSignal signo)"

datatype outbound_branch = StdinChunk bytes | StdinClosed | ControlSent process_control | ControlClosed | KillSent | KillDropped

record outbound_state =
  ob_stdin_open :: bool
  ob_control_open :: bool
  ob_running :: bool

definition outbound_new :: outbound_state where
  "outbound_new = \<lparr>ob_stdin_open = True, ob_control_open = True, ob_running = True\<rparr>"

definition outbound_step :: "outbound_branch \<Rightarrow> bool \<Rightarrow> outbound_state \<Rightarrow> request_kind list \<times> outbound_state" where
  "outbound_step branch write_ok st =
     (if \<not> ob_running st then ([], st)
      else (case branch of
              StdinChunk bs \<Rightarrow>
                if \<not> ob_stdin_open st then ([], st)
                else if write_ok then ([RqStdin bs], st) else ([], st\<lparr>ob_running := False\<rparr>)
            | StdinClosed \<Rightarrow>
                if \<not> ob_stdin_open st then ([], st)
                else (if write_ok then [RqStdin []] else [], st\<lparr>ob_stdin_open := False\<rparr>)
            | ControlSent ctl \<Rightarrow>
                if \<not> ob_control_open st then ([], st)
                else if write_ok then ([control_request ctl], st) else ([], st\<lparr>ob_running := False\<rparr>)
            | ControlClosed \<Rightarrow> ([], st\<lparr>ob_control_open := False\<rparr>)
            | KillSent \<Rightarrow> (if write_ok then [RqKill] else [], st\<lparr>ob_running := False\<rparr>)
            | KillDropped \<Rightarrow> ([], st\<lparr>ob_running := False\<rparr>)))"

fun outbound :: "(outbound_branch \<times> bool) list \<Rightarrow> outbound_state \<Rightarrow> request_kind list" where
  "outbound [] st = []"
| "outbound ((branch, write_ok) # steps) st =
     (let (sent, st') = outbound_step branch write_ok st in sent @ outbound steps st')"

text \<open>\<open>drive_exec\<close>: the opening frame.\<close>

definition opening_exec ::
  "string list \<Rightarrow> string option \<Rightarrow> (string \<times> string) list \<Rightarrow> bool \<Rightarrow> bool \<Rightarrow> string \<Rightarrow> request" where
  "opening_exec command working_dir env tty raw user =
     Some (RqExec \<lparr>ex_command = command, ex_working_dir = unwrap_or working_dir [], ex_env = env, ex_tty = tty,
       ex_user = user, ex_raw = raw\<rparr>)"

section \<open>What the daemon sees of a process\<close>

text \<open>The events the daemon takes from a list of events it can decode.\<close>

fun deliver :: "nat \<Rightarrow> event list \<Rightarrow> stream_event list" where
  "deliver room [] = []"
| "deliver room (ev # evs) =
     (case translate ev of
        Skip \<Rightarrow> deliver room evs
      | ForwardLast e \<Rightarrow> if room = 0 then [] else [e]
      | Forward e \<Rightarrow> if room = 0 then [] else e # deliver (room - 1) evs)"

lemma inbound_write_events:
  assumes "codec (set evs) encode decode"
  shows "inbound decode room (write_events encode evs) = deliver room (takeWhile (\<lambda>ev. fits (encode ev)) evs)"
  using assms
proof (induction evs arbitrary: room)
  case Nil
  then show ?case by (simp add: inbound.simps same_frames)
next
  case (Cons ev evs)
  show ?case
  proof (cases "fits (encode ev)")
    case True
    then have w: "write_events encode (ev # evs) = to_be_bytes (length (encode ev)) @ encode ev @ write_events encode evs"
      using write_frame_ok [of "encode ev" "to_be_bytes (length (encode ev)) @ encode ev"] by simp
    have "inbound decode r (write_events encode (ev # evs)) =
        (case translate ev of
           Skip \<Rightarrow> inbound decode r (write_events encode evs)
         | ForwardLast e \<Rightarrow> if r = 0 then [] else [e]
         | Forward e \<Rightarrow> if r = 0 then [] else e # inbound decode (r - 1) (write_events encode evs))" for r
      using True Cons.prems unfolding w
      by (subst inbound.simps) (simp add: same_frames read_written codec_def cong: inbound_step.case_cong)
    moreover have "codec (set evs) encode decode" using Cons.prems by (simp add: codec_def)
    ultimately show ?thesis using True Cons.IH by (simp split: inbound_step.splits)
  next
    case False
    then have "write_events encode (ev # evs) = []"
      using write_frame_ok [of "encode ev"] by (auto split: sum.splits)
    with False show ?thesis by (auto simp: inbound.simps same_frames)
  qed
qed

definition bytes_of :: "raw_stream \<Rightarrow> stream_event list \<Rightarrow> bytes" where
  "bytes_of s es = concat (map (\<lambda>e. case se_kind e of SeData s' bs \<Rightarrow> if s' = s then bs else [] | _ \<Rightarrow> []) es)"

definition sent_bytes :: "raw_stream \<Rightarrow> event list \<Rightarrow> bytes" where
  "sent_bytes s evs = concat (map (\<lambda>ev. case ev of Some (EvData t bs) \<Rightarrow> if t = stream_tag s then bs else [] | _ \<Rightarrow> []) evs)"

lemma stream_tags [simp]:
  "raw_stream_of (stream_tag s) = Some s" "stream_tag s = stream_tag s' \<longleftrightarrow> s = s'"
  by (cases s; cases s'; simp add: raw_stream_of_def stream_tag_def STREAM_STDOUT_def STREAM_STDERR_def)+

lemma translate_data [simp]:
  "translate (data_event s bs) =
     Forward \<lparr>se_kind = SeData s bs, se_line = [], se_exit_code = None, se_wait_status = None, se_oom_kills = 0\<rparr>"
  by (simp add: translate_def data_event_def)

text \<open>What the daemon makes of the exit event: the code or \<open>-1\<close>, and the kernel's status when there is one.\<close>

definition exit_seen :: "int option \<Rightarrow> nat \<Rightarrow> stream_event" where
  "exit_seen status oom =
     \<lparr>se_kind = SeExit, se_line = [], se_exit_code = Some (unwrap_or (Option.bind status status_code) (-1)),
      se_wait_status = Some (unwrap_or status 65280), se_oom_kills = oom\<rparr>"

lemma translate_exit [simp]: "translate (exit_event status oom) = ForwardLast (exit_seen status oom)"
proof (cases status)
  case None
  then show ?thesis
    by (simp add: exit_event_def translate_def exited_event_def synthetic_exit_event_def EXIT_UNKNOWN_def raw_wait_status_def
        exit_seen_def)
next
  case (Some raw)
  then show ?thesis
    by (auto simp: exit_event_def translate_def exited_event_def raw_wait_status_def exit_seen_def status_code_def
        EXIT_UNKNOWN_def)
qed

definition is_data :: "event \<Rightarrow> bool" where
  "is_data ev \<longleftrightarrow> (\<exists>s bs. ev = data_event s bs)"

lemma bytes_Cons [simp]:
  "bytes_of s [] = []" "sent_bytes s [] = []"
  "sent_bytes s (data_event s' bs # evs) = (if s = s' then bs else []) @ sent_bytes s evs"
  "se_kind e = SeData s' bs \<Longrightarrow> bytes_of s (e # es) = (if s' = s then bs else []) @ bytes_of s es"
  by (simp_all add: bytes_of_def sent_bytes_def data_event_def)

lemma deliver_data:
  assumes "list_all is_data evs" "length evs < room"
  shows "\<exists>es. deliver room (evs @ [exit_event status oom]) = es @ [exit_seen status oom] \<and>
    (\<forall>s. bytes_of s es = sent_bytes s evs) \<and> (\<forall>e \<in> set es. se_kind e \<noteq> SeExit)"
  using assms
proof (induction evs arbitrary: room)
  case (Cons ev evs)
  then obtain s bs where ev: "ev = data_event s bs" by (auto simp: is_data_def)
  have "list_all is_data evs" "length evs < room - 1" using Cons.prems by auto
  from Cons.IH [OF this] obtain es where
    "deliver (room - 1) (evs @ [exit_event status oom]) = es @ [exit_seen status oom]"
    "\<forall>s. bytes_of s es = sent_bytes s evs" "\<forall>e \<in> set es. se_kind e \<noteq> SeExit" by blast
  with Cons.prems ev show ?case
    by (intro exI [of _ "\<lparr>se_kind = SeData s bs, se_line = [], se_exit_code = None, se_wait_status = None, se_oom_kills = 0\<rparr> # es"])
       auto
qed simp

lemma pump_raw_data: "list_all is_data (pump_raw s reads)"
  by (auto simp: pump_raw_def list_all_iff is_data_def)

lemma shuffles_data: "evs \<in> shuffles (pump_raw Stdout outs) (pump_raw Stderr errs) \<Longrightarrow> list_all is_data evs"
  using set_shuffles [of evs] pump_raw_data by (fastforce simp: list_all_iff)

lemma sent_shuffles:
  "evs \<in> shuffles xs ys \<Longrightarrow> sent_bytes s ys = [] \<Longrightarrow> sent_bytes s evs = sent_bytes s xs"
proof (induction xs ys arbitrary: evs rule: shuffles.induct)
  case (3 x xs y ys)
  then show ?case by (auto simp: sent_bytes_def)
qed (auto simp: sent_bytes_def)

lemma sent_pump:
  "sent_bytes s (pump_raw s reads) = concat (takeWhile (\<lambda>bs. bs \<noteq> []) reads)"
  "s \<noteq> s' \<Longrightarrow> sent_bytes s (pump_raw s' reads) = []"
  by (auto simp: sent_bytes_def pump_raw_def data_event_def o_def)

lemma sent_both:
  assumes "evs \<in> shuffles (pump_raw Stdout outs) (pump_raw Stderr errs)"
  shows "sent_bytes Stdout evs = concat (takeWhile (\<lambda>bs. bs \<noteq> []) outs)"
    "sent_bytes Stderr evs = concat (takeWhile (\<lambda>bs. bs \<noteq> []) errs)"
  using sent_shuffles [OF assms, of Stdout] assms [unfolded shuffles_commutes [of "pump_raw Stdout outs"], THEN sent_shuffles, of Stderr]
  by (simp_all add: sent_pump)

text \<open>
  C7: A process that starts and streams raw output is seen whole by the daemon. With both streams read to
  their end and queued in any interleaving, the daemon's events carry exactly the bytes the process wrote
  to each stream, in order, and then one exit event, the last: its exit code, or \<open>-1\<close> when a signal ended
  it or the wait failed, and the kernel's own wait status when there was one.
\<close>

theorem process_output_reaches_daemon:
  assumes "ex_command ex \<noteq> []" "pr_identity run = None" "pr_groups run = None" "pr_spawn run = None"
    and "pr_output run \<in> shuffles (pump_raw Stdout outs) (pump_raw Stderr errs)"
    and "evs = run_process is_dir exists path ex run"
    and "codec (set evs) encode decode" "list_all (\<lambda>ev. fits (encode ev)) evs" "length evs \<le> room"
  shows "\<exists>es oom. inbound decode room (write_events encode evs) = es @ [exit_seen (pr_status run) oom] \<and>
    bytes_of Stdout es = concat (takeWhile (\<lambda>bs. bs \<noteq> []) outs) \<and>
    bytes_of Stderr es = concat (takeWhile (\<lambda>bs. bs \<noteq> []) errs) \<and>
    (\<forall>e \<in> set es. se_kind e \<noteq> SeExit)"
proof -
  let ?oom = "fst (settled_oom_kills (pr_oom_reads run) (pr_oom_before run) (pr_status run))"
  have evs: "evs = pr_output run @ [exit_event (pr_status run) ?oom]"
    using assms(1-4,6) by (simp add: run_process_def)
  have "takeWhile (\<lambda>ev. fits (encode ev)) evs = evs"
    using assms(8) unfolding list_all_iff by (subst takeWhile_eq_all_conv) blast
  then have "inbound decode room (write_events encode evs) = deliver room evs"
    using inbound_write_events [OF assms(7)] by metis
  moreover have "length (pr_output run) < room" using assms(9) evs by simp
  ultimately show ?thesis
    using deliver_data [OF shuffles_data [OF assms(5)], of room "pr_status run" ?oom] sent_both [OF assms(5)] evs
    by metis
qed

text \<open>A codec for the events of a small run, and that run.\<close>

definition demo_encode :: "event \<Rightarrow> bytes" where
  "demo_encode ev =
     (case ev of
        Some (EvData t bs) \<Rightarrow> CHR ''d'' # char_of (nat t) # bs
      | Some (EvExited code ws oom) \<Rightarrow> [CHR ''x'', char_of (nat code), char_of (nat (ws div 256)), char_of oom]
      | Some (EvStderr line) \<Rightarrow> CHR ''e'' # line
      | Some (EvStdout line) \<Rightarrow> CHR ''o'' # line
      | _ \<Rightarrow> ''?'')"

definition demo_decode :: "bytes \<Rightarrow> event option" where
  "demo_decode bs =
     (case bs of
        c # r \<Rightarrow>
          if c = CHR ''d'' \<and> r \<noteq> [] then Some (Some (EvData (int (of_char (hd r))) (tl r)))
          else if c = CHR ''x'' \<and> length r = 3
          then Some (Some (EvExited (int (of_char (r ! 0))) (int (of_char (r ! 1)) * 256) (of_char (r ! 2))))
          else if c = CHR ''e'' then Some (Some (EvStderr r))
          else if c = CHR ''o'' then Some (Some (EvStdout r))
          else None
      | [] \<Rightarrow> None)"

definition demo_exec :: exec_request where
  "demo_exec = \<lparr>ex_command = [''make''], ex_working_dir = [], ex_env = [], ex_tty = False, ex_user = [], ex_raw = True\<rparr>"

definition demo_run :: "event list \<Rightarrow> process_run" where
  "demo_run out =
     \<lparr>pr_identity = None, pr_groups = None, pr_spawn = None, pr_output = out, pr_status = Some 512,
      pr_oom_before = \<lparr>or_cgroup = Some 1, or_vmstat = None\<rparr>, pr_oom_reads = (\<lambda>_. \<lparr>or_cgroup = Some 1, or_vmstat = Some 4\<rparr>)\<rparr>"

definition demo_output :: "event list" where
  "demo_output = [data_event Stdout ''a'', data_event Stderr ''warn'', data_event Stdout ''b'']"

abbreviation demo_events :: "event list \<Rightarrow> event list" where
  "demo_events out \<equiv> run_process (\<lambda>_. True) (\<lambda>_. True) None demo_exec (demo_run out)"

lemma demo_run_events: "demo_events out = out @ [Some (EvExited 2 512 0)]"
  by (simp add: run_process_def demo_exec_def demo_run_def settled_oom_kills_def exit_event_def exited_event_def status_code_def
      status_signal_def SIGKILL_NUMBER_def OOM_REREADS_def kills_since_def oom_delta_def eval_nat_numeral)

theorem process_output_reaches_daemon_witness:
  "\<exists>es oom. inbound demo_decode 4 (write_events demo_encode (demo_events demo_output)) = es @ [exit_seen (Some 512) oom] \<and>
    bytes_of Stdout es = ''ab'' \<and> bytes_of Stderr es = ''warn'' \<and> (\<forall>e \<in> set es. se_kind e \<noteq> SeExit)"
proof -
  have 1: "ex_command demo_exec \<noteq> []" "pr_identity (demo_run demo_output) = None" "pr_groups (demo_run demo_output) = None"
    "pr_spawn (demo_run demo_output) = None" "pr_status (demo_run demo_output) = Some 512"
    by (simp_all add: demo_exec_def demo_run_def)
  have 2: "pr_output (demo_run demo_output) \<in> shuffles (pump_raw Stdout [''a'', ''b'', []]) (pump_raw Stderr [''warn''])"
    by (simp add: demo_run_def demo_output_def pump_raw_def Cons_in_shuffles_iff)
  have 3: "codec (set (demo_events demo_output)) demo_encode demo_decode"
    "list_all (\<lambda>ev. fits (demo_encode ev)) (demo_events demo_output)" "length (demo_events demo_output) \<le> 4"
    by (simp_all add: demo_run_events demo_output_def data_event_def stream_tag_def STREAM_STDOUT_def STREAM_STDERR_def
        codec_def demo_encode_def demo_decode_def MAX_FRAME_BYTES_def nth_Cons')
  show ?thesis
    using process_output_reaches_daemon [OF 1(1-4) 2 refl 3] unfolding 1(5) by simp
qed

lemma deliver_no_exit: "list_all (\<lambda>ev. \<forall>e. translate ev \<noteq> ForwardLast e) evs \<Longrightarrow> \<forall>e \<in> set (deliver room evs). se_kind e \<noteq> SeExit"
proof (induction evs arbitrary: room)
  case (Cons ev evs)
  have "translate ev = Forward e \<Longrightarrow> se_kind e \<noteq> SeExit" for e
    by (auto simp: translate_def split: option.splits event_kind.splits)
  with Cons show ?case by (auto split: inbound_step.splits)
qed simp

lemma pump_lines_not_exit: "ev \<in> set (pump_lines s bs) \<Longrightarrow> translate ev \<noteq> ForwardLast e"
  by (cases s) (auto simp: pump_lines_def translate_def line_event_def)

text \<open>
  C11: In line mode a process that writes one line too long for a frame loses its exit event. The writer task
  ends at the frame it cannot write, so the daemon's events stop there and none of them is the exit,
  although the process ended with a status.
\<close>

theorem long_line_loses_exit:
  assumes "ex_command ex \<noteq> []" "pr_identity run = None" "pr_groups run = None" "pr_spawn run = None"
    and "pr_output run \<in> shuffles (pump_lines Stdout out) (pump_lines Stderr err)"
    and "line_event s line \<in> set (pr_output run)" "MAX_FRAME_BYTES < length line"
    and "length line \<le> length (encode (line_event s line))"
    and "evs = run_process is_dir exists path ex run" "codec (set evs) encode decode"
  shows "\<forall>e \<in> set (inbound decode room (write_events encode evs)). se_kind e \<noteq> SeExit"
proof -
  let ?fits = "\<lambda>ev. fits (encode ev)"
  obtain ev where evs: "evs = pr_output run @ [ev]" using assms(1-4,9) by (simp add: run_process_def)
  have "\<not> ?fits (line_event s line)" using assms(7,8) by simp
  with assms(6) have "takeWhile ?fits evs = takeWhile ?fits (pr_output run)"
    unfolding evs by (subst takeWhile_append1) auto
  moreover have "\<forall>ev \<in> set (pr_output run). \<forall>e. translate ev \<noteq> ForwardLast e"
    using set_shuffles [OF assms(5)] pump_lines_not_exit by auto
  ultimately have "list_all (\<lambda>ev. \<forall>e. translate ev \<noteq> ForwardLast e) (takeWhile ?fits evs)"
    by (auto simp: list_all_iff dest!: set_takeWhileD)
  then show ?thesis unfolding inbound_write_events [OF assms(10)] by (rule deliver_no_exit)
qed

lemma ascii_valid: "snd (from_utf8 (replicate n (CHR ''a''))) = None"
proof (induction n)
  case (Suc n)
  have "utf8_step (replicate (Suc n) (CHR ''a'')) = Good 1" by (simp add: utf8_step_def utf8_width_def byte_def)
  with Suc show ?case by (simp add: from_utf8_Good)
qed (simp add: from_utf8.simps)

theorem long_line_loses_exit_witness:
  "\<exists>long. MAX_FRAME_BYTES < length long \<and> snd (from_utf8 long) = None \<and>
    (\<forall>e \<in> set (inbound demo_decode 9 (write_events demo_encode (demo_events (pump_lines Stdout long)))). se_kind e \<noteq> SeExit)"
proof -
  let ?long = "replicate 2097153 (CHR ''a'')"
  have lines: "pump_lines Stdout ?long = [line_event Stdout ?long]"
    by (simp add: pump_lines_def str_lines_def split_on_single ascii_valid Let_def)
  have "\<forall>e \<in> set (inbound demo_decode 9 (write_events demo_encode (demo_events (pump_lines Stdout ?long)))). se_kind e \<noteq> SeExit"
  proof (rule long_line_loses_exit [where s = Stdout and line = ?long and out = ?long and err = "[]"])
    show "pr_output (demo_run (pump_lines Stdout ?long)) \<in> shuffles (pump_lines Stdout ?long) (pump_lines Stderr [])"
      by (simp add: demo_run_def pump_lines_def str_lines_def)
    show "codec (set (demo_events (pump_lines Stdout ?long))) demo_encode demo_decode"
      unfolding demo_run_events lines by (simp add: codec_def demo_encode_def demo_decode_def line_event_def nth_Cons')
  qed (simp_all add: demo_exec_def demo_run_def lines MAX_FRAME_BYTES_def demo_encode_def line_event_def)
  then show ?thesis
    by (intro exI [of _ ?long]) (simp only: MAX_FRAME_BYTES_def length_replicate ascii_valid simp_thms, simp)
qed

lemma read_cut:
  assumes "fits bs" "k < 4 + length bs"
  shows "read_frame (take k (to_be_bytes (length bs) @ bs @ rest)) =
    (if k < 4 then Inr None else Inl (io_err KUnexpectedEof ''early eof'' []))"
proof (cases "k < 4")
  case True
  then show ?thesis by (simp add: read_frame_def read_exact_def io_err_def)
next
  case False
  have len: "from_be_bytes (to_be_bytes (length bs)) = length bs"
    using assms(1) by (intro be_bytes_round) (simp add: MAX_FRAME_BYTES_def)
  have t: "take k (to_be_bytes (length bs) @ bs @ rest) = to_be_bytes (length bs) @ take (k - 4) bs" "k - 4 < length bs"
    using False assms(2) by simp_all
  then show ?thesis using False assms(1) unfolding t(1) by (simp add: read_frame_def read_exact_def len MAX_FRAME_BYTES_def)
qed

text \<open>
  C12: A frame that is written is read back whole, and what follows it stays on the stream. If the stream
  ends inside the payload the reader fails, but if it ends inside the four bytes of the length the reader
  reports the clean end that its contract promises only at a frame boundary.
\<close>

theorem frame_round_trip_and_cut:
  assumes "write_frame bs = Inr w"
  shows "host_read_frame (w @ rest) = Inr (Some (bs, rest)) \<and>
    (\<forall>k < length w. host_read_frame (take k w) =
      (if k < 4 then Inr None else Inl (io_err KUnexpectedEof ''early eof'' [])))"
proof (intro conjI allI impI)
  have w: "w = to_be_bytes (length bs) @ bs" and ok: "fits bs" using assms write_frame_ok by auto
  then show "host_read_frame (w @ rest) = Inr (Some (bs, rest))" by (simp add: same_frames read_written)
  fix k assume "k < length w"
  then show "host_read_frame (take k w) = (if k < 4 then Inr None else Inl (io_err KUnexpectedEof ''early eof'' []))"
    using read_cut [OF ok, of k "[]"] by (simp add: w same_frames)
qed

theorem frame_round_trip_and_cut_witness:
  "write_frame ''hi'' = Inr ([CHR 0x00, CHR 0x00, CHR 0x00, CHR 0x02] @ ''hi'') \<and>
   host_read_frame (take 3 ([CHR 0x00, CHR 0x00, CHR 0x00, CHR 0x02] @ ''hi'')) = Inr None \<and>
   host_read_frame (take 5 ([CHR 0x00, CHR 0x00, CHR 0x00, CHR 0x02] @ ''hi'')) =
     Inl (io_err KUnexpectedEof ''early eof'' [])"
proof -
  have "write_frame ''hi'' = Inr ([CHR 0x00, CHR 0x00, CHR 0x00, CHR 0x02] @ ''hi'')"
    by (simp add: write_frame_def MAX_FRAME_BYTES_def to_be_bytes_def) code_simp
  from this frame_round_trip_and_cut [OF this, of "[]", THEN conjunct2, rule_format, of 3]
    frame_round_trip_and_cut [OF this, of "[]", THEN conjunct2, rule_format, of 5] show ?thesis by simp
qed

end
