(* ===== verification/Cgroup.thy ===== *)
theory Cgroup
  imports Agent Wire
begin

text \<open>
  The sandbox cgroup as the guest agent changes it: \<open>ward-agent/src/limits.rs\<close>, \<open>cgroup_limits.rs\<close>,
  \<open>cgroup.rs\<close> and \<open>freezer.rs\<close>. The guest kernel is a parameter: it decides, write by write, whether a
  text is accepted and what the files hold afterwards.
\<close>

section \<open>Files and writes\<close>

datatype cg_file = RootFile string | GroupFile string

type_synonym cg_files = "cg_file \<rightharpoonup> string"
type_synonym cg_kernel = "nat \<Rightarrow> cg_file \<Rightarrow> string \<Rightarrow> cg_files \<Rightarrow> io_error + cg_files"

text \<open>The files, and how many writes were tried.\<close>

record cg_state =
  st_files :: cg_files
  st_tried :: nat

definition cg_write :: "cg_kernel \<Rightarrow> cg_file \<Rightarrow> string \<Rightarrow> cg_state \<Rightarrow> unit io \<times> cg_state" where
  "cg_write kern f txt st =
     (case kern (st_tried st) f txt (st_files st) of
        Inl err \<Rightarrow> (Inl err, st\<lparr>st_tried := Suc (st_tried st)\<rparr>)
      | Inr fs \<Rightarrow> (Inr (), st\<lparr>st_files := fs, st_tried := Suc (st_tried st)\<rparr>))"

definition cg_read :: "cg_file \<Rightarrow> cg_state \<Rightarrow> string io" where
  "cg_read f st = (case st_files st f of Some txt \<Rightarrow> Inr txt | None \<Rightarrow> Inl (io_err KNotFound ''no such file'' []))"

text \<open>The \<open>?\<close> operator on a computation that also changes the files.\<close>

definition and_do :: "('e + 'a) \<times> cg_state \<Rightarrow> ('a \<Rightarrow> cg_state \<Rightarrow> ('e + 'b) \<times> cg_state) \<Rightarrow> ('e + 'b) \<times> cg_state" where
  "and_do r k = (case r of (Inl err, st) \<Rightarrow> (Inl err, st) | (Inr a, st) \<Rightarrow> k a st)"

definition do_when :: "bool \<Rightarrow> (cg_state \<Rightarrow> ('e + unit) \<times> cg_state) \<Rightarrow> cg_state \<Rightarrow> ('e + unit) \<times> cg_state" where
  "do_when b act st = (if b then act st else (Inr (), st))"

definition CONTROLLERS_FILE :: string where "CONTROLLERS_FILE = ''cgroup.controllers''"
definition SUBTREE_CONTROL_FILE :: string where "SUBTREE_CONTROL_FILE = ''cgroup.subtree_control''"
definition MEMORY_MAX_FILE :: string where "MEMORY_MAX_FILE = ''memory.max''"
definition CPU_MAX_FILE :: string where "CPU_MAX_FILE = ''cpu.max''"
definition PIDS_MAX_FILE :: string where "PIDS_MAX_FILE = ''pids.max''"
definition CPU_CONTROLLER :: string where "CPU_CONTROLLER = ''cpu''"
definition PIDS_CONTROLLER :: string where "PIDS_CONTROLLER = ''pids''"
definition UNLIMITED_TEXT :: string where "UNLIMITED_TEXT = ''max''"
definition CPU_PERIOD_MICROS :: nat where "CPU_PERIOD_MICROS = 100000"
definition MIN_CPU_QUOTA_MICROS :: nat where "MIN_CPU_QUOTA_MICROS = 1000"

definition has_controller :: "string \<Rightarrow> string \<Rightarrow> bool" where
  "has_controller available name \<longleftrightarrow> name \<in> set (split_whitespace available)"

section \<open>Changing the limits\<close>

record limits =
  li_memory_bytes :: "nat option"
  li_nano_cpus :: "nat option"
  li_pids_max :: "nat option"

definition limit_text :: "nat \<Rightarrow> string" where
  "limit_text n = (if n = 0 then UNLIMITED_TEXT else dec n)"

definition cpu_max_text :: "nat \<Rightarrow> string" where
  "cpu_max_text nano_cpus =
     (if nano_cpus = 0 then UNLIMITED_TEXT @ '' '' @ dec CPU_PERIOD_MICROS
      else dec (max (nano_cpus * CPU_PERIOD_MICROS div NANOS_PER_CPU) MIN_CPU_QUOTA_MICROS) @ '' '' @ dec CPU_PERIOD_MICROS)"

text \<open>The errors of \<open>write_all_or_none\<close>: the failed write, and the files that could not be put back.\<close>

type_synonym limits_error = "io_error \<times> cg_file list"

fun put_back :: "cg_kernel \<Rightarrow> (cg_file \<times> string) list \<Rightarrow> cg_state \<Rightarrow> cg_file list \<times> cg_state" where
  "put_back kern [] st = ([], st)"
| "put_back kern ((f, before) # rest) st =
     (let (r, st1) = cg_write kern f (str_trim before) st; (stuck, st2) = put_back kern rest st1
      in (case r of Inl _ \<Rightarrow> (f # stuck, st2) | Inr _ \<Rightarrow> (stuck, st2)))"

fun write_loop ::
  "cg_kernel \<Rightarrow> (cg_file \<times> string) list \<Rightarrow> ((cg_file \<times> string) \<times> string) list \<Rightarrow> cg_state \<Rightarrow>
   (limits_error + unit) \<times> cg_state" where
  "write_loop kern written [] st = (Inr (), st)"
| "write_loop kern written (((f, txt), before) # rest) st =
     (case cg_write kern f txt st of
        (Inr _, st1) \<Rightarrow> write_loop kern (written @ [(f, before)]) rest st1
      | (Inl err, st1) \<Rightarrow> (let (stuck, st2) = put_back kern written st1 in (Inl (err, stuck), st2)))"

definition write_all_or_none ::
  "cg_kernel \<Rightarrow> (cg_file \<times> string) list \<Rightarrow> cg_state \<Rightarrow> (limits_error + unit) \<times> cg_state" where
  "write_all_or_none kern writes st =
     (case collect_results (\<lambda>(f, _). cg_read f st) writes of
        Inl err \<Rightarrow> (Inl (err, []), st)
      | Inr old \<Rightarrow> write_loop kern [] (zip writes old) st)"

definition enable :: "cg_kernel \<Rightarrow> string \<Rightarrow> cg_state \<Rightarrow> (limits_error + unit) \<times> cg_state" where
  "enable kern controller st =
     (case cg_read (RootFile SUBTREE_CONTROL_FILE) st of
        Inl err \<Rightarrow> (Inl (err, []), st)
      | Inr enabled \<Rightarrow>
          if has_controller enabled controller then (Inr (), st)
          else (case cg_write kern (RootFile SUBTREE_CONTROL_FILE) (''+'' @ controller) st of
                  (Inl err, st1) \<Rightarrow> (Inl (err, []), st1)
                | (Inr _, st1) \<Rightarrow> (Inr (), st1)))"

definition limit_writes :: "limits \<Rightarrow> (cg_file \<times> string) list" where
  "limit_writes li =
     (case li_memory_bytes li of Some n \<Rightarrow> [(GroupFile MEMORY_MAX_FILE, limit_text n)] | None \<Rightarrow> []) @
     (case li_nano_cpus li of Some n \<Rightarrow> [(GroupFile CPU_MAX_FILE, cpu_max_text n)] | None \<Rightarrow> []) @
     (case li_pids_max li of Some n \<Rightarrow> [(GroupFile PIDS_MAX_FILE, limit_text n)] | None \<Rightarrow> [])"

definition unsupported :: "string \<Rightarrow> limits_error" where
  "unsupported why = (io_err KUnsupported why [], [])"

definition limits_apply :: "cg_kernel \<Rightarrow> limits \<Rightarrow> cg_state \<Rightarrow> (limits_error + unit) \<times> cg_state" where
  "limits_apply kern li st =
     (if li_memory_bytes li \<noteq> None \<and> st_files st (GroupFile MEMORY_MAX_FILE) = None
      then (Inl (unsupported ''the guest kernel has no memory controller''), st)
      else (case cg_read (RootFile CONTROLLERS_FILE) st of
              Inl err \<Rightarrow> (Inl (err, []), st)
            | Inr available \<Rightarrow>
                if li_nano_cpus li \<noteq> None \<and> \<not> has_controller available CPU_CONTROLLER
                then (Inl (unsupported ''the guest kernel has no cpu controller''), st)
                else if li_pids_max li \<noteq> None \<and> \<not> has_controller available PIDS_CONTROLLER
                then (Inl (unsupported ''the guest kernel has no pids controller''), st)
                else and_do (do_when (li_nano_cpus li \<noteq> None) (enable kern CPU_CONTROLLER) st) (\<lambda>_ st.
                     and_do (do_when (li_pids_max li \<noteq> None) (enable kern PIDS_CONTROLLER) st) (\<lambda>_ st.
                       write_all_or_none kern (limit_writes li) st))))"

section \<open>Changing the settings\<close>

definition CPUSET_CONTROLLER :: string where "CPUSET_CONTROLLER = ''cpuset''"
definition CPU_WEIGHT_FILE :: string where "CPU_WEIGHT_FILE = ''cpu.weight''"
definition CPUSET_FILE :: string where "CPUSET_FILE = ''cpuset.cpus''"
definition MEMORY_LOW_FILE :: string where "MEMORY_LOW_FILE = ''memory.low''"

definition settings_is_empty :: "cgroup_settings \<Rightarrow> bool" where
  "settings_is_empty s \<longleftrightarrow> s = no_settings"

definition enable_setting :: "cg_kernel \<Rightarrow> string \<Rightarrow> string \<Rightarrow> cg_state \<Rightarrow> (message + unit) \<times> cg_state" where
  "enable_setting kern controllers name st =
     (if \<not> has_controller controllers name then (Inl (Msg ''the guest kernel has no {name} controller'' [S name]), st)
      else (case cg_write kern (RootFile SUBTREE_CONTROL_FILE) (''+'' @ name) st of
              (Inl err, st1) \<Rightarrow> (Inl (Msg ''cannot enable the {name} controller: {e}'' [S name]), st1)
            | (Inr _, st1) \<Rightarrow> (Inr (), st1)))"

definition set_setting :: "cg_kernel \<Rightarrow> string \<Rightarrow> string \<Rightarrow> cg_state \<Rightarrow> (message + unit) \<times> cg_state" where
  "set_setting kern file_name val st =
     (case cg_write kern (GroupFile file_name) val st of
        (Inl err, st1) \<Rightarrow> (Inl (Msg ''cannot write {file}: {e}'' [S file_name]), st1)
      | (Inr _, st1) \<Rightarrow> (Inr (), st1))"

definition set_each :: "cg_kernel \<Rightarrow> string \<Rightarrow> string option \<Rightarrow> cg_state \<Rightarrow> (message + unit) \<times> cg_state" where
  "set_each kern file_name val st =
     (case val of Some txt \<Rightarrow> set_setting kern file_name txt st | None \<Rightarrow> (Inr (), st))"

definition cpu_max_setting :: "string \<times> nat \<Rightarrow> string" where
  "cpu_max_setting = (\<lambda>(quota, period). quota @ '' '' @ dec period)"

definition settings_apply :: "cg_kernel \<Rightarrow> cgroup_settings \<Rightarrow> cg_state \<Rightarrow> (message + unit) \<times> cg_state" where
  "settings_apply kern s st =
     (case cg_read (RootFile CONTROLLERS_FILE) st of
        Inl err \<Rightarrow> (Inl (Msg ''no cgroup v2 controllers: {e}'' []), st)
      | Inr controllers \<Rightarrow>
          and_do (do_when (cs_cpu_weight s \<noteq> None \<or> cs_cpu_max s \<noteq> None) (enable_setting kern controllers CPU_CONTROLLER) st) (\<lambda>_ st.
          and_do (do_when (cs_cpuset_cpus s \<noteq> None) (enable_setting kern controllers CPUSET_CONTROLLER) st) (\<lambda>_ st.
          and_do (set_each kern CPU_WEIGHT_FILE (map_option dec (cs_cpu_weight s)) st) (\<lambda>_ st.
          and_do (set_each kern CPU_MAX_FILE (map_option cpu_max_setting (cs_cpu_max s)) st) (\<lambda>_ st.
          and_do (set_each kern CPUSET_FILE (cs_cpuset_cpus s) st) (\<lambda>_ st.
            set_each kern MEMORY_LOW_FILE (map_option dec (cs_memory_low s)) st))))))"

section \<open>All or nothing\<close>

text \<open>
  What is relied on of the kernel: a write to a file of the group changes no other file and reads back as
  the text, up to the white space around it; turning a controller on keeps the files that are there. A text
  stands for the value it denotes: that the kernel prints a list of CPUs as ranges, or a number of bytes
  as whole pages, is not told apart.
\<close>

definition stores :: "cg_kernel \<Rightarrow> bool" where
  "stores kern \<longleftrightarrow>
     (\<forall>n p txt fs fs'. kern n (GroupFile p) txt fs = Inr fs' \<longrightarrow>
        (\<exists>t. fs' = fs(GroupFile p \<mapsto> t) \<and> str_trim t = str_trim txt)) \<and>
     (\<forall>n p txt fs fs' q t. kern n (RootFile p) txt fs = Inr fs' \<longrightarrow> fs (GroupFile q) = Some t \<longrightarrow>
        fs' (GroupFile q) = Some t)"

text \<open>What a file of the group reads as.\<close>

definition reads :: "cg_state \<Rightarrow> string \<Rightarrow> string option" where
  "reads st p = map_option str_trim (st_files st (GroupFile p))"

lemma cg_write_group:
  assumes "stores kern" "cg_write kern (GroupFile p) txt st = (r, st')"
  shows "r = Inr u \<Longrightarrow> reads st' = (reads st)(p \<mapsto> str_trim txt)" "r = Inl err \<Longrightarrow> st_files st' = st_files st"
proof -
  have k: "kern n (GroupFile p) txt fs = Inr fs' \<Longrightarrow> \<exists>t. fs' = fs(GroupFile p \<mapsto> t) \<and> str_trim t = str_trim txt" for n fs fs'
    using assms(1) by (auto simp: stores_def)
  show "r = Inr u \<Longrightarrow> reads st' = (reads st)(p \<mapsto> str_trim txt)"
    using assms(2) by (auto simp: cg_write_def reads_def fun_eq_iff split: sum.splits dest!: k)
  show "r = Inl err \<Longrightarrow> st_files st' = st_files st"
    using assms(2) by (auto simp: cg_write_def split: sum.splits)
qed

definition in_group :: "cg_file \<Rightarrow> bool" where
  "in_group f = (case f of GroupFile _ \<Rightarrow> True | RootFile _ \<Rightarrow> False)"

lemma in_groupE: "in_group f \<Longrightarrow> \<exists>p. f = GroupFile p"
  by (cases f) (simp_all add: in_group_def)

lemma put_back_reads:
  assumes "stores kern" "list_all (\<lambda>(f, _). in_group f) fs" "distinct (map fst fs)" "put_back kern fs st = ([], st')"
  shows "reads st' p = (case map_of fs (GroupFile p) of Some b \<Rightarrow> Some (str_trim b) | None \<Rightarrow> reads st p)"
  using assms(2-4)
proof (induction fs arbitrary: st)
  case (Cons fb fs)
  obtain q b where fb: "fb = (GroupFile q, b)" using Cons.prems(1) in_groupE by (cases fb) auto
  obtain r st1 where w: "cg_write kern (GroupFile q) (str_trim b) st = (r, st1)" by fastforce
  obtain stuck st2 where rest: "put_back kern fs st1 = (stuck, st2)" by fastforce
  have r: "r = Inr ()" "stuck = []" "st2 = st'"
    using Cons.prems(3) by (auto simp: fb w rest split: sum.splits)
  have "reads st1 = (reads st)(q \<mapsto> str_trim b)" using cg_write_group(1) [OF assms(1) w r(1)] by simp
  moreover have "GroupFile q \<notin> fst ` set fs" using Cons.prems(2) fb by auto
  then have "map_of fs (GroupFile q) = None" by (simp add: map_of_eq_None_iff)
  ultimately show ?case using Cons.IH [of st1] Cons.prems(1,2) rest r fb
    by (auto split: option.splits if_splits)
qed (simp add: reads_def)

text \<open>
  The loop between two writes: \<open>old\<close> is what the files read as at the start, and only the ones written so
  far differ from it.
\<close>

definition loop_ok where
  "loop_ok old written todo st \<longleftrightarrow>
     list_all (\<lambda>(f, _). in_group f) written \<and> list_all (\<lambda>((f, _), _). in_group f) todo \<and>
     distinct (map fst written @ map (fst \<circ> fst) todo) \<and>
     (\<forall>p b. (GroupFile p, b) \<in> set written \<union> (\<lambda>((f, _), b). (f, b)) ` set todo \<longrightarrow> old p = Some (str_trim b)) \<and>
     (\<forall>p. GroupFile p \<notin> fst ` set written \<longrightarrow> reads st p = old p)"

lemma loop_step:
  assumes "stores kern" "loop_ok old written (((f, txt), b) # rest) st" "cg_write kern f txt st = (Inr u, st1)"
  shows "loop_ok old (written @ [(f, b)]) rest st1"
    "\<exists>p. f = GroupFile p \<and> reads st1 = (reads st)(p \<mapsto> str_trim txt)"
proof -
  obtain p where f: "f = GroupFile p" using assms(2) in_groupE [of f] by (auto simp: loop_ok_def)
  have r: "reads st1 = (reads st)(p \<mapsto> str_trim txt)"
    using cg_write_group(1) [OF assms(1)] assms(3) unfolding f by blast
  then show "\<exists>p. f = GroupFile p \<and> reads st1 = (reads st)(p \<mapsto> str_trim txt)" using f by blast
  show "loop_ok old (written @ [(f, b)]) rest st1"
    using assms(2) f r unfolding loop_ok_def by (auto simp: fun_upd_apply)
qed

lemma loop_undone:
  assumes "stores kern" "loop_ok old written (((f, txt), b) # rest) st" "cg_write kern f txt st = (Inl err, st1)"
    and "put_back kern written st1 = ([], st2)"
  shows "reads st2 = old"
proof
  fix p
  have ok: "list_all (\<lambda>(f, _). in_group f) written" "distinct (map fst written)"
    "\<And>q b. (GroupFile q, b) \<in> set written \<Longrightarrow> old q = Some (str_trim b)"
    "\<And>q. GroupFile q \<notin> fst ` set written \<Longrightarrow> reads st q = old q"
    using assms(2) by (auto simp: loop_ok_def)
  have "reads st1 = reads st" using assms(3) by (auto simp: cg_write_def reads_def split: sum.splits)
  with put_back_reads [OF assms(1) ok(1,2) assms(4), of p] show "reads st2 p = old p"
    using ok(3,4) [of p] by (auto simp: map_of_eq_None_iff dest: map_of_SomeD split: option.splits)
qed

lemma write_loop_reads:
  assumes "stores kern" "loop_ok old written todo st" "write_loop kern written todo st = (r, st')"
  shows "(r = Inl (err, []) \<longrightarrow> reads st' = old) \<and>
    (r = Inr () \<longrightarrow> (\<forall>p. reads st' p =
       (case map_of (map fst todo) (GroupFile p) of Some txt \<Rightarrow> Some (str_trim txt) | None \<Rightarrow> reads st p)))"
  using assms(2,3)
proof (induction todo arbitrary: written st)
  case (Cons w todo)
  obtain f t b where w: "w = ((f, t), b)" by (cases w) auto
  obtain rw st1 where wr: "cg_write kern f t st = (rw, st1)" by fastforce
  show ?case
  proof (cases rw)
    case (Inl e)
    then show ?thesis using Cons.prems wr loop_undone [OF assms(1) Cons.prems(1) [unfolded w]]
      by (auto simp: w split: prod.splits)
  next
    case (Inr u)
    note st1 = loop_step [OF assms(1) Cons.prems(1) [unfolded w] wr [unfolded Inr]]
    obtain p where f: "f = GroupFile p" "reads st1 = (reads st)(p \<mapsto> str_trim t)" using st1(2) by blast
    have "GroupFile p \<notin> (fst \<circ> fst) ` set todo" using Cons.prems(1) by (auto simp: loop_ok_def w f)
    then have "map_of (map fst todo) (GroupFile p) = None" by (auto simp: map_of_eq_None_iff image_image)
    with Cons.IH [OF st1(1)] Cons.prems(2) wr Inr f show ?thesis
      by (auto simp: w split: option.splits)
  qed
qed auto

lemma limit_writes_shape: "list_all (\<lambda>(f, _). in_group f) (limit_writes li)" "distinct (map fst (limit_writes li))"
  by (auto simp: limit_writes_def in_group_def MEMORY_MAX_FILE_def CPU_MAX_FILE_def PIDS_MAX_FILE_def split: option.splits)

lemma write_all_or_none_reads:
  assumes "stores kern" "write_all_or_none kern writes st = (r, st')"
    and "list_all (\<lambda>(f, _). in_group f) writes" "distinct (map fst writes)"
  shows "(r = Inl (err, []) \<longrightarrow> reads st' = reads st) \<and>
    (r = Inr () \<longrightarrow> (\<forall>p. reads st' p =
       (case map_of writes (GroupFile p) of Some t \<Rightarrow> Some (str_trim t) | None \<Rightarrow> reads st p)))"
proof (cases "collect_results (\<lambda>(f, _). cg_read f st) writes")
  case (Inr old)
  then have old: "list_all2 (\<lambda>(f, _) b. cg_read f st = Inr b) writes old"
    by (simp add: collect_results_eq_Inr case_prod_unfold)
  then have len: "length writes = length old" by (rule list_all2_lengthD)
  then have m: "map fst (zip writes old) = writes" by simp
  have "(GroupFile p, b) \<in> (\<lambda>((f, _), b). (f, b)) ` set (zip writes old) \<Longrightarrow> reads st p = Some (str_trim b)" for p b
    using old by (auto simp: list_all2_iff reads_def cg_read_def split: option.splits)
  moreover have "list_all (\<lambda>((f, _), _). in_group f) (zip writes old)"
    using assms(3) by (fastforce simp: list_all_iff dest: set_zip_leftD)
  moreover have "distinct (map (fst \<circ> fst) (zip writes old))"
    using assms(4) m by (metis map_map)
  ultimately have "loop_ok (reads st) [] (zip writes old) st" by (auto simp: loop_ok_def)
  from write_loop_reads [OF assms(1) this] assms(2) Inr show ?thesis unfolding m
    by (simp add: write_all_or_none_def)
next
  case (Inl e)
  then show ?thesis using assms(2) by (auto simp: write_all_or_none_def)
qed

text \<open>The files that are there keep their text while controllers are turned on.\<close>

definition keeps :: "cg_state \<Rightarrow> cg_state \<Rightarrow> bool" where
  "keeps st st' \<longleftrightarrow> reads st \<subseteq>\<^sub>m reads st'"

lemma enable_keeps: "stores kern \<Longrightarrow> enable kern c st = (r, st') \<Longrightarrow> keeps st st'"
  unfolding enable_def cg_write_def stores_def keeps_def map_le_def reads_def
  by (fastforce split: sum.splits if_splits)

lemma do_when_keeps: "stores kern \<Longrightarrow> do_when b (enable kern c) st = (r, st') \<Longrightarrow> keeps st st'"
  using enable_keeps by (fastforce simp: do_when_def keeps_def split: if_splits)

lemma keeps_trans: "keeps a b \<Longrightarrow> keeps b c \<Longrightarrow> keeps a c"
  unfolding keeps_def by (rule map_le_trans)

lemma limits_apply_cases:
  assumes "stores kern" "limits_apply kern li st = (r, st')"
  shows "(r \<noteq> Inr () \<and> keeps st st') \<or> (\<exists>st2. keeps st st2 \<and> write_all_or_none kern (limit_writes li) st2 = (r, st'))"
proof -
  obtain r1 st1 where s1: "do_when (li_nano_cpus li \<noteq> None) (enable kern CPU_CONTROLLER) st = (r1, st1)" by fastforce
  obtain r2 st2 where s2: "do_when (li_pids_max li \<noteq> None) (enable kern PIDS_CONTROLLER) st1 = (r2, st2)" by fastforce
  have k: "keeps st st" "keeps st st1" "keeps st st2"
    using do_when_keeps [OF assms(1) s1] do_when_keeps [OF assms(1) s2] keeps_trans by (auto simp: keeps_def)
  show ?thesis
    using assms(2) s1 s2 k unfolding limits_apply_def and_do_def
    by (cases r1; cases r2) (auto split: if_splits sum.splits)
qed

lemma limits_apply_done:
  assumes "stores kern" "limits_apply kern li st = (Inr (), st')" "map_of (limit_writes li) (GroupFile p) = Some t"
  shows "reads st' p = Some (str_trim t)"
  using limits_apply_cases [OF assms(1,2)] write_all_or_none_reads [OF assms(1) _ limit_writes_shape] assms(3) by fastforce

text \<open>
  C10: Changing the limits of the running sandbox is all or nothing. When it succeeds, every file the
  request names reads as the requested limit and the others read as before. When it fails and the error
  names no file that could not be put back, every file reads as it did before: the checks come before the
  first write, and what was written is undone.
\<close>

theorem limits_all_or_none:
  assumes "stores kern" "limits_apply kern li st = (r, st')"
  shows "(r = Inl (err, []) \<longrightarrow> reads st \<subseteq>\<^sub>m reads st') \<and>
    (r = Inr () \<longrightarrow> (\<forall>p t. map_of (limit_writes li) (GroupFile p) = Some t \<longrightarrow> reads st' p = Some (str_trim t)) \<and>
       (\<forall>p. map_of (limit_writes li) (GroupFile p) = None \<longrightarrow> reads st p \<noteq> None \<longrightarrow> reads st' p = reads st p))"
  using limits_apply_cases [OF assms]
proof
  assume "r \<noteq> Inr () \<and> keeps st st'"
  then show ?thesis by (simp add: keeps_def)
next
  assume "\<exists>st2. keeps st st2 \<and> write_all_or_none kern (limit_writes li) st2 = (r, st')"
  then obtain st2 where k: "keeps st st2" and w: "write_all_or_none kern (limit_writes li) st2 = (r, st')" by blast
  have "reads st p \<noteq> None \<Longrightarrow> reads st2 p = reads st p" for p
    using k by (auto simp: keeps_def map_le_def dom_def)
  with k write_all_or_none_reads [OF assms(1) w limit_writes_shape] show ?thesis
    by (auto simp: keeps_def)
qed

text \<open>A kernel that keeps what it is given and refuses one write.\<close>

definition demo_kernel :: "nat \<Rightarrow> cg_kernel" where
  "demo_kernel refused n f txt fs =
     (if n = refused then Inl (io_err KInvalidInput ''invalid argument'' []) else Inr (fs(f \<mapsto> txt)))"

definition demo_group :: cg_state where
  "demo_group =
     \<lparr>st_files = [RootFile CONTROLLERS_FILE \<mapsto> ''cpu memory pids'', RootFile SUBTREE_CONTROL_FILE \<mapsto> ''cpu memory pids'',
        GroupFile MEMORY_MAX_FILE \<mapsto> ''max'', GroupFile CPU_MAX_FILE \<mapsto> ''max 100000'', GroupFile PIDS_MAX_FILE \<mapsto> ''64''],
      st_tried = 0\<rparr>"

definition demo_limits :: limits where
  "demo_limits = \<lparr>li_memory_bytes = Some 4096, li_nano_cpus = None, li_pids_max = Some 7\<rparr>"

lemma demo_kernel_stores: "stores (demo_kernel refused)"
  by (auto simp: stores_def demo_kernel_def)

lemma demo_limits_refused:
  "\<exists>err st'. limits_apply (demo_kernel 1) demo_limits demo_group = (Inl (err, []), st')"
  by (simp add: limits_apply_def demo_limits_def demo_group_def cg_read_def has_controller_def and_do_def do_when_def enable_def
      limit_writes_def write_all_or_none_def cg_write_def demo_kernel_def text_defs byte_def CONTROLLERS_FILE_def
      SUBTREE_CONTROL_FILE_def MEMORY_MAX_FILE_def CPU_MAX_FILE_def PIDS_MAX_FILE_def PIDS_CONTROLLER_def CPU_CONTROLLER_def)

theorem limits_all_or_none_witness:
  "stores (demo_kernel 1) \<and>
   (\<exists>err st'. limits_apply (demo_kernel 1) demo_limits demo_group = (Inl (err, []), st') \<and>
      reads demo_group \<subseteq>\<^sub>m reads st')"
proof -
  obtain err st' where "limits_apply (demo_kernel 1) demo_limits demo_group = (Inl (err, []), st')"
    using demo_limits_refused by blast
  with limits_all_or_none [OF demo_kernel_stores this] demo_kernel_stores show ?thesis by blast
qed

section \<open>The cgroup itself\<close>

definition MEMORY_CONTROLLER :: string where "MEMORY_CONTROLLER = ''memory''"
definition IO_CONTROLLER :: string where "IO_CONTROLLER = ''io''"
definition PROCS_FILE :: string where "PROCS_FILE = ''cgroup.procs''"

datatype cgroup_error = CgUnsupported message | CgIo string io_error

text \<open>\<open>enable_controllers\<close>: the lines it tries, with whether memory accounting is on after each.\<close>

definition controller_line :: "bool \<Rightarrow> bool \<Rightarrow> bool \<Rightarrow> string" where
  "controller_line pids memory io =
     join_with (CHR '' '') (map (\<lambda>(_, name). ''+'' @ name)
       (filter fst [(pids, PIDS_CONTROLLER), (memory, MEMORY_CONTROLLER), (io, IO_CONTROLLER)]))"

fun try_controllers ::
  "cg_kernel \<Rightarrow> bool \<Rightarrow> (bool \<times> bool) list \<Rightarrow> unit io \<Rightarrow> cg_state \<Rightarrow> (unit io + bool) \<times> cg_state" where
  "try_controllers kern pids [] latest st = (Inl latest, st)"
| "try_controllers kern pids ((memory, io) # rest) latest st =
     (let line = controller_line pids memory io;
          (outcome, st1) = (if line = [] then (Inr (), st) else cg_write kern (RootFile SUBTREE_CONTROL_FILE) line st)
      in (case outcome of Inr _ \<Rightarrow> (Inr memory, st1) | Inl _ \<Rightarrow> try_controllers kern pids rest outcome st1))"

definition enable_controllers :: "cg_kernel \<Rightarrow> bool \<Rightarrow> bool \<Rightarrow> bool \<Rightarrow> cg_state \<Rightarrow> bool io \<times> cg_state" where
  "enable_controllers kern pids memory io st =
     (case try_controllers kern pids [(memory, io), (memory, False), (False, False)] (Inr ()) st of
        (Inr on, st1) \<Rightarrow> (Inr on, st1)
      | (Inl latest, st1) \<Rightarrow>
          (if pids then (case latest of Inr _ \<Rightarrow> Inr False | Inl err \<Rightarrow> Inl err) else Inr False, st1))"

text \<open>
  \<open>setup\<close>: whether the group reports memory events. \<open>mkdir\<close> is \<open>create_dir\<close> of the group, \<open>Inl\<close> its error
  unless the directory was there.
\<close>

definition cgroup_setup ::
  "cg_kernel \<Rightarrow> (cg_files \<Rightarrow> io_error + cg_files) \<Rightarrow> nat option \<Rightarrow> cg_state \<Rightarrow> (cgroup_error + bool) \<times> cg_state" where
  "cgroup_setup kern mkdir pids_max st =
     (case st_files st (RootFile CONTROLLERS_FILE) of
        None \<Rightarrow> (Inl (CgUnsupported (Msg ''no cgroup v2 at {}: {e}'' [])), st)
      | Some controllers \<Rightarrow>
          if pids_max \<noteq> None \<and> \<not> has_controller controllers PIDS_CONTROLLER
          then (Inl (CgUnsupported (Msg ''the pids controller is not built in'' [])), st)
          else (case enable_controllers kern (pids_max \<noteq> None) (has_controller controllers MEMORY_CONTROLLER)
                       (has_controller controllers IO_CONTROLLER) st of
                  (Inl err, st) \<Rightarrow> (Inl (CgIo ''enable pids controller'' err), st)
                | (Inr memory, st) \<Rightarrow>
                    (case mkdir (st_files st) of
                       Inl err \<Rightarrow> (Inl (CgIo ''create cgroup'' err), st)
                     | Inr fs \<Rightarrow>
                         (let st = st\<lparr>st_files := fs\<rparr>;
                              (w, st) = (case pids_max of
                                           Some n \<Rightarrow> cg_write kern (GroupFile PIDS_MAX_FILE) (dec n) st
                                         | None \<Rightarrow> (Inr (), st))
                          in (case w of
                                Inl err \<Rightarrow> (Inl (CgIo ''write pids.max'' err), st)
                              | Inr _ \<Rightarrow>
                                  if st_files st (GroupFile PROCS_FILE) = None
                                  then (Inl (CgIo ''open cgroup.procs'' (io_err KNotFound ''no such file'' [])), st)
                                  else (Inr memory, st))))))"

text \<open>A cap that is reported as set up is the one the kernel holds.\<close>

lemma setup_caps:
  assumes "stores kern" "cgroup_setup kern mkdir (Some n) st = (Inr memory, st')"
  shows "reads st' PIDS_MAX_FILE = Some (str_trim (dec n))"
proof -
  obtain st1 fs where "cg_write kern (GroupFile PIDS_MAX_FILE) (dec n) (st1\<lparr>st_files := fs\<rparr>) = (Inr (), st')"
    using assms(2) by (auto simp: cgroup_setup_def Let_def split: option.splits if_splits sum.splits prod.splits)
  from cg_write_group(1) [OF assms(1) this] show ?thesis by simp
qed

section \<open>The freezer\<close>

text \<open>\<open>reported_state\<close> of \<open>cgroup.events\<close>.\<close>

definition reported_frozen :: "string \<Rightarrow> bool" where
  "reported_frozen events =
     list_ex (\<lambda>line. case split_whitespace line of a # b # _ \<Rightarrow> a = ''frozen'' \<and> b = ''1'' | _ \<Rightarrow> False) (str_lines events)"

text \<open>
  \<open>set_frozen\<close> after the write: the states the polls report, and the number of polls that fit before the
  deadline.
\<close>

fun wait_frozen :: "bool \<Rightarrow> nat \<Rightarrow> (string io) list \<Rightarrow> unit io option" where
  "wait_frozen frozen polls [] = None"
| "wait_frozen frozen polls (r # rs) =
     (case r of
        Inl err \<Rightarrow> Some (Inl err)
      | Inr events \<Rightarrow>
          if reported_frozen events = frozen then Some (Inr ())
          else (case polls of
                  0 \<Rightarrow> Some (Inl (io_err KTimedOut ''the sandbox did not reach the requested state in time'' []))
                | Suc n \<Rightarrow> wait_frozen frozen n rs))"

text \<open>With enough readings the wait ends, and it succeeds only on a reading of the wanted state.\<close>

lemma wait_frozen_ends: "polls < length rs \<Longrightarrow> \<exists>r. wait_frozen frozen polls rs = Some r"
  by (induction frozen polls rs rule: wait_frozen.induct) (auto split: sum.splits nat.splits)

lemma wait_frozen_sound:
  "wait_frozen frozen polls rs = Some (Inr ()) \<Longrightarrow> \<exists>events. Inr events \<in> set rs \<and> reported_frozen events = frozen"
  by (induction frozen polls rs rule: wait_frozen.induct) (auto split: sum.splits nat.splits if_splits)

end
