(* ===== verification/Update.thy ===== *)
theory Update
  imports Lifecycle Cgroup
begin

text \<open>
  Changing the limits of a sandbox that exists, through every layer: \<open>ward-core/src/sandbox/manager/update.rs\<close>,
  \<open>update_limits\<close> of \<open>backend/krunvm.rs\<close>, the \<open>SetLimits\<close> request of \<open>backend/agent.rs\<close> and the agent's answer
  to it in \<open>ward-agent/src/lib.rs\<close>.
\<close>

section \<open>The request\<close>

definition set_limits_of :: "limits_update \<Rightarrow> live_settings \<Rightarrow> set_limits_request" where
  "set_limits_of update live =
     \<lparr>sl_memory_bytes = map_option (\<lambda>mb. unat mb * unat BYTES_PER_MIB) (lu_memory_mb update),
      sl_nano_cpus = map_option unat (lu_nano_cpus update),
      sl_pids_max = map_option unat (lu_pids_max update),
      sl_memory_low_bytes = map_option unat (ls_memory_low_bytes live),
      sl_cpu_weight = ls_cpu_weight live,
      sl_cpu_max_quota = map_option fst (ls_cpu_max live),
      sl_cpu_max_period = map_option snd (ls_cpu_max live),
      sl_cpuset_cpus = ls_cpuset_cpus live\<rparr>"

definition agent_failure :: "message \<Rightarrow> archive_error_kind \<Rightarrow> io_error" where
  "agent_failure msg kind =
     (case kind of AeNotFound \<Rightarrow> KNotFound | AeRefused \<Rightarrow> KInvalidInput | AeFailed \<Rightarrow> KOther | AeUnspecified \<Rightarrow> KOther,
      case msg of Msg fmt args \<Rightarrow> Msg (''guest agent: '' @ fmt) args)"

text \<open>What the daemon makes of the answer to a request that is acknowledged with \<open>ArchiveDone\<close>.\<close>

definition read_ack :: "string \<Rightarrow> (bytes \<Rightarrow> event option) \<Rightarrow> bytes \<Rightarrow> unit io" where
  "read_ack request_name decode answer =
     (case host_read_frame answer of
        Inl err \<Rightarrow> Inl err
      | Inr None \<Rightarrow> Inl (io_err KInvalidData ''agent closed the connection before answering'' [])
      | Inr (Some (frame, _)) \<Rightarrow>
          (case decode frame of
             Some (Some EvArchiveDone) \<Rightarrow> Inr ()
           | Some (Some (EvArchiveError msg kind)) \<Rightarrow> Inl (agent_failure msg kind)
           | _ \<Rightarrow> Inl (io_err KInvalidData ''agent answered a {request} with another event'' [S request_name])))"

section \<open>The agent's answer\<close>

definition cgroup_settings_of :: "set_limits_request \<Rightarrow> cgroup_settings" where
  "cgroup_settings_of sl =
     \<lparr>cs_memory_low = sl_memory_low_bytes sl, cs_cpu_weight = sl_cpu_weight sl,
      cs_cpu_max = (case (sl_cpu_max_quota sl, sl_cpu_max_period sl) of (Some q, Some p) \<Rightarrow> Some (q, p) | _ \<Rightarrow> None),
      cs_cpuset_cpus = sl_cpuset_cpus sl\<rparr>"

definition limits_of :: "set_limits_request \<Rightarrow> limits" where
  "limits_of sl = \<lparr>li_memory_bytes = sl_memory_bytes sl, li_nano_cpus = sl_nano_cpus sl, li_pids_max = sl_pids_max sl\<rparr>"

text \<open>\<open>grouped\<close> is whether the agent has a sandbox cgroup.\<close>

definition set_limits_outcome ::
  "cg_kernel \<Rightarrow> bool \<Rightarrow> set_limits_request \<Rightarrow> cg_state \<Rightarrow> (message + unit) \<times> cg_state" where
  "set_limits_outcome kern grouped sl st =
     (let settings = cgroup_settings_of sl;
          half_cpu_max = ((sl_cpu_max_quota sl \<noteq> None) \<noteq> (sl_cpu_max_period sl \<noteq> None))
      in if \<not> grouped then (Inl (Msg ''the guest has no sandbox cgroup to limit'' []), st)
         else if half_cpu_max then (Inl (Msg ''cpu.max needs a quota and a period together'' []), st)
         else (case limits_apply kern (limits_of sl) st of
                 (Inl (err, stuck), st) \<Rightarrow>
                   (Inl (if stuck = [] then snd err else Msg ''{e}; could not put back {}'' []), st)
               | (Inr _, st) \<Rightarrow>
                   if settings_is_empty settings then (Inr (), st) else settings_apply kern settings st))"

definition ack_event :: "message + unit \<Rightarrow> event" where
  "ack_event outcome =
     Some (case outcome of Inr _ \<Rightarrow> EvArchiveDone | Inl msg \<Rightarrow> EvArchiveError msg AeUnspecified)"

text \<open>A request and its answer over one connection, when neither side's write fails.\<close>

definition set_limits ::
  "(event \<Rightarrow> bytes) \<Rightarrow> (bytes \<Rightarrow> event option) \<Rightarrow> cg_kernel \<Rightarrow> bool \<Rightarrow> limits_update \<Rightarrow> live_settings \<Rightarrow> cg_state \<Rightarrow>
   unit io \<times> cg_state" where
  "set_limits encode decode kern grouped update live st =
     (let (outcome, st) = set_limits_outcome kern grouped (set_limits_of update live) st
      in (read_ack ''SetLimits'' decode (write_events encode [ack_event outcome]), st))"

section \<open>The backend\<close>

definition DEFAULT_VCPUS :: u32 where "DEFAULT_VCPUS = 1"
definition DEFAULT_MEMORY_MIB :: u32 where "DEFAULT_MEMORY_MIB = 512"

definition vm_config :: "u32 \<Rightarrow> u32 \<Rightarrow> (u32 \<times> u32) option" where
  "vm_config cpus memory_mb =
     (if cpus = 0 \<and> memory_mb = 0 then None
      else let or_default = (\<lambda>val default. if val = 0 then default else val)
           in Some (or_default cpus DEFAULT_VCPUS, or_default memory_mb DEFAULT_MEMORY_MIB))"

record vm_size =
  vs_cpus :: u32
  vs_memory_mb :: u32

definition vm_size_of :: "resource_limits \<Rightarrow> vm_size" where
  "vm_size_of r =
     (let (cpus, memory_mb) = unwrap_or (vm_config (rl_cpus r) (rl_memory_mb r)) (0, 0)
      in \<lparr>vs_cpus = cpus, vs_memory_mb = memory_mb\<rparr>)"

definition vm_refuses :: "vm_size \<Rightarrow> limits_update \<Rightarrow> message option" where
  "vm_refuses sz update =
     (let memory = (case lu_memory_mb update of
                      Some mb \<Rightarrow> if vs_memory_mb sz > 0 \<and> mb > vs_memory_mb sz
                        then Some (Msg ''the memory limit of {mb} MiB is above the VM's {} MiB; a running VM keeps its size''
                               [N (unat mb), N (unat (vs_memory_mb sz))])
                        else None
                    | None \<Rightarrow> None);
          cpus = (case lu_nano_cpus update of
                    Some nanos \<Rightarrow> if vs_cpus sz > 0 \<and> unat nanos > unat (vs_cpus sz) * NANOS_PER_CPU
                      then Some (Msg ''the CPU limit is above the VM's {} CPUs; a running VM keeps its size'' [N (unat (vs_cpus sz))])
                      else None
                  | None \<Rightarrow> None)
      in case memory of Some why \<Rightarrow> Some why | None \<Rightarrow> cpus)"

datatype backend_error =
    BeNotFound string
  | BePathNotFound string
  | BeImage message
  | BeImageNotFound message
  | BeUnavailable message
  | BeSpawn message
  | BeExec message
  | BeIo io_kind
  | BeInvalidArgument message
  | BeResourceExhausted message
  | BeInternal message
  | BeAddressInUse message



text \<open>
  The backend's state of one sandbox that \<open>update_limits\<close> uses, and the cgroup of its guest. \<open>connect\<close> is
  the outcome of opening the agent's stream.
\<close>

record vm_state =
  vm_up :: "vm_size option"
  vm_resources :: resource_limits
  vm_cgroup :: cgroup_limits
  vm_guest :: cg_state

record agent_link =
  al_connect :: "backend_error option"
  al_encode :: "event \<Rightarrow> bytes"
  al_decode :: "bytes \<Rightarrow> event option"
  al_kernel :: cg_kernel
  al_grouped :: bool

definition update_limits :: "agent_link \<Rightarrow> bool \<Rightarrow> limits_update \<Rightarrow> vm_state \<Rightarrow> (backend_error + unit) \<times> vm_state" where
  "update_limits link boot_vms update vm =
     (case (case vm_up vm of Some sz \<Rightarrow> vm_refuses sz update | None \<Rightarrow> None) of
        Some why \<Rightarrow> (Inl (BeInvalidArgument why), vm)
      | None \<Rightarrow>
          (let merged = cgroup_updated (vm_cgroup vm) (lu_cgroup update);
               (r, guest) =
                 (if vm_up vm \<noteq> None \<and> boot_vms
                  then (case al_connect link of
                          Some err \<Rightarrow> (Inl err, vm_guest vm)
                        | None \<Rightarrow>
                            (case set_limits (al_encode link) (al_decode link) (al_kernel link) (al_grouped link) update
                                    (live_settings_of (lu_cgroup update) merged) (vm_guest vm) of
                               (Inl err, g) \<Rightarrow> (Inl (BeExec (Msg ''update the sandbox limits: {e}'' [])), g)
                             | (Inr _, g) \<Rightarrow> (Inr (), g)))
                  else (Inr (), vm_guest vm))
           in case r of
                Inl err \<Rightarrow> (Inl err, vm\<lparr>vm_guest := guest\<rparr>)
              | Inr _ \<Rightarrow>
                  (Inr (), vm\<lparr>vm_guest := guest, vm_cgroup := merged, vm_resources := limits_updated (vm_resources vm) update\<rparr>)))"

section \<open>The manager\<close>







definition undo_of :: "limits_update \<Rightarrow> resource_limits \<Rightarrow> cgroup_limits \<Rightarrow> limits_update" where
  "undo_of lims previous previous_cgroup =
     \<lparr>lu_memory_mb = map_option (\<lambda>_. rl_memory_mb previous) (lu_memory_mb lims),
      lu_nano_cpus = map_option (\<lambda>_. rl_nano_cpus previous) (lu_nano_cpus lims),
      lu_pids_max = map_option (\<lambda>_. rl_pids_max previous) (lu_pids_max lims),
      lu_cgroup = cgroup_undoing (lu_cgroup lims) previous_cgroup\<rparr>"

definition restore_limits ::
  "agent_link \<Rightarrow> bool \<Rightarrow> limits_update \<Rightarrow> resource_limits \<Rightarrow> cgroup_limits \<Rightarrow> vm_state \<Rightarrow> (backend_error + unit) \<times> vm_state" where
  "restore_limits link boot_vms lims previous previous_cgroup vm =
     (let undo = undo_of lims previous previous_cgroup
      in if limits_update_is_empty undo then (Inr (), vm) else update_limits link boot_vms undo vm)"





section \<open>What an update reaches\<close>

text \<open>The acknowledgement survives the wire, and no error is decoded as one.\<close>

definition link_ok :: "agent_link \<Rightarrow> bool" where
  "link_ok link \<longleftrightarrow> stores (al_kernel link) \<and>
     al_decode link (al_encode link (Some EvArchiveDone)) = Some (Some EvArchiveDone) \<and>
     fits (al_encode link (Some EvArchiveDone)) \<and>
     (\<forall>msg kind. al_decode link (al_encode link (Some (EvArchiveError msg kind))) \<noteq> Some (Some EvArchiveDone))"

lemma read_ack_answer:
  assumes "link_ok link"
  shows "read_ack name (al_decode link) (write_events (al_encode link) [ack_event outcome]) = Inr () \<longleftrightarrow> outcome = Inr ()"
proof -
  let ?bs = "al_encode link (ack_event outcome)"
  show ?thesis
  proof (cases "fits ?bs")
    case True
    then have "write_events (al_encode link) [ack_event outcome] = to_be_bytes (length ?bs) @ ?bs @ []"
      using write_frame_ok [of ?bs "to_be_bytes (length ?bs) @ ?bs"] by simp
    then have "host_read_frame (write_events (al_encode link) [ack_event outcome]) = Inr (Some (?bs, []))"
      using read_written [OF True, of "[]"] by (simp add: same_frames)
    then show ?thesis using assms
      by (cases outcome) (auto simp: read_ack_def ack_event_def link_ok_def split: option.splits event_kind.splits)
  next
    case False
    then have "write_events (al_encode link) [ack_event outcome] = []"
      using write_frame_ok [of ?bs] by (auto split: sum.splits)
    moreover have "outcome \<noteq> Inr ()" using False assms by (auto simp: ack_event_def link_ok_def)
    ultimately show ?thesis by (simp add: read_ack_def same_frames)
  qed
qed

lemma set_limits_done:
  assumes "link_ok link"
    and "set_limits (al_encode link) (al_decode link) kern grouped update live st = (Inr (), st')"
  shows "set_limits_outcome kern grouped (set_limits_of update live) st = (Inr (), st')"
proof -
  obtain outcome st1 where o: "set_limits_outcome kern grouped (set_limits_of update live) st = (outcome, st1)" by fastforce
  then show ?thesis using assms(2) read_ack_answer [OF assms(1)] by (auto simp: set_limits_def)
qed

text \<open>The settings are written to their own files only.\<close>

lemma root_write_keeps: "stores kern \<Longrightarrow> cg_write kern (RootFile f) t st = (r, st') \<Longrightarrow> reads st p \<noteq> None \<Longrightarrow> reads st' p = reads st p"
  unfolding cg_write_def stores_def reads_def by (fastforce split: sum.splits)

lemma enable_setting_keeps:
  "stores kern \<Longrightarrow> enable_setting kern cs name st = (r, st') \<Longrightarrow> reads st p \<noteq> None \<Longrightarrow> reads st' p = reads st p"
  using root_write_keeps [of kern] unfolding enable_setting_def by (fastforce split: if_splits prod.splits sum.splits)

lemma do_when_setting_keeps:
  "stores kern \<Longrightarrow> do_when b (enable_setting kern cs name) st = (r, st') \<Longrightarrow> reads st p \<noteq> None \<Longrightarrow> reads st' p = reads st p"
  using enable_setting_keeps by (fastforce simp: do_when_def split: if_splits)

lemma set_each_keeps:
  assumes "stores kern" "set_each kern f val st = (r, st')" "p \<noteq> f"
  shows "reads st' p = reads st p"
proof (cases val)
  case (Some t)
  obtain w st1 where w: "cg_write kern (GroupFile f) t st = (w, st1)" by fastforce
  then have "st' = st1" using assms(2) Some by (auto simp: set_each_def set_setting_def split: sum.splits)
  then show ?thesis using cg_write_group [OF assms(1) w] assms(3) by (cases w) (auto simp: reads_def)
qed (use assms in \<open>simp add: set_each_def\<close>)

lemma and_do_keeps: "P (snd r) \<Longrightarrow> (\<And>a st. P st \<Longrightarrow> P (snd (k a st))) \<Longrightarrow> P (snd (and_do r k))"
  by (auto simp: and_do_def split: prod.splits sum.splits)

lemma settings_apply_keeps:
  assumes "stores kern" "settings_apply kern s st = (r, st')" "reads st p = Some v"
    and "p \<notin> {CPU_WEIGHT_FILE, CPUSET_FILE, MEMORY_LOW_FILE}" "p = CPU_MAX_FILE \<Longrightarrow> cs_cpu_max s = None"
  shows "reads st' p = Some v"
proof -
  have on: "reads a p = Some v \<Longrightarrow> reads (snd (do_when b (enable_setting kern cs name) a)) p = Some v" for a b cs name
    using do_when_setting_keeps [OF assms(1), of b cs name a] by (cases "do_when b (enable_setting kern cs name) a") simp
  have each: "reads a p = Some v \<Longrightarrow> p \<noteq> f \<or> val = None \<Longrightarrow> reads (snd (set_each kern f val a)) p = Some v" for a f val
    using set_each_keeps [OF assms(1), of f val a] by (cases "set_each kern f val a") (auto simp: set_each_def)
  have "reads (snd (settings_apply kern s st)) p = Some v"
    unfolding settings_apply_def using assms(3-5)
    by (cases "cg_read (RootFile CONTROLLERS_FILE) st")
       (auto intro!: and_do_keeps [where P = "\<lambda>a. reads a p = Some v"] on each)
  then show ?thesis using assms(2) by simp
qed

lemma and_do_Inr: "and_do r k = (Inr b, st') \<longleftrightarrow> (\<exists>a st. r = (Inr a, st) \<and> k a st = (Inr b, st'))"
  by (auto simp: and_do_def split: prod.splits sum.splits)

lemma set_each_reads:
  assumes "stores kern" "set_each kern f val st = (Inr u, st')"
  shows "reads st' p = (if p = f \<and> val \<noteq> None then map_option str_trim val else reads st p)"
proof (cases val)
  case (Some t)
  then obtain u' where w: "cg_write kern (GroupFile f) t st = (Inr u', st')"
    using assms(2) by (auto simp: set_each_def set_setting_def split: prod.splits sum.splits)
  with Some cg_write_group(1) [OF assms(1) w] show ?thesis by simp
qed (use assms(2) in \<open>simp add: set_each_def\<close>)

text \<open>The settings that were given are what their files read.\<close>

lemma settings_apply_reads:
  assumes "stores kern" "settings_apply kern s st = (Inr (), st')"
  shows "cs_cpu_weight s = Some w \<Longrightarrow> reads st' CPU_WEIGHT_FILE = Some (str_trim (dec w))"
    "cs_cpu_max s = Some q \<Longrightarrow> reads st' CPU_MAX_FILE = Some (str_trim (cpu_max_setting q))"
    "cs_cpuset_cpus s = Some c \<Longrightarrow> reads st' CPUSET_FILE = Some (str_trim c)"
    "cs_memory_low s = Some b \<Longrightarrow> reads st' MEMORY_LOW_FILE = Some (str_trim (dec b))"
proof -
  have names: "distinct [CPU_WEIGHT_FILE, CPU_MAX_FILE, CPUSET_FILE, MEMORY_LOW_FILE]"
    by (simp add: CPU_WEIGHT_FILE_def CPU_MAX_FILE_def CPUSET_FILE_def MEMORY_LOW_FILE_def)
  obtain st1 st2 st3 st4 where
    "set_each kern CPU_WEIGHT_FILE (map_option dec (cs_cpu_weight s)) st1 = (Inr (), st2)"
    "set_each kern CPU_MAX_FILE (map_option cpu_max_setting (cs_cpu_max s)) st2 = (Inr (), st3)"
    "set_each kern CPUSET_FILE (cs_cpuset_cpus s) st3 = (Inr (), st4)"
    "set_each kern MEMORY_LOW_FILE (map_option dec (cs_memory_low s)) st4 = (Inr (), st')"
    using assms(2) by (auto simp: settings_apply_def and_do_Inr split: sum.splits)
  note steps = this [THEN set_each_reads [OF assms(1)]]
  show "cs_cpu_weight s = Some w \<Longrightarrow> reads st' CPU_WEIGHT_FILE = Some (str_trim (dec w))"
    "cs_cpu_max s = Some q \<Longrightarrow> reads st' CPU_MAX_FILE = Some (str_trim (cpu_max_setting q))"
    "cs_cpuset_cpus s = Some c \<Longrightarrow> reads st' CPUSET_FILE = Some (str_trim c)"
    "cs_memory_low s = Some b \<Longrightarrow> reads st' MEMORY_LOW_FILE = Some (str_trim (dec b))"
    using names by (simp_all add: steps eq_commute)
qed

lemma set_limits_settings:
  assumes "set_limits_outcome kern grouped sl st = (Inr (), st')" "\<not> settings_is_empty (cgroup_settings_of sl)"
  shows "\<exists>st1. settings_apply kern (cgroup_settings_of sl) st1 = (Inr (), st')"
  using assms by (auto simp: set_limits_outcome_def Let_def split: if_splits prod.splits sum.splits)

lemma set_limits_reach:
  assumes "stores kern" "set_limits_outcome kern grouped sl st = (Inr (), st')"
    and "map_of (limit_writes (limits_of sl)) (GroupFile p) = Some t"
    and "p = CPU_MAX_FILE \<Longrightarrow> cs_cpu_max (cgroup_settings_of sl) = None"
  shows "reads st' p = Some (str_trim t)"
proof -
  have p: "p \<notin> {CPU_WEIGHT_FILE, CPUSET_FILE, MEMORY_LOW_FILE}"
    using assms(3) by (auto simp: limit_writes_def MEMORY_MAX_FILE_def CPU_MAX_FILE_def PIDS_MAX_FILE_def CPU_WEIGHT_FILE_def
        CPUSET_FILE_def MEMORY_LOW_FILE_def split: option.splits if_splits)
  obtain st1 where l: "limits_apply kern (limits_of sl) st = (Inr (), st1)"
    and s: "st' = st1 \<or> settings_apply kern (cgroup_settings_of sl) st1 = (Inr (), st')"
    using assms(2) by (auto simp: set_limits_outcome_def Let_def split: if_splits prod.splits sum.splits)
  have r: "reads st1 p = Some (str_trim t)" by (rule limits_apply_done [OF assms(1) l assms(3)])
  from s show ?thesis
  proof
    assume "settings_apply kern (cgroup_settings_of sl) st1 = (Inr (), st')"
    from settings_apply_keeps [OF assms(1) this r p assms(4)] show ?thesis by simp
  qed (simp add: r)
qed

text \<open>A change the backend reports as done on a running VM.\<close>

lemma update_limits_done:
  assumes "link_ok link" "update_limits link True lims vm = (Inr (), vm')" "vm_up vm \<noteq> None"
  shows "set_limits_outcome (al_kernel link) (al_grouped link)
      (set_limits_of lims (live_settings_of (lu_cgroup lims) (cgroup_updated (vm_cgroup vm) (lu_cgroup lims)))) (vm_guest vm) =
      (Inr (), vm_guest vm') \<and>
    vm_resources vm' = limits_updated (vm_resources vm) lims \<and> vm_up vm' = vm_up vm \<and>
    vm_cgroup vm' = cgroup_updated (vm_cgroup vm) (lu_cgroup lims)"
  using assms(2,3)
  by (auto simp: update_limits_def Let_def split: option.splits prod.splits sum.splits if_splits
      dest!: set_limits_done [OF assms(1)])

lemma limit_writes_of:
  "map_of (limit_writes (limits_of (set_limits_of lims live))) (GroupFile MEMORY_MAX_FILE) =
     map_option (\<lambda>mb. limit_text (unat mb * unat BYTES_PER_MIB)) (lu_memory_mb lims)"
  "map_of (limit_writes (limits_of (set_limits_of lims live))) (GroupFile CPU_MAX_FILE) =
     map_option (\<lambda>n. cpu_max_text (unat n)) (lu_nano_cpus lims)"
  "map_of (limit_writes (limits_of (set_limits_of lims live))) (GroupFile PIDS_MAX_FILE) =
     map_option (\<lambda>n. limit_text (unat n)) (lu_pids_max lims)"
  by (cases "lu_memory_mb lims"; cases "lu_nano_cpus lims"; cases "lu_pids_max lims";
      simp add: limit_writes_def limits_of_def set_limits_of_def MEMORY_MAX_FILE_def CPU_MAX_FILE_def PIDS_MAX_FILE_def)+

lemma no_cpu_max_asked:
  "cu_cpu_quota (lu_cgroup lims) = None \<Longrightarrow> cu_cpu_period (lu_cgroup lims) = None \<Longrightarrow>
     cs_cpu_max (cgroup_settings_of (set_limits_of lims (live_settings_of (lu_cgroup lims) c))) = None"
  by (simp add: cgroup_settings_of_def set_limits_of_def live_settings_of_def)






text \<open>
  The limits and settings a request names, as the files of the guest's cgroup read; \<open>cgroup\<close> are the
  settings from before, which complete a quota or a period given alone.
\<close>

definition guest_holds :: "cgroup_limits \<Rightarrow> limits_update \<Rightarrow> cg_state \<Rightarrow> bool" where
  "guest_holds cgroup lims st \<longleftrightarrow>
     (\<forall>mb. lu_memory_mb lims = Some mb \<longrightarrow> reads st MEMORY_MAX_FILE = Some (str_trim (limit_text (unat mb * unat BYTES_PER_MIB)))) \<and>
     (\<forall>n. lu_pids_max lims = Some n \<longrightarrow> reads st PIDS_MAX_FILE = Some (str_trim (limit_text (unat n)))) \<and>
     (\<forall>b. cu_memory_reservation_bytes (lu_cgroup lims) = Some b \<longrightarrow> reads st MEMORY_LOW_FILE = Some (str_trim (dec (unat b)))) \<and>
     (\<forall>n. cu_cpu_shares (lu_cgroup lims) = Some n \<longrightarrow>
        reads st CPU_WEIGHT_FILE = Some (str_trim (dec (cpu_weight (if n = 0 then DEFAULT_CPU_SHARES else n))))) \<and>
     (\<forall>c. cu_cpuset_cpus (lu_cgroup lims) = Some c \<longrightarrow> reads st CPUSET_FILE = Some (str_trim c)) \<and>
     (if cu_cpu_quota (lu_cgroup lims) \<noteq> None \<or> cu_cpu_period (lu_cgroup lims) \<noteq> None
      then reads st CPU_MAX_FILE =
        Some (str_trim (cpu_max_setting (unwrap_or (cpu_max (cgroup_updated cgroup (lu_cgroup lims))) cpu_max_removed)))
      else \<forall>n. lu_nano_cpus lims = Some n \<longrightarrow> reads st CPU_MAX_FILE = Some (str_trim (cpu_max_text (unat n))))"

lemma live_settings_held:
  assumes "stores kern"
    and "set_limits_outcome kern grouped (set_limits_of lims (live_settings_of (lu_cgroup lims) (cgroup_updated cgroup (lu_cgroup lims)))) st = (Inr (), st')"
  shows "cu_memory_reservation_bytes (lu_cgroup lims) = Some b \<Longrightarrow> reads st' MEMORY_LOW_FILE = Some (str_trim (dec (unat b)))"
    "cu_cpu_shares (lu_cgroup lims) = Some n \<Longrightarrow>
       reads st' CPU_WEIGHT_FILE = Some (str_trim (dec (cpu_weight (if n = 0 then DEFAULT_CPU_SHARES else n))))"
    "cu_cpuset_cpus (lu_cgroup lims) = Some c \<Longrightarrow> reads st' CPUSET_FILE = Some (str_trim c)"
    "cu_cpu_quota (lu_cgroup lims) \<noteq> None \<or> cu_cpu_period (lu_cgroup lims) \<noteq> None \<Longrightarrow> reads st' CPU_MAX_FILE =
       Some (str_trim (cpu_max_setting (unwrap_or (cpu_max (cgroup_updated cgroup (lu_cgroup lims))) cpu_max_removed)))"
proof -
  let ?s = "cgroup_settings_of (set_limits_of lims (live_settings_of (lu_cgroup lims) (cgroup_updated cgroup (lu_cgroup lims))))"
  have s: "\<not> settings_is_empty ?s \<Longrightarrow> \<exists>st1. settings_apply kern ?s st1 = (Inr (), st')"
    by (rule set_limits_settings [OF assms(2)])
  have some: "cs_cpu_weight ?s = Some w \<or> cs_cpu_max ?s = Some q \<or> cs_cpuset_cpus ?s = Some c \<or> cs_memory_low ?s = Some l \<Longrightarrow>
      \<not> settings_is_empty ?s" for w q c l
    by (auto simp: settings_is_empty_def no_settings_def)
  have w: "cs_cpu_weight ?s = Some w \<Longrightarrow> reads st' CPU_WEIGHT_FILE = Some (str_trim (dec w))" for w
    using s some settings_apply_reads(1) [OF assms(1)] by blast
  have q: "cs_cpu_max ?s = Some q \<Longrightarrow> reads st' CPU_MAX_FILE = Some (str_trim (cpu_max_setting q))" for q
    using s some settings_apply_reads(2) [OF assms(1)] by blast
  have c: "cs_cpuset_cpus ?s = Some c \<Longrightarrow> reads st' CPUSET_FILE = Some (str_trim c)" for c
    using s some settings_apply_reads(3) [OF assms(1)] by blast
  have l: "cs_memory_low ?s = Some l \<Longrightarrow> reads st' MEMORY_LOW_FILE = Some (str_trim (dec l))" for l
    using s some settings_apply_reads(4) [OF assms(1)] by blast
  note defs = cgroup_settings_of_def set_limits_of_def live_settings_of_def cgroup_updated_def
  show "cu_memory_reservation_bytes (lu_cgroup lims) = Some b \<Longrightarrow> reads st' MEMORY_LOW_FILE = Some (str_trim (dec (unat b)))"
    by (rule l) (simp add: defs)
  show "cu_cpu_shares (lu_cgroup lims) = Some n \<Longrightarrow>
       reads st' CPU_WEIGHT_FILE = Some (str_trim (dec (cpu_weight (if n = 0 then DEFAULT_CPU_SHARES else n))))"
    by (rule w) (simp add: defs)
  show "cu_cpuset_cpus (lu_cgroup lims) = Some c \<Longrightarrow> reads st' CPUSET_FILE = Some (str_trim c)"
    by (rule c) (simp add: defs)
  show "cu_cpu_quota (lu_cgroup lims) \<noteq> None \<or> cu_cpu_period (lu_cgroup lims) \<noteq> None \<Longrightarrow> reads st' CPU_MAX_FILE =
       Some (str_trim (cpu_max_setting (unwrap_or (cpu_max (cgroup_updated cgroup (lu_cgroup lims))) cpu_max_removed)))"
    by (rule q) (simp add: cgroup_settings_of_def set_limits_of_def live_settings_of_def)
qed

lemma update_limits_holds:
  assumes "link_ok link" "update_limits link True lims vm = (Inr (), vm')" "vm_up vm \<noteq> None"
  shows "guest_holds (vm_cgroup vm) lims (vm_guest vm')"
proof -
  have k: "stores (al_kernel link)" using assms(1) by (simp add: link_ok_def)
  note done_ok = update_limits_done [OF assms, THEN conjunct1]
  note reach = set_limits_reach [OF k done_ok] and live = live_settings_held [OF k done_ok]
  have names: "MEMORY_MAX_FILE \<noteq> CPU_MAX_FILE" "PIDS_MAX_FILE \<noteq> CPU_MAX_FILE"
    by (simp_all add: MEMORY_MAX_FILE_def CPU_MAX_FILE_def PIDS_MAX_FILE_def)
  have "lu_memory_mb lims = Some mb \<Longrightarrow> reads (vm_guest vm') MEMORY_MAX_FILE = Some (str_trim (limit_text (unat mb * unat BYTES_PER_MIB)))"
      "lu_pids_max lims = Some n \<Longrightarrow> reads (vm_guest vm') PIDS_MAX_FILE = Some (str_trim (limit_text (unat n)))"
      "lu_nano_cpus lims = Some c \<Longrightarrow> cu_cpu_quota (lu_cgroup lims) = None \<Longrightarrow> cu_cpu_period (lu_cgroup lims) = None \<Longrightarrow>
         reads (vm_guest vm') CPU_MAX_FILE = Some (str_trim (cpu_max_text (unat c)))" for mb n c
    using names by (intro reach; simp add: limit_writes_of no_cpu_max_asked)+
  with live show ?thesis unfolding guest_holds_def by auto
qed





text \<open>A sandbox with one CPU quota in its record, its VM up, and a kernel that keeps what it is given.\<close>

definition demo_link :: agent_link where
  "demo_link =
     \<lparr>al_connect = None, al_encode = (\<lambda>ev. if ev = Some EvArchiveDone then ''y'' else ''n''),
      al_decode = (\<lambda>bs. if bs = ''y'' then Some (Some EvArchiveDone) else Some (Some (EvArchiveError (Msg [] []) AeUnspecified))),
      al_kernel = (\<lambda>_ f t fs. Inr (fs(f \<mapsto> t))), al_grouped = True\<rparr>"

definition demo_quota :: cgroup_limits where
  "demo_quota = default_cgroup_limits\<lparr>cg_cpu_quota := 50000\<rparr>"

definition demo_resources :: resource_limits where
  "demo_resources = default_resource_limits\<lparr>rl_cpus := 2, rl_memory_mb := 512\<rparr>"

definition demo_vm :: vm_state where
  "demo_vm =
     \<lparr>vm_up = Some (vm_size_of demo_resources), vm_resources = demo_resources, vm_cgroup = demo_quota,
      vm_guest = demo_group\<lparr>st_files := (st_files demo_group)(GroupFile CPU_MAX_FILE \<mapsto> ''50000 100000'')\<rparr>\<rparr>"


definition half_cpu :: limits_update where
  "half_cpu = default_limits_update\<lparr>lu_nano_cpus := Some 500000000\<rparr>"

lemma demo_link_ok: "link_ok demo_link"
  by (auto simp: link_ok_def demo_link_def stores_def MAX_FRAME_BYTES_def)

text \<open>
  C9: The undo of a failed update does not put everything back. When the request sets a CPU limit and the
  record had none, a successful \<open>restore_limits\<close> leaves the guest's CPU time unlimited, whatever CPU quota the
  record holds, and leaves the backend with the CPU count of the refused request, which the next boot uses.
\<close>

theorem undo_is_incomplete:
  assumes "link_ok link" "vm_up vm \<noteq> None" "lu_nano_cpus lims = Some n" "0 < n"
    and "cu_cpu_quota (lu_cgroup lims) = None" "cu_cpu_period (lu_cgroup lims) = None" "rl_nano_cpus previous = 0"
    and "update_limits link True lims vm = (Inr (), vm1)"
    and "restore_limits link True lims previous previous_cgroup vm1 = (Inr (), vm2)"
  shows "reads (vm_guest vm2) CPU_MAX_FILE = Some ''max 100000'' \<and> rl_cpus (vm_resources vm2) = whole_cpus n"
proof -
  let ?undo = "undo_of lims previous previous_cgroup"
  have undo: "lu_nano_cpus ?undo = Some 0" "cu_cpu_quota (lu_cgroup ?undo) = None" "cu_cpu_period (lu_cgroup ?undo) = None"
    using assms(3,5-7) by (simp_all add: undo_of_def cgroup_undoing_def)
  then have "\<not> limits_update_is_empty ?undo" by (auto simp: limits_update_is_empty_def default_limits_update_def)
  then have u: "update_limits link True ?undo vm1 = (Inr (), vm2)" using assms(9) by (simp add: restore_limits_def)
  note d1 = update_limits_done [OF assms(1) assms(8) assms(2)]
  have up: "vm_up vm1 \<noteq> None" using d1 assms(2) by simp
  have "guest_holds (vm_cgroup vm1) ?undo (vm_guest vm2)" by (rule update_limits_holds [OF assms(1) u up])
  then have "reads (vm_guest vm2) CPU_MAX_FILE = Some (str_trim (cpu_max_text 0))"
    using undo by (simp add: guest_holds_def)
  moreover have "str_trim (cpu_max_text 0) = ''max 100000''"
    by (simp add: cpu_max_text_def UNLIMITED_TEXT_def CPU_PERIOD_MICROS_def str_trim_def text_defs byte_def dec.simps bit_Suc_0_iff)
  moreover have "rl_cpus (vm_resources vm2) = whole_cpus n"
    using d1 update_limits_done [OF assms(1) u up] undo(1) assms(3,4)
    by (auto simp: limits_updated_def Let_def split: option.splits)
  ultimately show ?thesis by simp
qed

lemmas demo_update_defs = demo_link_def demo_quota_def demo_resources_def demo_vm_def half_cpu_def demo_group_def
  default_limits_update_def default_cgroup_update_def default_cgroup_limits_def default_resource_limits_def
  CONTROLLERS_FILE_def SUBTREE_CONTROL_FILE_def MEMORY_MAX_FILE_def CPU_MAX_FILE_def PIDS_MAX_FILE_def PIDS_CONTROLLER_def
  CPU_CONTROLLER_def

lemma any_cpu_updates:
  assumes "lims = default_limits_update\<lparr>lu_nano_cpus := Some n\<rparr>" "unat n \<le> 2 * NANOS_PER_CPU"
    and "vm_up vm = vm_up demo_vm" "vm_guest vm = (vm_guest demo_vm)\<lparr>st_files := (st_files demo_group)(GroupFile CPU_MAX_FILE \<mapsto> t), st_tried := k\<rparr>"
  shows "update_limits demo_link True lims vm =
    (Inr (), vm\<lparr>vm_guest := (vm_guest demo_vm)\<lparr>st_files := (st_files demo_group)(GroupFile CPU_MAX_FILE \<mapsto> cpu_max_text (unat n)), st_tried := Suc k\<rparr>,
      vm_resources := limits_updated (vm_resources vm) lims\<rparr>)"
proof -
  have size: "vm_refuses (vm_size_of demo_resources) lims = None"
    using assms(1,2) by (simp add: vm_refuses_def vm_size_of_def vm_config_def demo_update_defs NANOS_PER_CPU_def DEFAULT_VCPUS_def DEFAULT_MEMORY_MIB_def)
  have live: "settings_is_empty (cgroup_settings_of (set_limits_of lims (live_settings_of (lu_cgroup lims) c)))" for c
    using assms(1) by (simp add: settings_is_empty_def cgroup_settings_of_def set_limits_of_def live_settings_of_def demo_update_defs no_settings_def)
  have on: "has_controller ''cpu memory pids'' ''cpu''"
    by (simp add: has_controller_def text_defs byte_def)
  let ?g = "(vm_guest demo_vm)\<lparr>st_files := (st_files demo_group)(GroupFile CPU_MAX_FILE \<mapsto> cpu_max_text (unat n)), st_tried := Suc k\<rparr>"
  let ?live = "live_settings_of (lu_cgroup lims) (cgroup_updated (vm_cgroup vm) (lu_cgroup lims))"
  have "set_limits_outcome (al_kernel demo_link) True (set_limits_of lims ?live) (vm_guest vm) = (Inr (), ?g)"
    using live [of "cgroup_updated (vm_cgroup vm) (lu_cgroup lims)"] on unfolding set_limits_outcome_def limits_apply_def assms(4)
    by (simp add: assms(1) limits_of_def set_limits_of_def live_settings_of_def demo_update_defs cg_read_def and_do_def do_when_def
        enable_def limit_writes_def write_all_or_none_def cg_write_def)
  then have "set_limits (al_encode demo_link) (al_decode demo_link) (al_kernel demo_link) (al_grouped demo_link) lims ?live (vm_guest vm) = (Inr (), ?g)"
    using read_ack_answer [OF demo_link_ok] by (simp add: set_limits_def demo_link_def)
  moreover have "cgroup_updated (vm_cgroup vm) (lu_cgroup lims) = vm_cgroup vm"
    by (simp add: assms(1) cgroup_updated_def default_limits_update_def default_cgroup_update_def)
  moreover have "vm_up vm = Some (vm_size_of demo_resources)" "al_connect demo_link = None"
    using assms(3) by (simp_all add: demo_vm_def demo_link_def)
  ultimately show ?thesis using size by (simp add: update_limits_def)
qed

lemma half_cpu_updates:
  "\<exists>vm1 vm2. update_limits demo_link True half_cpu demo_vm = (Inr (), vm1) \<and>
     restore_limits demo_link True half_cpu demo_resources demo_quota vm1 = (Inr (), vm2)"
proof -
  have g: "vm_guest demo_vm = (vm_guest demo_vm)\<lparr>st_files := (st_files demo_group)(GroupFile CPU_MAX_FILE \<mapsto> ''50000 100000''), st_tried := 0\<rparr>"
    by (simp add: demo_vm_def demo_group_def)
  obtain vm1 where u: "update_limits demo_link True half_cpu demo_vm = (Inr (), vm1)" "vm_up vm1 = vm_up demo_vm"
    "vm_guest vm1 = (vm_guest demo_vm)\<lparr>st_files := (st_files demo_group)(GroupFile CPU_MAX_FILE \<mapsto> cpu_max_text 500000000), st_tried := 1\<rparr>"
    using any_cpu_updates [OF half_cpu_def _ refl g] by (simp add: NANOS_PER_CPU_def)
  have undo: "undo_of half_cpu demo_resources demo_quota = default_limits_update\<lparr>lu_nano_cpus := Some 0\<rparr>"
    by (simp add: undo_of_def cgroup_undoing_def demo_update_defs)
  then have "\<not> limits_update_is_empty (undo_of half_cpu demo_resources demo_quota)"
    by (simp add: limits_update_is_empty_def default_limits_update_def)
  then have "\<exists>vm2. restore_limits demo_link True half_cpu demo_resources demo_quota vm1 = (Inr (), vm2)"
    using any_cpu_updates [OF undo _ u(2,3)] by (simp add: restore_limits_def)
  with u(1) show ?thesis by blast
qed

theorem undo_is_incomplete_witness:
  "\<exists>vm1 vm2. update_limits demo_link True half_cpu demo_vm = (Inr (), vm1) \<and>
     restore_limits demo_link True half_cpu demo_resources demo_quota vm1 = (Inr (), vm2) \<and>
     reads (vm_guest demo_vm) CPU_MAX_FILE = Some ''50000 100000'' \<and> rl_cpus demo_resources = 2 \<and>
     reads (vm_guest vm2) CPU_MAX_FILE = Some ''max 100000'' \<and> rl_cpus (vm_resources vm2) = 1"
proof -
  obtain vm1 vm2 where u: "update_limits demo_link True half_cpu demo_vm = (Inr (), vm1)"
    "restore_limits demo_link True half_cpu demo_resources demo_quota vm1 = (Inr (), vm2)" using half_cpu_updates by blast
  have h: "vm_up demo_vm \<noteq> None" "lu_nano_cpus half_cpu = Some 500000000" "(0::u64) < 500000000"
    "cu_cpu_quota (lu_cgroup half_cpu) = None" "cu_cpu_period (lu_cgroup half_cpu) = None" "rl_nano_cpus demo_resources = 0"
    by (simp_all add: demo_update_defs)
  have "whole_cpus 500000000 = 1" by (simp add: whole_cpus_def NANOS_PER_CPU_def)
  moreover have "reads (vm_guest demo_vm) CPU_MAX_FILE = Some ''50000 100000''"
    by (simp add: reads_def demo_vm_def str_trim_def text_defs byte_def)
  ultimately show ?thesis
    using u undo_is_incomplete [OF demo_link_ok h u] by (simp add: demo_resources_def)
qed




end
