(* ===== verification/Archive.thy ===== *)
theory Archive
  imports Wire
begin

unbundle bit_operations_syntax

text \<open>
  The checks on tar archives of \<open>ward-archive/src/lib.rs\<close>: paths and their components, the limits, the
  check of one entry, the trail of symbolic links, unpacking into a directory and packing a directory.
  The \<open>tar\<close> crate is a parameter: an entry is what its accessors return.
\<close>

section \<open>Paths\<close>

text \<open>\<open>Path::components\<close>: empty parts and \<open>.\<close> are dropped, but for a leading \<open>.\<close>.\<close>

datatype component = RootDir | CurDir | ParentDir | Normal string

definition part_component :: "string \<Rightarrow> component list" where
  "part_component p = (if p = [] \<or> p = ''.'' then [] else if p = ''..'' then [ParentDir] else [Normal p])"

definition components :: "bytes \<Rightarrow> component list" where
  "components path =
     (let parts = split_on (CHR ''/'') path
      in (if starts_with path ''/'' then [RootDir] else if hd parts = ''.'' then [CurDir] else []) @
         concat (map part_component parts))"

text \<open>Only relative components that move forward stay inside the root.\<close>

fun is_contained :: "component \<Rightarrow> bool" where
  "is_contained (Normal _) = True"
| "is_contained CurDir = True"
| "is_contained _ = False"

fun normal_part :: "component \<Rightarrow> string list" where
  "normal_part (Normal p) = [p]"
| "normal_part _ = []"

text \<open>A path made of normal components is the list of them.\<close>

definition normal_components :: "bytes \<Rightarrow> string list" where
  "normal_components path = concat (map normal_part (components path))"

definition fold_case :: "string list \<Rightarrow> string list" where
  "fold_case path = map to_ascii_lowercase path"

text \<open>\<open>Path::join\<close>, \<open>Path::parent\<close> by components, and \<open>Display\<close>.\<close>

definition join_path :: "bytes \<Rightarrow> bytes \<Rightarrow> bytes" where
  "join_path p q =
     (if starts_with q ''/'' then q else if p = [] \<or> ends_with p ''/'' then p @ q else p @ ''/'' @ q)"

definition parent_of :: "component list \<Rightarrow> component list option" where
  "parent_of cs = (if cs = [] \<or> last cs = RootDir then None else Some (butlast cs))"

definition shown :: "bytes \<Rightarrow> string" where
  "shown path = from_utf8_lossy path"

section \<open>Entries, policies and limits\<close>

datatype entry_type =
    Regular | HardLink | Symlink | CharDevice | BlockDevice | Directory | Fifo | Continuous
  | GNULongName | GNULongLink | GNUSparse | XGlobalHeader | XHeader | OtherType u8

text \<open>
  What the accessors of one \<open>tar::Entry\<close> return: its path, type, size, link name, mode field and the
  offset of its body in the stream.
\<close>

record tar_entry =
  te_path :: bytes
  te_type :: entry_type
  te_size :: nat
  te_link :: "bytes option"
  te_mode :: "u32 io"
  te_position :: nat

datatype archive_policy = SnapshotPolicy | CopyPolicy

record archive_limits =
  al_max_entries :: nat
  al_max_file_bytes :: nat
  al_max_total_bytes :: nat
  al_max_path_len :: nat
  al_max_depth :: nat

definition LINUX_PATH_MAX :: nat where "LINUX_PATH_MAX = 4096"
definition SNAPSHOT_MAX_ENTRIES :: nat where "SNAPSHOT_MAX_ENTRIES = 2000000"
definition SNAPSHOT_MAX_TOTAL_BYTES :: nat where "SNAPSHOT_MAX_TOTAL_BYTES = 64 * 1024 * 1024 * 1024"
definition SNAPSHOT_MAX_DEPTH :: nat where "SNAPSHOT_MAX_DEPTH = 4096"

definition default_archive_limits :: archive_limits where
  "default_archive_limits =
     \<lparr>al_max_entries = 100000, al_max_file_bytes = 4 * 1024 * 1024 * 1024,
      al_max_total_bytes = 8 * 1024 * 1024 * 1024, al_max_path_len = LINUX_PATH_MAX, al_max_depth = 64\<rparr>"

definition snapshot_limits :: archive_limits where
  "snapshot_limits =
     \<lparr>al_max_entries = SNAPSHOT_MAX_ENTRIES, al_max_file_bytes = SNAPSHOT_MAX_TOTAL_BYTES,
      al_max_total_bytes = SNAPSHOT_MAX_TOTAL_BYTES, al_max_path_len = LINUX_PATH_MAX,
      al_max_depth = SNAPSHOT_MAX_DEPTH\<rparr>"

datatype archive_error =
    UnsafePath string
  | UnsafeLink string
  | ForbiddenType string
  | SetIdMode string
  | ForbiddenHeader string
  | LimitExceeded string nat
  | UnpackFailed string io_error
  | ArchiveIo io_error

record totals =
  tt_entries :: nat
  tt_bytes :: nat

definition no_totals :: totals where
  "no_totals = \<lparr>tt_entries = 0, tt_bytes = 0\<rparr>"

text \<open>The masks 6000, 1777, 777 and 700 in octal.\<close>

definition SETID_MODE_BITS :: u32 where "SETID_MODE_BITS = 6 * 512"
definition RESTORED_MODE_BITS :: u32 where "RESTORED_MODE_BITS = 1023"
definition COPIED_MODE_BITS :: u32 where "COPIED_MODE_BITS = 511"
definition OWNER_RWX :: u32 where "OWNER_RWX = 448"

definition is_plain_type :: "entry_type \<Rightarrow> bool" where
  "is_plain_type kind = (kind \<in> {Regular, Continuous, Directory, Symlink, HardLink, XGlobalHeader})"

section \<open>The check of one entry\<close>

definition check_link :: "tar_entry \<Rightarrow> archive_error + unit" where
  "check_link e =
     (if te_type e = HardLink
      then (case te_link e of
              None \<Rightarrow> Inl (UnsafeLink (shown (te_path e)))
            | Some target \<Rightarrow>
                err_when (list_ex (\<lambda>c. \<not> is_contained c) (components target)) (UnsafeLink (shown (te_path e))))
      else Inr ())"

definition check_copied :: "tar_entry \<Rightarrow> archive_error + unit" where
  "check_copied e =
     and_then (err_when (\<not> is_plain_type (te_type e)) (ForbiddenType (shown (te_path e)))) (\<lambda>_.
       case te_mode e of
         Inl err \<Rightarrow> Inl (ArchiveIo err)
       | Inr mode \<Rightarrow> err_when (mode AND SETID_MODE_BITS \<noteq> 0) (SetIdMode (shown (te_path e))))"

text \<open>\<open>check_entry\<close>: the new totals, or why the entry is refused. The byte total saturates.\<close>

definition check_entry ::
  "tar_entry \<Rightarrow> archive_policy \<Rightarrow> archive_limits \<Rightarrow> totals \<Rightarrow> archive_error + totals" where
  "check_entry e policy lim t =
     (let path = te_path e; cs = components path; n = tt_entries t + 1;
          total = min U64_MAX (tt_bytes t + te_size e)
      in and_then (err_when (n > al_max_entries lim) (LimitExceeded ''entry count'' (al_max_entries lim))) (\<lambda>_.
         and_then (err_when (length path > al_max_path_len lim) (LimitExceeded ''path length'' (al_max_path_len lim))) (\<lambda>_.
         and_then (err_when (list_ex (\<lambda>c. \<not> is_contained c) cs) (UnsafePath (shown path))) (\<lambda>_.
         and_then (err_when (length (concat (map normal_part cs)) > al_max_depth lim)
                     (LimitExceeded ''path depth'' (al_max_depth lim))) (\<lambda>_.
         and_then (err_when (te_size e > al_max_file_bytes lim) (LimitExceeded ''file size'' (al_max_file_bytes lim))) (\<lambda>_.
         and_then (err_when (total > al_max_total_bytes lim) (LimitExceeded ''total size'' (al_max_total_bytes lim))) (\<lambda>_.
         and_then (check_link e) (\<lambda>_.
         and_then (if policy = CopyPolicy then check_copied e else Inr ()) (\<lambda>_.
         Inr \<lparr>tt_entries = n, tt_bytes = total\<rparr>)))))))))"

section \<open>The trail of symbolic links\<close>

text \<open>\<open>SymlinkTrail\<close>: the paths of the symbolic links so far, in lower case.\<close>

definition crosses_symlink :: "string list \<Rightarrow> string list set \<Rightarrow> bool" where
  "crosses_symlink path links = list_ex (\<lambda>k. take k (fold_case path) \<in> links) [0..<length path]"

definition path_text :: "string list \<Rightarrow> string" where
  "path_text path = shown (join_with (CHR ''/'') path)"

definition trail_check :: "tar_entry \<Rightarrow> string list set \<Rightarrow> archive_error + string list set" where
  "trail_check e links =
     (let path = normal_components (te_path e)
      in if crosses_symlink path links then Inl (UnsafePath (path_text path))
         else case te_type e of
           Symlink \<Rightarrow> Inr (insert (fold_case path) links)
         | HardLink \<Rightarrow>
             (case te_link e of
                None \<Rightarrow> Inr links
              | Some name \<Rightarrow>
                  (let target = normal_components name
                   in if crosses_symlink target links then Inl (UnsafeLink (path_text target))
                      else if fold_case target \<in> links then Inr (insert (fold_case path) links)
                      else Inr links))
         | _ \<Rightarrow> Inr links)"

text \<open>One turn of the loop of \<open>scan\<close> with no destination, and the loop on a list of entries.\<close>

definition validate_entry ::
  "archive_policy \<Rightarrow> archive_limits \<Rightarrow> tar_entry \<Rightarrow> totals \<times> string list set \<Rightarrow>
   archive_error + totals \<times> string list set" where
  "validate_entry policy lim e = (\<lambda>(t, links).
     and_then (check_entry e policy lim t) (\<lambda>t. and_then (trail_check e links) (\<lambda>links. Inr (t, links))))"

fun validate_entries ::
  "archive_policy \<Rightarrow> archive_limits \<Rightarrow> tar_entry list \<Rightarrow> totals \<times> string list set \<Rightarrow>
   archive_error + totals \<times> string list set" where
  "validate_entries policy lim [] st = Inr st"
| "validate_entries policy lim (e # es) st =
     and_then (validate_entry policy lim e st) (validate_entries policy lim es)"

section \<open>What the checks promise\<close>

lemma validate_entries_append:
  "validate_entries policy lim (es @ es') st =
     and_then (validate_entries policy lim es st) (validate_entries policy lim es')"
  by (induction es arbitrary: st) (auto simp: and_then_def split: sum.splits)

lemma validate_entries_nth:
  assumes "validate_entries policy lim es st = Inr st'" "k < length es"
  obtains stk stk' where "validate_entries policy lim (take k es) st = Inr stk"
    "validate_entry policy lim (es ! k) stk = Inr stk'"
proof -
  have "validate_entries policy lim (take k es @ es ! k # drop (Suc k) es) st = Inr st'"
    using assms by (simp add: id_take_nth_drop [symmetric])
  then show ?thesis using that by (auto simp: validate_entries_append)
qed

lemma crosses_symlink_iff: "crosses_symlink path links \<longleftrightarrow> (\<exists>l \<in> links. strict_prefix l (fold_case path))"
proof
  assume "crosses_symlink path links"
  then obtain k where k: "k < length path" "take k (fold_case path) \<in> links"
    by (auto simp: crosses_symlink_def list_ex_iff)
  moreover have "strict_prefix (take k (fold_case path)) (fold_case path)"
  proof -
    have "length (take k (fold_case path)) \<noteq> length (fold_case path)" using k(1) by (simp add: fold_case_def)
    then show ?thesis unfolding strict_prefix_def by (metis take_is_prefix)
  qed
  ultimately show "\<exists>l \<in> links. strict_prefix l (fold_case path)" by blast
next
  assume "\<exists>l \<in> links. strict_prefix l (fold_case path)"
  then obtain l z zs where l: "l \<in> links" "fold_case path = l @ z # zs" by (auto elim: strict_prefixE')
  have "length l < length path" using arg_cong [OF l(2), of length] by (simp add: fold_case_def)
  with l show "crosses_symlink path links"
    unfolding crosses_symlink_def list_ex_iff by (intro bexI [of _ "length l"]) auto
qed

text \<open>The symbolic link an entry leaves, given the ones that are there.\<close>

definition fresh_links :: "tar_entry \<Rightarrow> string list set \<Rightarrow> string list set" where
  "fresh_links e links =
     (let path = fold_case (normal_components (te_path e))
      in case te_type e of
           Symlink \<Rightarrow> {path}
         | HardLink \<Rightarrow>
             (case te_link e of
                Some name \<Rightarrow> if fold_case (normal_components name) \<in> links then {path} else {}
              | None \<Rightarrow> {})
         | _ \<Rightarrow> {})"

lemma fresh_links_mono: "A \<subseteq> B \<Longrightarrow> fresh_links e A \<subseteq> fresh_links e B"
  by (auto simp: fresh_links_def Let_def split: entry_type.splits option.splits)

text \<open>An entry the trail lets through crosses no link, neither with its path nor with its link name.\<close>

definition untangled :: "tar_entry \<Rightarrow> string list set \<Rightarrow> bool" where
  "untangled e links =
     (\<not> crosses_symlink (normal_components (te_path e)) links \<and>
      (te_type e = HardLink \<longrightarrow>
         (case te_link e of None \<Rightarrow> True | Some name \<Rightarrow> \<not> crosses_symlink (normal_components name) links)))"

lemma trail_check_Inr:
  assumes "trail_check e links = Inr links'"
  shows "untangled e links \<and> links' = links \<union> fresh_links e links"
  using assms unfolding trail_check_def untangled_def fresh_links_def
  by (auto simp: Let_def split: if_splits entry_type.splits option.splits)

lemma untangled_antimono: "untangled e B \<Longrightarrow> A \<subseteq> B \<Longrightarrow> untangled e A"
  unfolding untangled_def crosses_symlink_iff by (auto split: option.splits)

text \<open>The totals and the paths of an accepted entry.\<close>

definition entry_fits :: "archive_policy \<Rightarrow> archive_limits \<Rightarrow> tar_entry \<Rightarrow> bool" where
  "entry_fits policy lim e =
     (list_all is_contained (components (te_path e)) \<and>
      length (te_path e) \<le> al_max_path_len lim \<and>
      length (normal_components (te_path e)) \<le> al_max_depth lim \<and>
      te_size e \<le> al_max_file_bytes lim \<and>
      (te_type e = HardLink \<longrightarrow> (\<exists>name. te_link e = Some name \<and> list_all is_contained (components name))) \<and>
      (policy = CopyPolicy \<longrightarrow> is_plain_type (te_type e) \<and>
         (\<exists>mode. te_mode e = Inr mode \<and> mode AND SETID_MODE_BITS = 0)))"

lemma not_contained: "\<not> list_ex (\<lambda>c. \<not> is_contained c) cs \<longleftrightarrow> list_all is_contained cs"
  by (induction cs) auto

lemma check_entry_Inr:
  "check_entry e policy lim t = Inr t' \<longleftrightarrow>
     entry_fits policy lim e \<and> tt_entries t < al_max_entries lim \<and>
     min U64_MAX (tt_bytes t + te_size e) \<le> al_max_total_bytes lim \<and>
     t' = \<lparr>tt_entries = tt_entries t + 1, tt_bytes = min U64_MAX (tt_bytes t + te_size e)\<rparr>"
  unfolding check_entry_def entry_fits_def check_link_def check_copied_def normal_components_def
  by (cases "te_link e"; cases "te_mode e") (auto simp: Let_def not_contained not_less)

lemma validate_entry_Inr:
  "validate_entry policy lim e (t, links) = Inr (t', links') \<longleftrightarrow>
     check_entry e policy lim t = Inr t' \<and> trail_check e links = Inr links'"
  unfolding validate_entry_def by auto

text \<open>What a run of the checks has counted and which links it has recorded.\<close>

fun trail_of :: "tar_entry list \<Rightarrow> string list set \<Rightarrow> string list set" where
  "trail_of [] links = links"
| "trail_of (e # es) links = trail_of es (links \<union> fresh_links e links)"

lemma trail_of_grows: "links \<subseteq> trail_of es links"
proof (induction es arbitrary: links)
  case (Cons e es)
  from Cons.IH [of "links \<union> fresh_links e links"] show ?case by simp
qed simp

lemma trail_of_append: "trail_of (es @ es') links = trail_of es' (trail_of es links)"
  by (induction es arbitrary: links) auto

lemma validate_entries_Inr:
  assumes "validate_entries policy lim es (t, links) = Inr (t', links')"
  shows "links' = trail_of es links \<and> tt_entries t' = tt_entries t + length es \<and>
    (tt_entries t \<le> al_max_entries lim \<longrightarrow> tt_entries t' \<le> al_max_entries lim) \<and>
    (tt_bytes t \<le> U64_MAX \<longrightarrow> tt_bytes t' = min U64_MAX (tt_bytes t + sum_list (map te_size es))) \<and>
    (tt_bytes t \<le> al_max_total_bytes lim \<longrightarrow> tt_bytes t' \<le> al_max_total_bytes lim)"
  using assms
proof (induction es arbitrary: t links)
  case (Cons e es)
  from Cons.prems obtain t1 links1 where 1: "check_entry e policy lim t = Inr t1" "trail_check e links = Inr links1"
      "validate_entries policy lim es (t1, links1) = Inr (t', links')"
    by (auto simp: validate_entry_Inr)
  have "tt_bytes t1 = min U64_MAX (tt_bytes t + te_size e)" "tt_entries t1 = tt_entries t + 1"
      "tt_entries t1 \<le> al_max_entries lim" "tt_bytes t1 \<le> al_max_total_bytes lim"
    using 1(1) by (auto simp: check_entry_Inr)
  moreover have "links1 = links \<union> fresh_links e links" using trail_check_Inr [OF 1(2)] by simp
  ultimately show ?case using Cons.IH [OF 1(3)] by (auto simp: min_def)
qed simp

lemma links_before:
  assumes "j < k" "k \<le> length es"
  shows "fresh_links (es ! j) (trail_of (take j es) {}) \<subseteq> trail_of (take k es) {}"
proof -
  have "take k es = take j es @ es ! j # drop (Suc j) (take k es)"
    using assms id_take_nth_drop [of j "take k es"] by simp
  then have "trail_of (take k es) {} = trail_of (drop (Suc j) (take k es))
      (trail_of (take j es) {} \<union> fresh_links (es ! j) (trail_of (take j es) {}))"
    by (metis trail_of.simps(2) trail_of_append)
  then show ?thesis using trail_of_grows by blast
qed

text \<open>
  C14: An archive the checks accept stays within every limit: the number of entries, the bytes in all
  and of each file, the length and the depth of each path. The total in bytes is held for a limit below
  \<open>u64::MAX\<close>, where the saturating sum of the sizes cannot hide an overflow. Every path in it is
  relative and without \<open>..\<close>, a copied archive holds no special file and no setuid or setgid bit, and no
  entry is written, and no hard link resolved, through a symbolic link an earlier entry left, also when
  names are compared without case.
\<close>

theorem accepted_archive_contained:
  assumes "validate_entries policy lim es (no_totals, {}) = Inr st"
    and "al_max_total_bytes lim < U64_MAX" "k < length es"
  shows "length es \<le> al_max_entries lim \<and> sum_list (map te_size es) \<le> al_max_total_bytes lim \<and>
    list_all is_contained (components (te_path (es ! k))) \<and>
    length (te_path (es ! k)) \<le> al_max_path_len lim \<and>
    length (normal_components (te_path (es ! k))) \<le> al_max_depth lim \<and>
    te_size (es ! k) \<le> al_max_file_bytes lim \<and>
    (policy = CopyPolicy \<longrightarrow> is_plain_type (te_type (es ! k)) \<and>
       (\<exists>mode. te_mode (es ! k) = Inr mode \<and> mode AND SETID_MODE_BITS = 0)) \<and>
    (\<forall>l \<in> trail_of (take k es) {}. \<not> strict_prefix l (fold_case (normal_components (te_path (es ! k))))) \<and>
    (te_type (es ! k) = HardLink \<longrightarrow> (\<exists>name. te_link (es ! k) = Some name \<and> list_all is_contained (components name) \<and>
       (\<forall>l \<in> trail_of (take k es) {}. \<not> strict_prefix l (fold_case (normal_components name)))))"
proof -
  obtain t' links' where st: "st = (t', links')" by force
  from validate_entries_Inr [OF assms(1) [unfolded st]] assms(2)
  have counts: "length es \<le> al_max_entries lim" "sum_list (map te_size es) \<le> al_max_total_bytes lim"
    by (auto simp: no_totals_def min_def split: if_splits)
  obtain tk linksk stk' where k: "validate_entries policy lim (take k es) (no_totals, {}) = Inr (tk, linksk)"
      "validate_entry policy lim (es ! k) (tk, linksk) = Inr stk'"
    using validate_entries_nth [OF assms(1,3)] by (metis surj_pair)
  then obtain t1 links1 where "check_entry (es ! k) policy lim tk = Inr t1" "trail_check (es ! k) linksk = Inr links1"
    by (metis surj_pair validate_entry_Inr)
  moreover have "linksk = trail_of (take k es) {}" using validate_entries_Inr [OF k(1)] by simp
  ultimately have "entry_fits policy lim (es ! k)" "untangled (es ! k) (trail_of (take k es) {})"
    by (auto simp: check_entry_Inr dest: trail_check_Inr)
  with counts show ?thesis unfolding entry_fits_def untangled_def crosses_symlink_iff by auto
qed

definition demo_archive :: "tar_entry list" where
  "demo_archive =
     [\<lparr>te_path = ''a'', te_type = Directory, te_size = 0, te_link = None, te_mode = Inr 493, te_position = 512\<rparr>,
      \<lparr>te_path = ''a/s'', te_type = Symlink, te_size = 0, te_link = Some ''/run'', te_mode = Inr 511, te_position = 1024\<rparr>,
      \<lparr>te_path = ''a/f'', te_type = Regular, te_size = 5, te_link = None, te_mode = Inr 420, te_position = 1536\<rparr>]"

definition demo_archive_limits :: archive_limits where
  "demo_archive_limits =
     \<lparr>al_max_entries = 3, al_max_file_bytes = 5, al_max_total_bytes = 5, al_max_path_len = 3, al_max_depth = 2\<rparr>"

lemma demo_archive_accepted:
  "\<exists>st. validate_entries CopyPolicy demo_archive_limits demo_archive (no_totals, {}) = Inr st"
  by (simp add: demo_archive_def demo_archive_limits_def validate_entry_def check_entry_def check_link_def
      check_copied_def components_def part_component_def starts_with_def Let_def trail_check_def normal_components_def
      crosses_symlink_def fold_case_def is_plain_type_def SETID_MODE_BITS_def U64_MAX_def no_totals_def
      to_ascii_lowercase_def to_ascii_lowercase_char_def text_defs byte_def)

lemma demo_trail: "[''a'', ''s''] \<in> trail_of (take 2 demo_archive) {}"
  by (simp add: demo_archive_def numeral_2_eq_2 fresh_links_def normal_components_def components_def part_component_def
      starts_with_def Let_def fold_case_def to_ascii_lowercase_def to_ascii_lowercase_char_def text_defs byte_def)

theorem accepted_archive_contained_witness:
  "(\<exists>st. validate_entries CopyPolicy demo_archive_limits demo_archive (no_totals, {}) = Inr st) \<and>
   length demo_archive \<le> al_max_entries demo_archive_limits \<and>
   length (te_path (demo_archive ! 2)) \<le> 3 \<and> te_size (demo_archive ! 2) \<le> 5 \<and>
   \<not> strict_prefix [''a'', ''s''] (fold_case (normal_components (te_path (demo_archive ! 2))))"
proof -
  obtain st where st: "validate_entries CopyPolicy demo_archive_limits demo_archive (no_totals, {}) = Inr st"
    using demo_archive_accepted by blast
  have "al_max_total_bytes demo_archive_limits < U64_MAX" "2 < length demo_archive"
    by (simp_all add: demo_archive_def demo_archive_limits_def U64_MAX_def)
  note ok = accepted_archive_contained [OF st this]
  moreover have "al_max_path_len demo_archive_limits = 3" "al_max_file_bytes demo_archive_limits = 5"
    by (simp_all add: demo_archive_limits_def)
  ultimately have "length (te_path (demo_archive ! 2)) \<le> 3" "te_size (demo_archive ! 2) \<le> 5" by simp_all
  with ok demo_trail st show ?thesis by blast
qed

end
