(* ===== verification/Relay.thy ===== *)
theory Relay
  imports Archive Update
begin

text \<open>
  Copies out of a sandbox: the guest's tar is checked while it passes. The theory has the header guard and the
  scan of \<open>ward-archive/src/lib.rs\<close> and the relay of \<open>ward-core/src/sandbox/copy.rs\<close>, which forwards bytes to
  the client only up to the offset the scan has passed. The \<open>tar\<close> crate is a parameter: it is any program
  that asks its reader for bytes, and yields entries or fails depending on what it got.
\<close>

section \<open>The header guard\<close>

definition MAX_EXTENDED_HEADER_BYTES :: nat where "MAX_EXTENDED_HEADER_BYTES = 1048576"
definition BLOCK_SIZE :: nat where "BLOCK_SIZE = 512"
definition EXT_SPARSE_IS_EXTENDED_OFFSET :: nat where "EXT_SPARSE_IS_EXTENDED_OFFSET = 504"
definition CKSUM_FILL :: nat where "CKSUM_FILL = 32"
definition PAX_SIZE_KEY :: bytes where "PAX_SIZE_KEY = ''size''"

definition in_cksum_field :: "nat \<Rightarrow> bool" where
  "in_cksum_field i = (148 \<le> i \<and> i < 156)"

text \<open>
  The accessors of \<open>tar::Header\<close> on one block, and the keys \<open>tar::PaxExtensions\<close> finds in a body, with
  \<open>None\<close> for a record it cannot read.
\<close>

record header_reader =
  hr_cksum :: "bytes \<Rightarrow> nat option"
  hr_entry_size :: "bytes \<Rightarrow> nat option"
  hr_entry_type :: "bytes \<Rightarrow> entry_type"
  hr_is_extended :: "bytes \<Rightarrow> bool"
  hr_pax_keys :: "bytes \<Rightarrow> bytes option list"

datatype guard_state =
    GHeader
  | GSparseExtension nat
  | GBody nat nat bool

record guard =
  gu_reject_sparse :: bool
  gu_failed :: bool
  gu_state :: guard_state
  gu_block :: bytes
  gu_pax :: bytes

definition guard_new :: "bool \<Rightarrow> guard" where
  "guard_new reject_sparse =
     \<lparr>gu_reject_sparse = reject_sparse, gu_failed = False, gu_state = GHeader, gu_block = [], gu_pax = []\<rparr>"

text \<open>The sum is a \<open>u32\<close>; 512 bytes of at most 255 never reach its bound.\<close>

definition checksum_matches :: "header_reader \<Rightarrow> bytes \<Rightarrow> bool" where
  "checksum_matches hr block =
     (hr_cksum hr block =
        Some (sum_list (map (\<lambda>(i, b). if in_cksum_field i then CKSUM_FILL else byte b) (enumerate 0 block))))"

definition start_body :: "nat \<Rightarrow> bool \<Rightarrow> guard \<Rightarrow> guard" where
  "start_body sz pax g =
     (let padded = min U64_MAX ((sz + BLOCK_SIZE - 1) div BLOCK_SIZE * BLOCK_SIZE)
      in g\<lparr>gu_state := (if padded = 0 then GHeader else GBody padded sz pax), gu_pax := []\<rparr>)"

definition is_pax :: "entry_type \<Rightarrow> bool" where
  "is_pax kind = (kind = XHeader \<or> kind = XGlobalHeader)"

definition finish_header :: "header_reader \<Rightarrow> bytes \<Rightarrow> guard \<Rightarrow> archive_error + guard" where
  "finish_header hr block g =
     (if list_all (\<lambda>b. byte b = 0) block then Inr g
      else if \<not> checksum_matches hr block then Inl (ForbiddenHeader ''invalid header checksum'')
      else case hr_entry_size hr block of
        None \<Rightarrow> Inl (ForbiddenHeader ''unreadable size field'')
      | Some sz \<Rightarrow>
          let kind = hr_entry_type hr block
          in if kind = GNULongName \<or> kind = GNULongLink \<or> is_pax kind
             then if sz > MAX_EXTENDED_HEADER_BYTES
                  then Inl (LimitExceeded ''extended header size'' MAX_EXTENDED_HEADER_BYTES)
                  else Inr (start_body sz (is_pax kind) g)
             else if kind = GNUSparse
             then if gu_reject_sparse g then Inl (ForbiddenType ''GNU sparse file'')
                  else if hr_is_extended hr block then Inr (g\<lparr>gu_state := GSparseExtension sz\<rparr>)
                  else Inr (start_body sz False g)
             else Inr (start_body sz False g))"

definition finish_block :: "header_reader \<Rightarrow> bytes \<Rightarrow> guard \<Rightarrow> archive_error + guard" where
  "finish_block hr block g =
     (case gu_state g of
        GSparseExtension body \<Rightarrow>
          Inr (if byte (block ! EXT_SPARSE_IS_EXTENDED_OFFSET) \<noteq> 1 then start_body body False g else g)
      | _ \<Rightarrow> finish_header hr block g)"

fun check_pax :: "bytes option list \<Rightarrow> archive_error + unit" where
  "check_pax [] = Inr ()"
| "check_pax (None # _) = Inl (ForbiddenHeader ''malformed PAX record'')"
| "check_pax (Some key # rest) =
     (if key = PAX_SIZE_KEY then Inl (ForbiddenHeader ''PAX size override'') else check_pax rest)"

definition finish_pax :: "header_reader \<Rightarrow> guard \<Rightarrow> archive_error + guard" where
  "finish_pax hr g = and_then (check_pax (hr_pax_keys hr (gu_pax g))) (\<lambda>_. Inr (g\<lparr>gu_pax := []\<rparr>))"

text \<open>
  One turn of the loop of \<open>observe\<close>: the bytes it takes, at least one when there are some. The block
  buffer is what has been filled of it.
\<close>

definition observe_turn :: "header_reader \<Rightarrow> bytes \<Rightarrow> guard \<Rightarrow> archive_error + bytes \<times> guard" where
  "observe_turn hr bs g =
     (case gu_state g of
        GBody left data_left pax \<Rightarrow>
          (let n = min left (length bs); data = (if pax then min n data_left else 0);
               g = g\<lparr>gu_pax := gu_pax g @ take data bs, gu_state := GBody (left - n) (data_left - data) pax\<rparr>
           in if left - n = 0
              then and_then (if pax then finish_pax hr (g\<lparr>gu_state := GHeader\<rparr>) else Inr (g\<lparr>gu_state := GHeader\<rparr>))
                     (\<lambda>g. Inr (drop n bs, g))
              else Inr (drop n bs, g))
      | _ \<Rightarrow>
          (let n = min (BLOCK_SIZE - length (gu_block g)) (length bs); block = gu_block g @ take n bs
           in if length block = BLOCK_SIZE
              then and_then (finish_block hr block (g\<lparr>gu_block := []\<rparr>)) (\<lambda>g. Inr (drop n bs, g))
              else Inr (drop n bs, g\<lparr>gu_block := block\<rparr>)))"

text \<open>\<open>observe\<close>. Every turn takes bytes, as lemma \<open>observe_turn_shrinks\<close> shows, so the last branch is never taken.\<close>

function observe :: "header_reader \<Rightarrow> bytes \<Rightarrow> guard \<Rightarrow> archive_error + guard" where
  "observe hr bs g =
     (if bs = [] then Inr g
      else case observe_turn hr bs g of
        Inl err \<Rightarrow> Inl err
      | Inr (rest, g') \<Rightarrow> if length rest < length bs then observe hr rest g' else Inr g')"
  by pat_completeness auto

termination
  by (relation "measure (\<lambda>(hr, bs, g). length bs)") auto

declare observe.simps [simp del]

text \<open>\<open>Read for HeaderGuard\<close>: what the inner read gave becomes what the \<open>tar\<close> crate sees, and the refusal goes to the verdict.\<close>

definition archive_refused :: io_error where
  "archive_refused = io_err KOther ''archive refused'' []"

definition guard_read :: "header_reader \<Rightarrow> bytes io \<Rightarrow> guard \<Rightarrow> bytes io \<times> archive_error option \<times> guard" where
  "guard_read hr r g =
     (case r of
        Inl err \<Rightarrow> (Inl err, None, g)
      | Inr bs \<Rightarrow>
          (case observe hr bs g of
             Inl refusal \<Rightarrow> (Inl archive_refused, Some refusal, g\<lparr>gu_failed := True\<rparr>)
           | Inr g' \<Rightarrow> (Inr bs, None, g')))"

section \<open>The scan without a destination\<close>

text \<open>
  The \<open>tar\<close> crate's iterator: it asks for up to so many bytes and goes on with what the read gave, yields
  an entry, ends, or fails.
\<close>

datatype tar_program =
    TarEnd
  | TarFail io_error
  | TarRead nat "bytes io \<Rightarrow> tar_program"
  | TarEntry tar_entry tar_program

text \<open>What a checker does with its reader: it reads, tells the offset it has passed, and ends with a verdict.\<close>

datatype checker =
    CheckDone "archive_error + unit"
  | CheckRead nat "bytes io \<Rightarrow> checker"
  | CheckPassed nat checker

record scan_state =
  ss_guard :: guard
  ss_verdict :: "archive_error option"
  ss_totals :: totals
  ss_links :: "string list set"

definition scan_new :: "archive_policy \<Rightarrow> scan_state" where
  "scan_new policy =
     \<lparr>ss_guard = guard_new (policy = CopyPolicy), ss_verdict = None, ss_totals = no_totals, ss_links = {}\<rparr>"

definition blame :: "scan_state \<Rightarrow> io_error \<Rightarrow> archive_error" where
  "blame st err = unwrap_or (ss_verdict st) (ArchiveIo err)"

definition guarded :: "header_reader \<Rightarrow> bytes io \<Rightarrow> scan_state \<Rightarrow> bytes io \<times> scan_state" where
  "guarded hr r st =
     (let (seen, refusal, g) = guard_read hr r (ss_guard st)
      in (seen, st\<lparr>ss_guard := g, ss_verdict := (case refusal of Some v \<Rightarrow> Some v | None \<Rightarrow> ss_verdict st)\<rparr>))"

text \<open>
  \<open>scan\<close>: a reader that has refused the stream answers further reads at once. Otherwise the read goes to
  the reader below, through the guard.
\<close>

primrec scan ::
  "header_reader \<Rightarrow> archive_policy \<Rightarrow> archive_limits \<Rightarrow> tar_program \<Rightarrow> scan_state \<Rightarrow> checker" where
  "scan hr policy lim TarEnd = (\<lambda>st. CheckDone (Inr ()))"
| "scan hr policy lim (TarFail err) = (\<lambda>st. CheckDone (Inl (blame st err)))"
| "scan hr policy lim (TarRead n k) = (\<lambda>st.
     if gu_failed (ss_guard st) then scan hr policy lim (k (Inl archive_refused)) st
     else CheckRead n (\<lambda>r. case guarded hr r st of (seen, st') \<Rightarrow> scan hr policy lim (k seen) st'))"
| "scan hr policy lim (TarEntry e rest) = (\<lambda>st.
     case validate_entry policy lim e (ss_totals st, ss_links st) of
       Inl err \<Rightarrow> CheckDone (Inl err)
     | Inr (t, links) \<Rightarrow>
         CheckPassed (min U64_MAX (te_position e + te_size e))
           (scan hr policy lim rest (st\<lparr>ss_totals := t, ss_links := links\<rparr>)))"

section \<open>Holding bytes back\<close>

definition TRAILER_LIMIT_BYTES :: nat where "TRAILER_LIMIT_BYTES = 16 * 512"

text \<open>
  What a wait for the next guest chunk gives: a chunk or the guest's error, nothing for the idle time, or a
  client that left. The list of what is still to come ends the stream.
\<close>

datatype wait = WaitChunk bytes | WaitError io_error | WaitTimeout | WaitClosed

text \<open>\<open>hb_room\<close> is how many sends the client still takes, and \<open>hb_out\<close> what it has been sent.\<close>

record hold_back =
  hb_source :: "wait list"
  hb_room :: nat
  hb_out :: "bytes list"
  hb_passed :: nat
  hb_held :: bytes
  hb_cursor :: nat
  hb_forwarded :: nat

definition hold_back_new :: "wait list \<Rightarrow> nat \<Rightarrow> hold_back" where
  "hold_back_new source room =
     \<lparr>hb_source = source, hb_room = room, hb_out = [], hb_passed = 0, hb_held = [], hb_cursor = 0, hb_forwarded = 0\<rparr>"

definition client_gone :: io_error where
  "client_gone = io_err KBrokenPipe ''client went away'' []"

definition forward :: "nat \<Rightarrow> hold_back \<Rightarrow> unit io \<times> hold_back" where
  "forward n hb =
     (if n = 0 then (Inr (), hb)
      else let chunk = take n (hb_held hb);
               hb = hb\<lparr>hb_held := drop n (hb_held hb), hb_cursor := hb_cursor hb - n, hb_forwarded := hb_forwarded hb + n\<rparr>
           in if hb_room hb = 0 then (Inl client_gone, hb)
              else (Inr (), hb\<lparr>hb_room := hb_room hb - 1, hb_out := hb_out hb @ [chunk]\<rparr>))"

definition forward_passed :: "hold_back \<Rightarrow> unit io \<times> hold_back" where
  "forward_passed hb =
     (let upto = min (hb_passed hb) (hb_forwarded hb + hb_cursor hb) in forward (upto - hb_forwarded hb) hb)"

definition receive_chunk :: "hold_back \<Rightarrow> bool io \<times> hold_back" where
  "receive_chunk hb =
     (case hb_source hb of
        [] \<Rightarrow> (Inr False, hb)
      | w # ws \<Rightarrow>
          (let hb = hb\<lparr>hb_source := ws\<rparr>
           in case w of
                WaitChunk bs \<Rightarrow> (Inr True, hb\<lparr>hb_held := hb_held hb @ bs\<rparr>)
              | WaitError err \<Rightarrow> (Inl err, hb)
              | WaitTimeout \<Rightarrow> (Inl (io_err KTimedOut ''guest sent nothing for {:?}'' []), hb)
              | WaitClosed \<Rightarrow> (Inl client_gone, hb)))"

lemma forward_source [simp]: "hb_source (snd (forward n hb)) = hb_source hb"
  by (simp add: forward_def Let_def)

lemma forward_passed_source: "(r, hb') = forward_passed hb \<Longrightarrow> hb_source hb' = hb_source hb"
  using forward_source [of _ hb] by (metis forward_passed_def snd_conv)

lemma receive_source: "(r, hb') = receive_chunk hb \<Longrightarrow> hb_source hb = w # ws \<Longrightarrow> hb_source hb' = ws"
  by (auto simp: receive_chunk_def Let_def split: wait.splits)

text \<open>\<open>Read for HoldBack\<close>: the loop that waits for bytes, then the read.\<close>

function await_bytes :: "hold_back \<Rightarrow> unit io \<times> hold_back" where
  "await_bytes hb =
     (if hb_cursor hb \<noteq> length (hb_held hb) then (Inr (), hb)
      else case forward_passed hb of
        (Inl err, hb) \<Rightarrow> (Inl err, hb)
      | (Inr _, hb1) \<Rightarrow>
          (case hb_source hb1 of
             [] \<Rightarrow> (Inr (), hb1)
           | _ # _ \<Rightarrow>
               (case receive_chunk hb1 of
                  (Inl err, hb2) \<Rightarrow> (Inl err, hb2)
                | (Inr _, hb2) \<Rightarrow> await_bytes hb2)))"
  by pat_completeness auto

termination
  by (relation "measure (\<lambda>hb. length (hb_source hb))") (auto dest!: forward_passed_source receive_source)

declare await_bytes.simps [simp del]

definition hold_back_read :: "nat \<Rightarrow> hold_back \<Rightarrow> bytes io \<times> hold_back" where
  "hold_back_read buf_len hb =
     (case await_bytes hb of
        (Inl err, hb) \<Rightarrow> (Inl err, hb)
      | (Inr _, hb) \<Rightarrow>
          (let n = min buf_len (length (hb_held hb) - hb_cursor hb)
           in (Inr (take n (drop (hb_cursor hb) (hb_held hb))), hb\<lparr>hb_cursor := hb_cursor hb + n\<rparr>)))"

text \<open>\<open>finish\<close>: what follows the end of the tar may only be a bounded run of zeros.\<close>

function finish_loop :: "nat \<Rightarrow> hold_back \<Rightarrow> (archive_error + unit) \<times> hold_back" where
  "finish_loop trailing hb =
     (let rest = drop (hb_cursor hb) (hb_held hb); trailing = trailing + length rest
      in if list_ex (\<lambda>b. byte b \<noteq> 0) rest then (Inl (ForbiddenHeader ''data follows the end of the archive''), hb)
         else if trailing > TRAILER_LIMIT_BYTES then (Inl (LimitExceeded ''trailing bytes'' TRAILER_LIMIT_BYTES), hb)
         else let hb = hb\<lparr>hb_cursor := length (hb_held hb)\<rparr>
              in case hb_source hb of
                   [] \<Rightarrow>
                     (case forward (length (hb_held hb)) hb of
                        (Inl err, hb) \<Rightarrow> (Inl (ArchiveIo err), hb)
                      | (Inr _, hb) \<Rightarrow> (Inr (), hb))
                 | _ # _ \<Rightarrow>
                     (case receive_chunk hb of
                        (Inl err, hb) \<Rightarrow> (Inl (ArchiveIo err), hb)
                      | (Inr _, hb) \<Rightarrow> finish_loop trailing hb))"
  by pat_completeness auto

termination
  by (relation "measure (\<lambda>(t, hb). length (hb_source hb))") (auto dest!: receive_source)

declare finish_loop.simps [simp del]

section \<open>The relay\<close>

primrec run_checker :: "checker \<Rightarrow> hold_back \<Rightarrow> (archive_error + unit) \<times> hold_back" where
  "run_checker (CheckDone r) = (\<lambda>hb. (r, hb))"
| "run_checker (CheckRead n k) = (\<lambda>hb. case hold_back_read n hb of (r, hb') \<Rightarrow> run_checker (k r) hb')"
| "run_checker (CheckPassed offset c) = (\<lambda>hb. run_checker c (hb\<lparr>hb_passed := offset\<rparr>))"

definition relay_run ::
  "header_reader \<Rightarrow> tar_program \<Rightarrow> archive_limits \<Rightarrow> wait list \<Rightarrow> nat \<Rightarrow> (archive_error + unit) \<times> hold_back" where
  "relay_run hr tar lim source room =
     (case run_checker (scan hr CopyPolicy lim tar (scan_new CopyPolicy)) (hold_back_new source room) of
        (Inl err, hb) \<Rightarrow> (Inl err, hb)
      | (Inr _, hb) \<Rightarrow> finish_loop 0 hb)"

record guest_target =
  gt_container :: string
  gt_path :: string

definition missing :: "guest_target \<Rightarrow> api_error" where
  "missing gt =
     PathNotFound (Msg ''Could not find the file {} in container {}'' [S (gt_path gt), S (gt_container gt)])"

definition backend_failure :: "guest_target \<Rightarrow> backend_error \<Rightarrow> api_error" where
  "backend_failure gt err =
     (case err of
        BeNotFound i \<Rightarrow> SandboxNotFound i
      | BePathNotFound _ \<Rightarrow> missing gt
      | BeInvalidArgument detail \<Rightarrow> InvalidRequest detail
      | BeExec detail \<Rightarrow> GuestIo detail
      | _ \<Rightarrow> Backend (Msg ''{other}'' []))"

definition relay_failure :: "guest_target \<Rightarrow> archive_error \<Rightarrow> api_error" where
  "relay_failure gt err =
     (case err of
        ArchiveIo (kind, msg) \<Rightarrow>
          (case kind of
             KNotFound \<Rightarrow> missing gt
           | KInvalidInput \<Rightarrow> InvalidRequest msg
           | KOther \<Rightarrow> GuestIo msg
           | _ \<Rightarrow> Backend (Msg ''copy from sandbox: {io}'' []))
      | _ \<Rightarrow> InvalidRequest (Msg ''cannot copy from the sandbox: {refused}'' []))"

text \<open>What the client's receiver gets: the chunks, and the failure last when the client still listens.\<close>

definition relay_within ::
  "header_reader \<Rightarrow> tar_program \<Rightarrow> archive_limits \<Rightarrow> guest_target \<Rightarrow> wait list \<Rightarrow> nat \<Rightarrow> bytes result list" where
  "relay_within hr tar lim gt source room =
     (let (outcome, hb) = relay_run hr tar lim source room
      in map Inr (hb_out hb) @
         (case outcome of
            Inl err \<Rightarrow> if hb_room hb = 0 then [] else [Inl (relay_failure gt err)]
          | Inr _ \<Rightarrow> []))"

section \<open>What the relay promises\<close>

primrec chunk_of :: "wait \<Rightarrow> bytes" where
  "chunk_of (WaitChunk bs) = bs"
| "chunk_of (WaitError _) = []"
| "chunk_of WaitTimeout = []"
| "chunk_of WaitClosed = []"

abbreviation stream_bytes :: "wait list \<Rightarrow> bytes" where
  "stream_bytes ws \<equiv> concat (map chunk_of ws)"

text \<open>
  Everything received is what the client got, then what a failed send lost, then what is held. Bytes are only
  lost to a client that takes no more.
\<close>

definition hold_back_inv :: "wait list \<Rightarrow> hold_back \<Rightarrow> bool" where
  "hold_back_inv source hb \<longleftrightarrow>
     hb_cursor hb \<le> length (hb_held hb) \<and>
     (\<exists>used lost. source = used @ hb_source hb \<and>
        stream_bytes used = concat (hb_out hb) @ lost @ hb_held hb \<and>
        hb_forwarded hb = length (concat (hb_out hb)) + length lost \<and>
        (lost \<noteq> [] \<longrightarrow> hb_room hb = 0))"

lemma hold_back_inv_new: "hold_back_inv source (hold_back_new source room)"
  unfolding hold_back_inv_def hold_back_new_def by (auto intro: exI [of _ "[]"])

lemma hold_back_inv_cursor:
  "hold_back_inv source hb \<Longrightarrow> n \<le> length (hb_held hb) \<Longrightarrow> hold_back_inv source (hb\<lparr>hb_cursor := n\<rparr>)"
  "hold_back_inv source hb \<Longrightarrow> hold_back_inv source (hb\<lparr>hb_passed := n\<rparr>)"
  unfolding hold_back_inv_def by auto

lemma forward_inv:
  assumes "hold_back_inv source hb" "n \<le> length (hb_held hb)"
  shows "hold_back_inv source (snd (forward n hb))"
proof (cases "n = 0")
  case False
  from assms(1) obtain used lost where u: "source = used @ hb_source hb"
      "stream_bytes used = concat (hb_out hb) @ lost @ hb_held hb"
      "hb_forwarded hb = length (concat (hb_out hb)) + length lost" "lost \<noteq> [] \<longrightarrow> hb_room hb = 0"
      "hb_cursor hb \<le> length (hb_held hb)"
    unfolding hold_back_inv_def by auto
  show ?thesis
  proof (cases "hb_room hb = 0")
    case True
    with u False assms(2) show ?thesis unfolding hold_back_inv_def forward_def
      by (auto simp: Let_def intro!: exI [of _ used] exI [of _ "lost @ take n (hb_held hb)"])
  next
    case room: False
    with u False assms(2) show ?thesis unfolding hold_back_inv_def forward_def
      by (auto simp: Let_def intro!: exI [of _ used] exI [of _ "[]"])
  qed
qed (use assms in \<open>simp add: forward_def\<close>)

lemma forward_passed_inv: "hold_back_inv source hb \<Longrightarrow> hold_back_inv source (snd (forward_passed hb))"
  unfolding forward_passed_def Let_def by (rule forward_inv) (auto simp: hold_back_inv_def)

lemma receive_inv:
  assumes "hold_back_inv source hb"
  shows "hold_back_inv source (snd (receive_chunk hb))"
proof (cases "hb_source hb")
  case (Cons w ws)
  from assms obtain used lost where u: "source = used @ hb_source hb"
      "stream_bytes used = concat (hb_out hb) @ lost @ hb_held hb"
      "hb_forwarded hb = length (concat (hb_out hb)) + length lost" "lost \<noteq> [] \<longrightarrow> hb_room hb = 0"
      "hb_cursor hb \<le> length (hb_held hb)"
    unfolding hold_back_inv_def by auto
  with Cons show ?thesis unfolding hold_back_inv_def receive_chunk_def
    by (cases w) (auto simp: Let_def intro!: exI [of _ "used @ [w]"] exI [of _ lost])
qed (use assms in \<open>simp add: receive_chunk_def\<close>)

text \<open>What forwarding and receiving keep, waiting for bytes keeps.\<close>

lemma await_rule:
  assumes "P hb" and "\<And>hb. P hb \<Longrightarrow> P (snd (forward_passed hb))" and "\<And>hb. P hb \<Longrightarrow> P (snd (receive_chunk hb))"
  shows "P (snd (await_bytes hb))"
  using assms(1)
proof (induction hb rule: await_bytes.induct)
  case (1 hb)
  show ?case using "1.IH" assms(2) [OF "1.prems"] assms(3) "1.prems"
    by (subst await_bytes.simps) (fastforce split: prod.splits sum.splits list.splits)
qed

lemma await_inv: "hold_back_inv source hb \<Longrightarrow> hold_back_inv source (snd (await_bytes hb))"
  by (rule await_rule) (auto intro: forward_passed_inv receive_inv)

lemma read_inv: "hold_back_inv source hb \<Longrightarrow> hold_back_inv source (snd (hold_back_read n hb))"
  using await_inv [of source hb] unfolding hold_back_read_def
  by (auto simp: Let_def hold_back_inv_def split: prod.splits sum.splits)

lemma run_checker_inv: "hold_back_inv source hb \<Longrightarrow> hold_back_inv source (snd (run_checker c hb))"
proof (induction c arbitrary: hb)
  case (CheckRead n k)
  from read_inv [OF CheckRead.prems, of n] CheckRead.IH show ?case by (auto split: prod.splits)
qed (auto intro: hold_back_inv_cursor)

lemma finish_inv: "hold_back_inv source hb \<Longrightarrow> hold_back_inv source (snd (finish_loop t hb))"
proof (induction t hb rule: finish_loop.induct)
  case (1 t hb)
  have *: "hold_back_inv source (hb\<lparr>hb_cursor := length (hb_held hb)\<rparr>)" using "1.prems" by (rule hold_back_inv_cursor) simp
  show ?case using "1.IH" forward_inv [OF *] receive_inv [OF *] "1.prems"
    by (subst finish_loop.simps) (fastforce simp: Let_def split: prod.splits sum.splits list.splits)
qed

text \<open>The offsets a checker passes in a run.\<close>

primrec run_passes :: "checker \<Rightarrow> hold_back \<Rightarrow> nat list" where
  "run_passes (CheckDone r) = (\<lambda>hb. [])"
| "run_passes (CheckRead n k) = (\<lambda>hb. case hold_back_read n hb of (r, hb') \<Rightarrow> run_passes (k r) hb')"
| "run_passes (CheckPassed offset c) = (\<lambda>hb. offset # run_passes c (hb\<lparr>hb_passed := offset\<rparr>))"

lemma forward_passed_bound:
  "hb_forwarded (snd (forward_passed hb)) \<le> max (hb_forwarded hb) (hb_passed hb)"
  "hb_passed (snd (forward_passed hb)) = hb_passed hb"
  by (auto simp: forward_passed_def forward_def Let_def)

lemma receive_bound [simp]:
  "hb_forwarded (snd (receive_chunk hb)) = hb_forwarded hb" "hb_passed (snd (receive_chunk hb)) = hb_passed hb"
  "hb_out (snd (receive_chunk hb)) = hb_out hb"
  by (auto simp: receive_chunk_def Let_def split: list.splits wait.splits)

lemma await_bound:
  "hb_forwarded (snd (await_bytes hb)) \<le> max (hb_forwarded hb) (hb_passed hb) \<and>
   hb_passed (snd (await_bytes hb)) = hb_passed hb"
proof (rule await_rule)
  fix hb' :: hold_back assume "hb_forwarded hb' \<le> max (hb_forwarded hb) (hb_passed hb) \<and> hb_passed hb' = hb_passed hb"
  then show "hb_forwarded (snd (forward_passed hb')) \<le> max (hb_forwarded hb) (hb_passed hb) \<and>
      hb_passed (snd (forward_passed hb')) = hb_passed hb"
    using forward_passed_bound [of hb'] by auto
qed auto

lemma read_bound:
  "hb_forwarded (snd (hold_back_read n hb)) \<le> max (hb_forwarded hb) (hb_passed hb)"
  "hb_passed (snd (hold_back_read n hb)) = hb_passed hb"
  using await_bound [of hb] by (auto simp: hold_back_read_def Let_def split: prod.splits sum.splits)

lemma run_checker_bound:
  assumes "hb_forwarded hb \<le> M" "hb_passed hb \<le> M" "list_all (\<lambda>p. p \<le> M) (run_passes c hb)"
  shows "hb_forwarded (snd (run_checker c hb)) \<le> M"
  using assms
proof (induction c arbitrary: hb)
  case (CheckRead n k)
  have "hb_forwarded (snd (hold_back_read n hb)) \<le> M" "hb_passed (snd (hold_back_read n hb)) \<le> M"
    using read_bound [of n hb] CheckRead.prems(1,2) by auto
  with CheckRead show ?case by (auto split: prod.splits)
qed auto

text \<open>The entries a program of the \<open>tar\<close> crate may have yielded so far, whatever its reads gave.\<close>

inductive yields :: "tar_program \<Rightarrow> tar_entry list \<Rightarrow> bool" where
  yields_none: "yields tar []"
| yields_entry: "yields rest es \<Longrightarrow> yields (TarEntry e rest) (e # es)"
| yields_read: "yields (k r) es \<Longrightarrow> yields (TarRead n k) es"

definition entry_end :: "tar_entry \<Rightarrow> nat" where
  "entry_end e = min U64_MAX (te_position e + te_size e)"

lemma scan_passes:
  "\<exists>es st'. yields tar es \<and> validate_entries policy lim es (ss_totals st, ss_links st) = Inr st' \<and>
     run_passes (scan hr policy lim tar st) hb = map entry_end es"
proof (induction tar arbitrary: st hb)
  case (TarRead n k)
  show ?case
  proof (cases "gu_failed (ss_guard st)")
    case True
    then show ?thesis using TarRead.IH [of "k (Inl archive_refused)" st hb] by (auto intro: yields_read)
  next
    case False
    let ?r = "fst (hold_back_read n hb)"
    have "ss_totals (snd (guarded hr ?r st)) = ss_totals st" "ss_links (snd (guarded hr ?r st)) = ss_links st"
      by (auto simp: guarded_def split: prod.splits)
    then show ?thesis using False TarRead.IH [of "k (fst (guarded hr ?r st))" "snd (guarded hr ?r st)" "snd (hold_back_read n hb)"]
      by (auto simp: case_prod_beta intro: yields_read)
  qed
next
  case (TarEntry e rest)
  show ?case
  proof (cases "validate_entry policy lim e (ss_totals st, ss_links st)")
    case (Inl err)
    then show ?thesis by (auto intro!: exI [of _ "[]"] yields_none)
  next
    case (Inr tl)
    obtain t links where tl: "tl = (t, links)" by force
    from TarEntry.IH [of "st\<lparr>ss_totals := t, ss_links := links\<rparr>" "hb\<lparr>hb_passed := entry_end e\<rparr>"]
    obtain es st' where "yields rest es" "validate_entries policy lim es (t, links) = Inr st'"
        "run_passes (scan hr policy lim rest (st\<lparr>ss_totals := t, ss_links := links\<rparr>)) (hb\<lparr>hb_passed := entry_end e\<rparr>) =
         map entry_end es"
      by auto
    with Inr tl show ?thesis
      by (intro exI [of _ "e # es"] exI [of _ st']) (simp add: entry_end_def yields_entry)
  qed
qed (auto intro: yields_none)

text \<open>A finish that fails has sent nothing; one that succeeds has sent everything.\<close>

lemma finish_outcome:
  assumes "finish_loop t hb = (r, hb')"
  shows "(r \<noteq> Inr () \<longrightarrow> hb_out hb' = hb_out hb) \<and> (r = Inr () \<longrightarrow> hb_source hb' = [] \<and> hb_held hb' = [])"
  using assms
proof (induction t hb arbitrary: r hb' rule: finish_loop.induct)
  case (1 t hb)
  let ?rest = "drop (hb_cursor hb) (hb_held hb)" and ?hb = "hb\<lparr>hb_cursor := length (hb_held hb)\<rparr>"
  show ?case
  proof (cases "list_ex (\<lambda>b. byte b \<noteq> 0) ?rest \<or> t + length ?rest > TRAILER_LIMIT_BYTES")
    case True
    with "1.prems" show ?thesis by (subst (asm) finish_loop.simps) (auto simp: Let_def split: if_splits)
  next
    case ok: False
    show ?thesis
    proof (cases "hb_source hb")
      case Nil
      with "1.prems" ok show ?thesis
        by (subst (asm) finish_loop.simps) (auto simp: Let_def forward_def split: if_splits)
    next
      case (Cons w ws)
      obtain x hb2 where x: "receive_chunk ?hb = (x, hb2)" by force
      then have out: "hb_out hb2 = hb_out hb" using receive_bound(3) [of ?hb] by simp
      show ?thesis
      proof (cases x)
        case (Inl err)
        with "1.prems" ok Cons x out show ?thesis by (subst (asm) finish_loop.simps) (auto simp: Let_def)
      next
        case (Inr b)
        from "1.prems" ok Cons x Inr have "finish_loop (t + length ?rest) hb2 = (r, hb')"
          by (subst (asm) finish_loop.simps) (auto simp: Let_def)
        with "1.IH" [OF refl refl _ _ refl _ x [symmetric] Inr, of w ws r hb'] ok Cons out show ?thesis by auto
      qed
    qed
  qed
qed

lemma hold_back_inv_prefix:
  assumes "hold_back_inv source hb"
  shows "prefix (concat (hb_out hb)) (stream_bytes source)"
    and "length (concat (hb_out hb)) \<le> hb_forwarded hb"
    and "hb_source hb = [] \<Longrightarrow> hb_held hb = [] \<Longrightarrow> 0 < hb_room hb \<Longrightarrow> concat (hb_out hb) = stream_bytes source"
  using assms unfolding hold_back_inv_def by auto

text \<open>
  C15: Whatever the guest sends and however the \<open>tar\<close> crate reads it, what the client gets is a prefix of
  the guest's stream. When the archive is refused or the copy fails, no byte has been forwarded past the end
  of the last entry of a sequence that passed every check of the copy policy; when the copy succeeds and the
  client stayed, every byte arrived.
\<close>

theorem relay_forwards_only_checked:
  assumes "relay_run hr tar lim source room = (outcome, hb)"
  shows "prefix (concat (hb_out hb)) (stream_bytes source) \<and>
    (\<exists>es st. yields tar es \<and> validate_entries CopyPolicy lim es (no_totals, {}) = Inr st \<and>
       (outcome \<noteq> Inr () \<longrightarrow> length (concat (hb_out hb)) \<le> Max (set (0 # map entry_end es)))) \<and>
    (outcome = Inr () \<and> 0 < hb_room hb \<longrightarrow> concat (hb_out hb) = stream_bytes source)"
proof -
  let ?c = "scan hr CopyPolicy lim tar (scan_new CopyPolicy)" and ?hb = "hold_back_new source room"
  obtain r hb1 where run: "run_checker ?c ?hb = (r, hb1)" by force
  have inv1: "hold_back_inv source hb1" using run_checker_inv [OF hold_back_inv_new, of source ?c room] run by simp
  obtain es st where es: "yields tar es" "validate_entries CopyPolicy lim es (no_totals, {}) = Inr st"
      "run_passes ?c ?hb = map entry_end es"
    using scan_passes [of tar CopyPolicy lim "scan_new CopyPolicy" hr ?hb] by (auto simp: scan_new_def)
  have "hb_forwarded hb1 \<le> Max (set (0 # map entry_end es))"
    using run_checker_bound [of ?hb "Max (set (0 # map entry_end es))" ?c] run es(3)
    by (simp add: hold_back_new_def list_all_iff)
  with hold_back_inv_prefix(2) [OF inv1] have bound: "length (concat (hb_out hb1)) \<le> Max (set (0 # map entry_end es))"
    by simp
  show ?thesis
  proof (cases r)
    case (Inl err)
    then have "hb = hb1" "outcome = Inl err" using assms run by (auto simp: relay_run_def)
    then show ?thesis using hold_back_inv_prefix(1) [OF inv1] es bound by auto
  next
    case (Inr u)
    then have fin: "finish_loop 0 hb1 = (outcome, hb)" using assms run by (auto simp: relay_run_def)
    then have "hold_back_inv source hb" using finish_inv [OF inv1, of 0] by simp
    then show ?thesis using hold_back_inv_prefix [of source hb] finish_outcome [OF fin] es bound by auto
  qed
qed

definition demo_header_reader :: header_reader where
  "demo_header_reader =
     \<lparr>hr_cksum = (\<lambda>_. None), hr_entry_size = (\<lambda>_. None), hr_entry_type = (\<lambda>_. Regular),
      hr_is_extended = (\<lambda>_. False), hr_pax_keys = (\<lambda>_. [])\<rparr>"

definition demo_tar :: tar_program where
  "demo_tar = TarRead 2 (\<lambda>_. TarEntry (hd demo_archive\<lparr>te_position := 1\<rparr>)
                (TarRead 2 (\<lambda>_. TarEntry (hd demo_archive\<lparr>te_path := ''/etc''\<rparr>) TarEnd)))"

lemmas relay_eval = relay_run_def demo_tar_def scan_new_def hold_back_new_def hold_back_read_def await_bytes.simps
  forward_passed_def forward_def receive_chunk_def guarded_def guard_read_def observe.simps observe_turn_def
  guard_new_def BLOCK_SIZE_def Let_def demo_archive_def demo_archive_limits_def no_totals_def U64_MAX_def
  validate_entry_def check_entry_def check_link_def check_copied_def components_def part_component_def
  starts_with_def trail_check_def normal_components_def crosses_symlink_def is_plain_type_def SETID_MODE_BITS_def

lemma demo_relay:
  "\<exists>err hb. relay_run demo_header_reader demo_tar demo_archive_limits [WaitChunk ''a'', WaitChunk ''b''] 5 = (Inl err, hb) \<and>
     hb_out hb = [''a'']"
  by (simp add: relay_eval)

theorem relay_forwards_only_checked_witness:
  "\<exists>err hb es. relay_run demo_header_reader demo_tar demo_archive_limits [WaitChunk ''a'', WaitChunk ''b''] 5 = (Inl err, hb) \<and>
     yields demo_tar es \<and> length (concat (hb_out hb)) \<le> Max (set (0 # map entry_end es)) \<and>
     prefix (concat (hb_out hb)) ''ab''"
proof -
  obtain err hb where "relay_run demo_header_reader demo_tar demo_archive_limits [WaitChunk ''a'', WaitChunk ''b''] 5 = (Inl err, hb)"
    using demo_relay by blast
  with relay_forwards_only_checked [OF this] show ?thesis by auto
qed

section \<open>The guard's buffers\<close>

text \<open>What the guard holds: less than a block, and of an extended header no more than is still allowed.\<close>

definition guard_inv :: "guard \<Rightarrow> bool" where
  "guard_inv g \<longleftrightarrow>
     length (gu_block g) < BLOCK_SIZE \<and>
     (case gu_state g of
        GBody left data_left pax \<Rightarrow>
          0 < left \<and> (if pax then length (gu_pax g) + data_left \<le> MAX_EXTENDED_HEADER_BYTES else gu_pax g = [])
      | _ \<Rightarrow> gu_pax g = [])"

lemma guard_inv_pax: "guard_inv g \<Longrightarrow> length (gu_pax g) \<le> MAX_EXTENDED_HEADER_BYTES"
  unfolding guard_inv_def by (auto split: guard_state.splits if_splits)

lemma guard_new_inv: "guard_inv (guard_new b)"
  by (simp add: guard_inv_def guard_new_def BLOCK_SIZE_def)

lemma start_body_inv:
  "length (gu_block g) < BLOCK_SIZE \<Longrightarrow> (pax \<longrightarrow> sz \<le> MAX_EXTENDED_HEADER_BYTES) \<Longrightarrow> guard_inv (start_body sz pax g)"
  by (auto simp: start_body_def guard_inv_def Let_def)

lemma finish_block_inv:
  assumes "finish_block hr block g = Inr g'" "gu_block g = []" "gu_pax g = []" "\<And>l d p. gu_state g \<noteq> GBody l d p"
  shows "guard_inv g'"
proof -
  have "0 < BLOCK_SIZE" by (simp add: BLOCK_SIZE_def)
  then have g: "guard_inv g" using assms(2-4) by (auto simp: guard_inv_def split: guard_state.splits)
  have body: "guard_inv (start_body sz pax g)" if "pax \<longrightarrow> sz \<le> MAX_EXTENDED_HEADER_BYTES" for sz pax
    using start_body_inv that assms(2) \<open>0 < BLOCK_SIZE\<close> by simp
  have "guard_inv (g\<lparr>gu_state := GSparseExtension n\<rparr>)" for n using g assms(3) by (simp add: guard_inv_def)
  with assms(1) g body show ?thesis
    unfolding finish_block_def finish_header_def
    by (auto simp: Let_def split: guard_state.splits if_splits option.splits)
qed

lemma finish_pax_inv:
  assumes "finish_pax hr g = Inr g'" "length (gu_block g) < BLOCK_SIZE" "gu_state g = GHeader"
  shows "guard_inv g'"
  using assms by (auto simp: finish_pax_def guard_inv_def)

lemma observe_turn_inv:
  assumes "guard_inv g" "observe_turn hr bs g = Inr (rest, g')"
  shows "guard_inv g'"
proof (cases "gu_state g")
  case (GBody left data_left pax)
  let ?n = "min left (length bs)" and ?data = "if pax then min (min left (length bs)) data_left else 0"
  let ?g = "g\<lparr>gu_pax := gu_pax g @ take ?data bs, gu_state := GHeader\<rparr>"
  show ?thesis
  proof (cases "left \<le> length bs \<and> pax")
    case True
    with assms(2) GBody have "finish_pax hr ?g = Inr g'" by (auto simp: observe_turn_def Let_def)
    then show ?thesis by (rule finish_pax_inv) (use assms(1) in \<open>simp_all add: guard_inv_def\<close>)
  next
    case False
    with assms GBody show ?thesis unfolding observe_turn_def
      by (auto simp: Let_def guard_inv_def split: if_splits)
  qed
next
  case GHeader
  with assms show ?thesis unfolding observe_turn_def
    by (auto simp: Let_def split: if_splits dest!: finish_block_inv)
      (auto simp: guard_inv_def)
next
  case (GSparseExtension body)
  with assms show ?thesis unfolding observe_turn_def
    by (auto simp: Let_def split: if_splits dest!: finish_block_inv)
      (auto simp: guard_inv_def)
qed

lemma observe_turn_shrinks:
  assumes "guard_inv g" "bs \<noteq> []" "observe_turn hr bs g = Inr (rest, g')"
  shows "length rest < length bs"
  using assms unfolding observe_turn_def guard_inv_def
  by (cases "gu_state g") (auto simp: Let_def split: if_splits)

lemma observe_inv: "guard_inv g \<Longrightarrow> observe hr bs g = Inr g' \<Longrightarrow> guard_inv g'"
proof (induction hr bs g arbitrary: g' rule: observe.induct)
  case (1 hr bs g)
  from "1.prems" show ?case
    by (subst (asm) observe.simps)
      (auto split: if_splits sum.splits prod.splits dest: observe_turn_inv observe_turn_shrinks intro: "1.IH")
qed

text \<open>How many bytes the guard takes before its state changes.\<close>

definition appetite :: "guard \<Rightarrow> nat" where
  "appetite g = (case gu_state g of GBody left _ _ \<Rightarrow> left | _ \<Rightarrow> BLOCK_SIZE - length (gu_block g))"

lemma observe_turn_full:
  assumes "appetite g \<le> length a"
  shows "observe_turn hr (a @ b) g = and_then (observe_turn hr a g) (\<lambda>(rest, g'). Inr (rest @ b, g'))"
  using assms unfolding observe_turn_def appetite_def
  by (cases "gu_state g") (auto simp: Let_def and_then_def split: sum.splits)

lemma observe_turn_block:
  assumes "\<And>l d p. gu_state g \<noteq> GBody l d p"
  shows "observe_turn hr bs g =
     (let n = min (BLOCK_SIZE - length (gu_block g)) (length bs); block = gu_block g @ take n bs
      in if length block = BLOCK_SIZE
         then and_then (finish_block hr block (g\<lparr>gu_block := []\<rparr>)) (\<lambda>g. Inr (drop n bs, g))
         else Inr (drop n bs, g\<lparr>gu_block := block\<rparr>))"
  using assms by (cases "gu_state g") (auto simp: observe_turn_def)

lemma observe_turn_block_partial:
  assumes "\<And>l d p. gu_state g \<noteq> GBody l d p" "length (gu_block g) + length a < BLOCK_SIZE"
  shows "observe_turn hr a g = Inr ([], g\<lparr>gu_block := gu_block g @ a\<rparr>)"
    and "observe_turn hr (a @ b) g = observe_turn hr b (g\<lparr>gu_block := gu_block g @ a\<rparr>)"
proof -
  let ?g = "g\<lparr>gu_block := gu_block g @ a\<rparr>"
  have g: "\<And>l d p. gu_state ?g \<noteq> GBody l d p" using assms(1) by simp
  show "observe_turn hr a g = Inr ([], ?g)" unfolding observe_turn_block [OF assms(1)] using assms(2) by (simp add: Let_def)
  obtain k where k: "BLOCK_SIZE = length (gu_block g) + length a + k" "0 < k"
    using less_imp_add_positive [OF assms(2)] by metis
  have n: "min (BLOCK_SIZE - length (gu_block g)) (length (a @ b)) = length a + min k (length b)"
      "min (BLOCK_SIZE - length (gu_block ?g)) (length b) = min k (length b)" using k by auto
  show "observe_turn hr (a @ b) g = observe_turn hr b ?g"
    unfolding observe_turn_block [OF assms(1)] observe_turn_block [OF g] n Let_def by simp
qed

lemma observe_turn_partial:
  assumes "guard_inv g" "length a < appetite g"
  obtains g' where "observe_turn hr a g = Inr ([], g')" "observe_turn hr (a @ b) g = observe_turn hr b g'"
proof (cases "gu_state g")
  case (GBody left data_left pax)
  obtain k where k: "left = length a + k" "0 < k"
    using assms(2) GBody less_imp_add_positive [of "length a" left] by (auto simp: appetite_def)
  let ?nb = "min k (length b)"
  let ?da = "if pax then min (length a) data_left else 0"
  let ?db = "if pax then min ?nb (data_left - ?da) else 0"
  let ?g = "g\<lparr>gu_pax := gu_pax g @ take ?da a, gu_state := GBody k (data_left - ?da) pax\<rparr>"
  have n: "min left (length (a @ b)) = length a + ?nb" using k by simp
  have data: "(if pax then min (length a + ?nb) data_left else 0) = ?da + ?db" by (auto simp: min_def)
  have taken: "take (?da + ?db) (a @ b) = take ?da a @ take ?db b" by (auto simp: min_def)
  have rest: "left - (length a + ?nb) = k - ?nb" using k by simp
  have "observe_turn hr a g = Inr ([], ?g)" using GBody k by (simp add: observe_turn_def Let_def)
  moreover have "observe_turn hr (a @ b) g = observe_turn hr b ?g"
    unfolding observe_turn_def GBody guard_state.case Let_def n data taken rest by simp
  ultimately show ?thesis by (rule that)
qed (use assms that observe_turn_block_partial [of g a] in \<open>auto simp: appetite_def\<close>)

lemma observe_append:
  assumes "guard_inv g"
  shows "observe hr (a @ b) g = and_then (observe hr a g) (observe hr b)"
  using assms
proof (induction hr a g rule: observe.induct)
  case (1 hr a g)
  show ?case
  proof (cases "a = []")
    case False
    show ?thesis
    proof (cases "appetite g \<le> length a")
      case True
      show ?thesis
      proof (cases "observe_turn hr a g")
        case (Inl err)
        with False observe_turn_full [OF True, of hr b] show ?thesis by (simp add: observe.simps)
      next
        case (Inr x)
        then obtain rest g' where x: "observe_turn hr a g = Inr (rest, g')" by (cases x) auto
        with observe_turn_shrinks [OF "1.prems" False] observe_turn_inv [OF "1.prems"]
        have "length rest < length a" "guard_inv g'" by auto
        with x "1.IH" [OF False x refl] False observe_turn_full [OF True, of hr b] show ?thesis
          by (simp add: observe.simps [of hr "a @ b"] observe.simps [of hr a])
      qed
    next
      case short: False
      obtain g' where g': "observe_turn hr a g = Inr ([], g')" "observe_turn hr (a @ b) g = observe_turn hr b g'"
        using observe_turn_partial [OF "1.prems"] short by (metis not_le)
      have "observe hr a g = Inr g'" using False g'(1) by (simp add: observe.simps)
      moreover have "observe hr (a @ b) g = observe hr b g'"
      proof (cases "b = []")
        case True
        with g'(1) False show ?thesis by (simp add: observe.simps)
      next
        case b: False
        have inv: "guard_inv g'" using observe_turn_inv [OF "1.prems" g'(1)] .
        have *: "length rest < length b" if "observe_turn hr b g' = Inr (rest, g'')" for rest g''
          using observe_turn_shrinks [OF inv b that] .
        show ?thesis
        proof (cases "observe_turn hr b g'")
          case (Inl err)
          with g'(2) b show ?thesis by (simp add: observe.simps)
        next
          case (Inr y)
          then obtain rest g'' where y: "observe_turn hr b g' = Inr (rest, g'')" by (cases y) auto
          with * [OF y] g'(2) b show ?thesis by (simp add: observe.simps [of hr "a @ b"] observe.simps [of hr b])
        qed
      qed
      ultimately show ?thesis by simp
    qed
  qed (simp add: observe.simps)
qed

primrec observe_all :: "header_reader \<Rightarrow> bytes list \<Rightarrow> guard \<Rightarrow> archive_error + guard" where
  "observe_all hr [] g = Inr g"
| "observe_all hr (c # cs) g = and_then (observe hr c g) (observe_all hr cs)"

lemma observe_all_concat: "guard_inv g \<Longrightarrow> observe_all hr cs g = observe hr (concat cs) g"
proof (induction cs arbitrary: g)
  case (Cons c cs)
  show ?case
  proof (cases "observe hr c g")
    case (Inr g')
    with Cons.IH [OF observe_inv [OF Cons.prems Inr]] show ?thesis by (simp add: observe_append [OF Cons.prems])
  qed (simp add: observe_append [OF Cons.prems])
qed (simp add: observe.simps)

text \<open>
  C18: The header guard judges the stream and not the reads it arrives in: however the bytes are cut into
  reads, its verdict and its state are those of the whole stream, and it never buffers more than one block
  and one extended header of 1 MiB.
\<close>

theorem guard_reads_irrelevant:
  "observe_all hr chunks (guard_new reject_sparse) = observe hr (concat chunks) (guard_new reject_sparse) \<and>
   (\<forall>g. observe_all hr chunks (guard_new reject_sparse) = Inr g \<longrightarrow>
      length (gu_block g) < BLOCK_SIZE \<and> length (gu_pax g) \<le> MAX_EXTENDED_HEADER_BYTES)"
proof -
  have "guard_inv g" if "observe hr (concat chunks) (guard_new reject_sparse) = Inr g" for g
    using observe_inv [OF guard_new_inv that] .
  then show ?thesis using guard_inv_pax by (auto simp: observe_all_concat [OF guard_new_inv] guard_inv_def)
qed

theorem guard_reads_irrelevant_witness:
  "observe demo_header_reader ''abc'' (guard_new True) = observe_all demo_header_reader [''a'', ''bc''] (guard_new True) \<and>
   (\<exists>g. observe_all demo_header_reader [''a'', ''bc''] (guard_new True) = Inr g \<and> length (gu_block g) < BLOCK_SIZE)"
proof -
  have "\<exists>g. observe demo_header_reader ''abc'' (guard_new True) = Inr g"
    by (simp add: observe.simps observe_turn_def guard_new_def BLOCK_SIZE_def Let_def)
  with guard_reads_irrelevant [of demo_header_reader "[''a'', ''bc'']" True] show ?thesis by auto
qed

end
