(* ===== verification/FileTransfer.thy ===== *)
theory FileTransfer
  imports Relay
begin

text \<open>
  File transfer between the daemon and the guest agent: \<open>ward-agent/src/archive.rs\<close> and the archive calls of
  \<open>ward-core/src/backend/agent.rs\<close> and \<open>krunvm.rs\<close>. The guest's file system is a parameter, as is the
  protobuf encoding.
\<close>

section \<open>Where a transfer applies\<close>

text \<open>
  \<open>Scope\<close>: the root and the file system calls the agent makes below it. Paths are their components, which is
  all the calls depend on; a canonical path is its list of names.
\<close>

record guest_scope =
  gs_root :: "component list"
  gs_canonicalize :: "component list \<Rightarrow> string list io"
  gs_is_dir :: "string list \<Rightarrow> bool"
  gs_is_file :: "string list \<Rightarrow> bool"
  gs_is_symlink :: "component list \<Rightarrow> bool io"

definition invalid_input :: "string \<Rightarrow> msg_arg list \<Rightarrow> io_error" where
  "invalid_input fmt args = io_err KInvalidInput fmt args"

definition is_absolute :: "bytes \<Rightarrow> bool" where
  "is_absolute path = starts_with path ''/''"

definition locate :: "guest_scope \<Rightarrow> bytes \<Rightarrow> component list io" where
  "locate sc guest =
     (let escapes = list_ex (\<lambda>c. c = ParentDir) (components guest)
      in if \<not> is_absolute guest \<or> escapes
         then Inl (invalid_input ''guest path must be absolute without `..`: {guest}'' [S guest])
         else Inr (gs_root sc @ tl (components guest)))"

definition contained :: "guest_scope \<Rightarrow> component list \<Rightarrow> string list io" where
  "contained sc located =
     and_then (gs_canonicalize sc located) (\<lambda>resolved.
     and_then (gs_canonicalize sc (gs_root sc)) (\<lambda>root.
       if starts_with resolved root then Inr resolved
       else Inl (invalid_input ''guest path resolves outside the guest root'' [])))"

definition destination :: "guest_scope \<Rightarrow> bytes \<Rightarrow> string list io" where
  "destination sc path =
     and_then (locate sc path) (\<lambda>located.
     and_then (contained sc located) (\<lambda>dest.
       if gs_is_dir sc dest then Inr dest
       else Inl (invalid_input ''guest path is not a directory: {path}'' [S path])))"

section \<open>Errors\<close>

definition error_kind :: "io_error \<Rightarrow> archive_error_kind" where
  "error_kind err =
     (case fst err of
        KNotFound \<Rightarrow> AeNotFound
      | KInvalidInput \<Rightarrow> AeRefused
      | KInvalidData \<Rightarrow> AeRefused
      | _ \<Rightarrow> AeFailed)"

definition archive_io :: "archive_error \<Rightarrow> io_error" where
  "archive_io err =
     (case err of
        ArchiveIo source \<Rightarrow> source
      | UnpackFailed _ _ \<Rightarrow> io_err KOther ''{e}'' []
      | _ \<Rightarrow> io_err KInvalidData ''{refused}'' [])"

text \<open>\<open>finish\<close>: the closing frame.\<close>

definition finish_event :: "unit io \<Rightarrow> event" where
  "finish_event outcome =
     Some (case outcome of Inr _ \<Rightarrow> EvArchiveDone | Inl err \<Rightarrow> EvArchiveError (snd err) (error_kind err))"

section \<open>Chunks\<close>

definition CHUNK_BYTES :: nat where "CHUNK_BYTES = 262144"
definition ARCHIVE_CHUNK_BYTES :: nat where "ARCHIVE_CHUNK_BYTES = 1048576"

text \<open>\<open>slice::chunks\<close>.\<close>

function slices :: "nat \<Rightarrow> 'a list \<Rightarrow> 'a list list" where
  "slices n xs = (if n = 0 \<or> xs = [] then [] else take n xs # slices n (drop n xs))"
  by pat_completeness auto

termination
  by (relation "measure (\<lambda>(n, xs). length xs)") auto

declare slices.simps [simp del]

text \<open>\<open>ChunkWriter\<close>: what has been sent to the socket side, which takes \<open>cw_room\<close> more chunks.\<close>

record chunk_writer =
  cw_sent :: "bytes list"
  cw_buf :: bytes
  cw_room :: nat

definition chunk_flush :: "chunk_writer \<Rightarrow> unit io \<times> chunk_writer" where
  "chunk_flush w =
     (if cw_buf w = [] then (Inr (), w)
      else if cw_room w = 0 then (Inl (io_err KBrokenPipe [] []), w\<lparr>cw_buf := []\<rparr>)
      else (Inr (), w\<lparr>cw_sent := cw_sent w @ [cw_buf w], cw_buf := [], cw_room := cw_room w - 1\<rparr>))"

fun write_parts :: "bytes list \<Rightarrow> chunk_writer \<Rightarrow> unit io \<times> chunk_writer" where
  "write_parts [] w = (Inr (), w)"
| "write_parts (part # parts) w =
     (let w = w\<lparr>cw_buf := cw_buf w @ part\<rparr>
      in if length (cw_buf w) \<ge> CHUNK_BYTES
         then (case chunk_flush w of (Inl err, w) \<Rightarrow> (Inl err, w) | (Inr _, w) \<Rightarrow> write_parts parts w)
         else write_parts parts w)"

definition chunk_write :: "bytes \<Rightarrow> chunk_writer \<Rightarrow> nat io \<times> chunk_writer" where
  "chunk_write data w =
     (case write_parts (slices CHUNK_BYTES data) w of
        (Inl err, w) \<Rightarrow> (Inl err, w)
      | (Inr _, w) \<Rightarrow> (Inr (length data), w))"

text \<open>\<open>ChunkReader\<close>: the queue of chunks, closed at its end, the current chunk and the position in it.\<close>

record chunk_reader =
  cr_rx :: "bytes list"
  cr_current :: bytes
  cr_pos :: nat

function chunk_read :: "nat \<Rightarrow> chunk_reader \<Rightarrow> bytes \<times> chunk_reader" where
  "chunk_read out_len r =
     (if cr_pos r \<ge> length (cr_current r)
      then (case cr_rx r of
              [] \<Rightarrow> ([], r)
            | c # cs \<Rightarrow> chunk_read out_len (r\<lparr>cr_rx := cs, cr_current := c, cr_pos := 0\<rparr>))
      else let n = min out_len (length (cr_current r) - cr_pos r)
           in (take n (drop (cr_pos r) (cr_current r)), r\<lparr>cr_pos := cr_pos r + n\<rparr>))"
  by pat_completeness auto

termination
  by (relation "measure (\<lambda>(n, r). length (cr_rx r))") auto

declare chunk_read.simps [simp del]

section \<open>Copies into a sandbox\<close>

text \<open>The frames the daemon writes before one of them fails, and the failure.\<close>

fun send_requests :: "(request \<Rightarrow> bytes) \<Rightarrow> request list \<Rightarrow> bytes \<times> unit io" where
  "send_requests encode [] = ([], Inr ())"
| "send_requests encode (rq # rqs) =
     (case host_write_frame (encode rq) of
        Inl err \<Rightarrow> ([], Inl err)
      | Inr w \<Rightarrow> (let (sent, r) = send_requests encode rqs in (w @ sent, r)))"

definition put_requests :: "bytes \<Rightarrow> bytes list \<Rightarrow> request list" where
  "put_requests path chunks =
     Some (RqPutArchive path) #
     map (\<lambda>piece. Some (RqArchiveChunk piece)) (concat (map (slices ARCHIVE_CHUNK_BYTES) chunks)) @ [Some RqArchiveEnd]"

text \<open>\<open>put_archive\<close>: \<open>answer\<close> is what the agent sends back for the bytes it was sent.\<close>

definition put_archive ::
  "(request \<Rightarrow> bytes) \<Rightarrow> (bytes \<Rightarrow> event option) \<Rightarrow> (bytes \<Rightarrow> bytes) \<Rightarrow> bytes \<Rightarrow> bytes list \<Rightarrow> unit io" where
  "put_archive encode decode answer path chunks =
     (case send_requests encode (put_requests path chunks) of
        (_, Inl err) \<Rightarrow> Inl err
      | (sent, Inr _) \<Rightarrow> read_ack ''PutArchive'' decode (answer sent))"

definition copy_to_error :: "bytes \<Rightarrow> io_error \<Rightarrow> backend_error" where
  "copy_to_error path err =
     (case fst err of
        KNotFound \<Rightarrow> BePathNotFound path
      | KInvalidInput \<Rightarrow> BeInvalidArgument (snd err)
      | KOther \<Rightarrow> BeExec (snd err)
      | _ \<Rightarrow> BeIo OtherKind)"

text \<open>\<open>decode_request\<close>.\<close>

definition decode_request :: "(bytes \<Rightarrow> request option) \<Rightarrow> bytes \<Rightarrow> request io" where
  "decode_request decode frame =
     (case decode frame of None \<Rightarrow> Inl (io_err KInvalidData ''{e}'' []) | Some rq \<Rightarrow> Inr rq)"

text \<open>\<open>feed\<close>: the chunks it hands to the unpacker, which takes \<open>room\<close> of them before it is done.\<close>

function feed :: "(bytes \<Rightarrow> request option) \<Rightarrow> nat \<Rightarrow> bytes \<Rightarrow> bytes list \<times> unit io" where
  "feed decode room s =
     (case read_frame s of
        Inl err \<Rightarrow> ([], Inl err)
      | Inr None \<Rightarrow> ([], Inl (invalid_input ''archive upload ended without an end frame'' []))
      | Inr (Some (frame, rest)) \<Rightarrow>
          (case decode_request decode frame of
             Inl err \<Rightarrow> ([], Inl err)
           | Inr (Some (RqArchiveChunk data)) \<Rightarrow>
               if room = 0 then ([], Inr ())
               else (let (chunks, r) = feed decode (room - 1) rest in (data # chunks, r))
           | Inr (Some RqArchiveEnd) \<Rightarrow> ([], Inr ())
           | _ \<Rightarrow> ([], Inl (invalid_input ''unexpected frame during archive upload'' []))))"
  by pat_completeness auto

termination
  by (relation "measure (\<lambda>(d, n, s). length s)") (auto dest: read_frame_shorter)

declare feed.simps [simp del]

text \<open>
  \<open>put\<close> after the opening frame: the answer and the bytes given to the unpacker. \<open>unpack\<close> is
  \<open>ward_archive::unpack\<close> on the destination; its failure wins over the feed's.
\<close>

definition agent_put ::
  "guest_scope \<Rightarrow> (string list \<Rightarrow> bytes list \<Rightarrow> archive_error + unit) \<Rightarrow> (bytes \<Rightarrow> request option) \<Rightarrow> nat \<Rightarrow> bytes \<Rightarrow>
   bytes \<Rightarrow> event" where
  "agent_put sc unpack decode room path s =
     (case destination sc path of
        Inl err \<Rightarrow> finish_event (Inl err)
      | Inr dest \<Rightarrow>
          (let (chunks, fed) = feed decode room s
           in finish_event (case unpack dest chunks of Inl err \<Rightarrow> Inl (archive_io err) | Inr _ \<Rightarrow> fed)))"

section \<open>Copies out of a sandbox\<close>

text \<open>
  What the packer writes: the pieces the \<open>tar\<close> builder hands to the writer, and how it ends. A failed write
  ends it.
\<close>

fun pack_writes :: "bytes list \<Rightarrow> unit io \<Rightarrow> chunk_writer \<Rightarrow> unit io \<times> chunk_writer" where
  "pack_writes [] r w = (case r of Inl err \<Rightarrow> (Inl err, w) | Inr _ \<Rightarrow> chunk_flush w)"
| "pack_writes (data # rest) r w =
     (case chunk_write data w of (Inl err, w) \<Rightarrow> (Inl err, w) | (Inr _, w) \<Rightarrow> pack_writes rest r w)"

text \<open>
  \<open>transmit\<close> and \<open>get\<close>: the events of the answer. \<open>tar\<close> gives what packing a canonical path writes; the
  queue to the socket side stays open, as its reader ends with the packer.
\<close>

definition transmit ::
  "guest_scope \<Rightarrow> (string list \<Rightarrow> bytes list \<times> unit io) \<Rightarrow> bytes \<Rightarrow> nat \<Rightarrow> bytes list \<times> unit io" where
  "transmit sc tar path room =
     (case locate sc path of
        Inl err \<Rightarrow> ([], Inl err)
      | Inr located \<Rightarrow>
          (case gs_is_symlink sc located of
             Inl err \<Rightarrow> ([], Inl err)
           | Inr True \<Rightarrow> ([], Inl (invalid_input ''guest path is a symlink: {path}'' [S path]))
           | Inr False \<Rightarrow>
               (case contained sc located of
                  Inl err \<Rightarrow> ([], Inl err)
                | Inr source \<Rightarrow>
                    if gs_is_dir sc source \<or> gs_is_file sc source
                    then (let (writes, r) = tar source;
                              (outcome, w) = pack_writes writes r \<lparr>cw_sent = [], cw_buf = [], cw_room = room\<rparr>
                          in (cw_sent w, outcome))
                    else ([], Inl (invalid_input ''guest path is not a file or directory'' [])))))"

definition get_events :: "bytes list \<times> unit io \<Rightarrow> event list" where
  "get_events = (\<lambda>(chunks, outcome). map (\<lambda>data. Some (EvArchiveChunk data)) chunks @ [finish_event outcome])"

text \<open>\<open>relay_archive\<close> and \<open>get_archive\<close>: what the daemon puts on the channel of the copy.\<close>

function relay_archive :: "(bytes \<Rightarrow> event option) \<Rightarrow> bytes \<Rightarrow> wait list" where
  "relay_archive decode s =
     (case host_read_frame s of
        Inl err \<Rightarrow> [WaitError err]
      | Inr None \<Rightarrow> [WaitError (io_err KInvalidData ''agent closed the connection mid-archive'' [])]
      | Inr (Some (frame, rest)) \<Rightarrow>
          (case decode frame of
             Some (Some (EvArchiveChunk data)) \<Rightarrow> WaitChunk data # relay_archive decode rest
           | Some (Some EvArchiveDone) \<Rightarrow> []
           | Some (Some (EvArchiveError msg kind)) \<Rightarrow> [WaitError (agent_failure msg kind)]
           | _ \<Rightarrow> [WaitError (io_err KInvalidData ''agent answered a GetArchive with another event'' [])]))"
  by pat_completeness auto

termination
  by (relation "measure (\<lambda>(d, s). length s)") (auto simp: same_frames dest: read_frame_shorter)

declare relay_archive.simps [simp del]

section \<open>Nothing is lost or reordered\<close>

lemma slices_concat: "0 < n \<Longrightarrow> concat (slices n xs) = xs"
  by (induction n xs rule: slices.induct) (subst slices.simps, simp)

lemma slices_length: "c \<in> set (slices n xs) \<Longrightarrow> c \<noteq> [] \<and> length c \<le> n"
  by (induction n xs rule: slices.induct) (subst (asm) slices.simps, auto split: if_splits)

text \<open>The chunks a writer has sent and holds are what was written; a chunk is never twice the target size.\<close>

definition writer_inv :: "bytes \<Rightarrow> chunk_writer \<Rightarrow> bool" where
  "writer_inv data w \<longleftrightarrow>
     concat (cw_sent w) @ cw_buf w = data \<and> length (cw_buf w) < CHUNK_BYTES \<and>
     (\<forall>c \<in> set (cw_sent w). c \<noteq> [] \<and> length c < 2 * CHUNK_BYTES)"

lemma chunk_flush_keeps:
  assumes "chunk_flush w = (Inr (), w')" "length (cw_buf w) < 2 * CHUNK_BYTES"
    "\<forall>c \<in> set (cw_sent w). c \<noteq> [] \<and> length c < 2 * CHUNK_BYTES"
  shows "writer_inv (concat (cw_sent w) @ cw_buf w) w' \<and> cw_buf w' = []"
proof -
  have pos: "0 < CHUNK_BYTES" by (simp add: CHUNK_BYTES_def)
  show ?thesis
  proof (cases "cw_buf w = []")
    case True
    then have "w' = w" using assms(1) by (simp add: chunk_flush_def)
    with True assms(3) pos show ?thesis by (simp add: writer_inv_def)
  next
    case False
    then have w': "w' = w\<lparr>cw_sent := cw_sent w @ [cw_buf w], cw_buf := [], cw_room := cw_room w - 1\<rparr>"
      using assms(1) by (simp add: chunk_flush_def split: if_splits)
    show ?thesis unfolding w' using assms(2,3) pos False by (simp add: writer_inv_def)
  qed
qed

lemma write_parts_inv:
  assumes "writer_inv data w" "\<forall>p \<in> set parts. length p \<le> CHUNK_BYTES" "write_parts parts w = (Inr (), w')"
  shows "writer_inv (data @ concat parts) w'"
  using assms
proof (induction parts arbitrary: data w)
  case (Cons p parts)
  let ?w = "w\<lparr>cw_buf := cw_buf w @ p\<rparr>"
  have room: "length (cw_buf ?w) < 2 * CHUNK_BYTES" "\<forall>c \<in> set (cw_sent ?w). c \<noteq> [] \<and> length c < 2 * CHUNK_BYTES"
    using Cons.prems(1,2) by (auto simp: writer_inv_def)
  have data: "concat (cw_sent ?w) @ cw_buf ?w = data @ p" using Cons.prems(1) by (auto simp: writer_inv_def)
  show ?case
  proof (cases "length (cw_buf ?w) \<ge> CHUNK_BYTES")
    case True
    then obtain w1 where w1: "chunk_flush ?w = (Inr (), w1)" "write_parts parts w1 = (Inr (), w')"
      using Cons.prems(3) by (auto simp: Let_def split: prod.splits sum.splits)
    have "writer_inv (data @ p) w1" using chunk_flush_keeps [OF w1(1) room] unfolding data by simp
    with Cons.IH [of "data @ p" w1] Cons.prems(2) w1(2) show ?thesis by simp
  next
    case False
    then have "write_parts parts ?w = (Inr (), w')" "writer_inv (data @ p) ?w"
      using Cons.prems by (auto simp: Let_def writer_inv_def)
    with Cons.IH [of "data @ p" ?w] Cons.prems(2) show ?thesis by simp
  qed
qed simp

lemma chunk_write_inv:
  assumes "writer_inv data w" "chunk_write bs w = (Inr n, w')"
  shows "writer_inv (data @ bs) w' \<and> n = length bs"
proof -
  have "write_parts (slices CHUNK_BYTES bs) w = (Inr (), w')" "n = length bs"
    using assms(2) by (auto simp: chunk_write_def split: prod.splits sum.splits)
  moreover have "concat (slices CHUNK_BYTES bs) = bs" by (rule slices_concat) (simp add: CHUNK_BYTES_def)
  ultimately show ?thesis using write_parts_inv [OF assms(1)] slices_length by metis
qed

lemma pack_writes_inv:
  assumes "writer_inv data w" "pack_writes writes r w = (Inr (), w')"
  shows "r = Inr () \<and> writer_inv (data @ concat writes) w' \<and> cw_buf w' = []"
  using assms
proof (induction writes arbitrary: data w)
  case Nil
  then have "r = Inr ()" "chunk_flush w = (Inr (), w')" by (auto split: sum.splits)
  with chunk_flush_keeps [of w w'] Nil.prems(1) show ?case by (auto simp: writer_inv_def)
next
  case (Cons bs writes)
  then obtain n w1 where "chunk_write bs w = (Inr n, w1)" "pack_writes writes r w1 = (Inr (), w')"
    by (auto split: prod.splits sum.splits)
  with Cons.IH [of "data @ bs" w1] chunk_write_inv [OF Cons.prems(1)] show ?case by auto
qed

lemma write_events_fits:
  "fits (encode ev) \<Longrightarrow>
     write_events encode (ev # evs) = to_be_bytes (length (encode ev)) @ encode ev @ write_events encode evs"
  using write_frame_ok [of "encode ev" "to_be_bytes (length (encode ev)) @ encode ev"] by simp

lemma relay_archive_events:
  assumes "codec (set (get_events (chunks, outcome))) encode decode"
    and "list_all (\<lambda>ev. fits (encode ev)) (get_events (chunks, outcome))"
  shows "relay_archive decode (write_events encode (get_events (chunks, outcome))) =
    map WaitChunk chunks @
    (case outcome of Inr _ \<Rightarrow> [] | Inl err \<Rightarrow> [WaitError (agent_failure (snd err) (error_kind err))])"
  using assms
proof (induction chunks)
  case Nil
  then have w: "write_events encode (get_events ([], outcome)) =
      to_be_bytes (length (encode (finish_event outcome))) @ encode (finish_event outcome) @ []"
    using write_events_fits [of encode "finish_event outcome" "[]"] by (simp add: get_events_def)
  with Nil show ?case unfolding w
    by (subst relay_archive.simps)
      (auto simp: same_frames read_written [where rest = "[]", simplified] get_events_def codec_def finish_event_def
        split: sum.splits)
next
  case (Cons c chunks)
  let ?ev = "Some (EvArchiveChunk c)"
  have w: "write_events encode (get_events (c # chunks, outcome)) =
      to_be_bytes (length (encode ?ev)) @ encode ?ev @ write_events encode (get_events (chunks, outcome))"
    using Cons.prems(2) write_events_fits [of encode ?ev] by (simp add: get_events_def)
  have "relay_archive decode (write_events encode (get_events (chunks, outcome))) =
    map WaitChunk chunks @
    (case outcome of Inr _ \<Rightarrow> [] | Inl err \<Rightarrow> [WaitError (agent_failure (snd err) (error_kind err))])"
    by (rule Cons.IH) (use Cons.prems in \<open>auto simp: get_events_def codec_def\<close>)
  with Cons.prems show ?case unfolding w
    by (subst relay_archive.simps) (simp add: same_frames read_written get_events_def codec_def)
qed

text \<open>The \<open>tar\<close> crate reports a failed read: its iterator ends with the failure.\<close>

primrec reports_failures :: "tar_program \<Rightarrow> bool" where
  "reports_failures TarEnd = True"
| "reports_failures (TarFail _) = True"
| "reports_failures (TarRead n k) = ((\<forall>err. \<exists>err'. k (Inl err) = TarFail err') \<and> (\<forall>r. reports_failures (k r)))"
| "reports_failures (TarEntry e rest) = reports_failures rest"

text \<open>A stretch of the guest's stream with no failure in it.\<close>

definition clean :: "wait list \<Rightarrow> wait list \<Rightarrow> bool" where
  "clean ws ws' \<longleftrightarrow> (\<exists>cs. ws = map WaitChunk cs @ ws')"

lemma clean_refl [simp]: "clean ws ws"
  unfolding clean_def by (rule exI [of _ "[]"]) simp

lemma clean_trans: "clean a b \<Longrightarrow> clean b c \<Longrightarrow> clean a c"
  unfolding clean_def by (metis append.assoc map_append)

lemma clean_receive: "receive_chunk hb = (Inr b, hb') \<Longrightarrow> clean (hb_source hb) (hb_source hb')"
  unfolding receive_chunk_def clean_def
  by (auto simp: Let_def split: list.splits wait.splits intro: exI [of _ "[]"] exI [of _ "[_]"])

lemma clean_await: "await_bytes hb = (Inr u, hb') \<Longrightarrow> clean (hb_source hb) (hb_source hb')"
proof (induction hb rule: await_bytes.induct)
  case (1 hb)
  show ?case
  proof (cases "hb_cursor hb \<noteq> length (hb_held hb)")
    case True
    with "1.prems" show ?thesis by (subst (asm) await_bytes.simps) auto
  next
    case False
    with "1.prems" obtain v hb1 where f: "forward_passed hb = (Inr v, hb1)"
      by (subst (asm) await_bytes.simps) (auto split: prod.splits sum.splits)
    have src: "hb_source hb1 = hb_source hb" using forward_passed_source [OF f [symmetric]] .
    show ?thesis
    proof (cases "hb_source hb1")
      case Nil
      with "1.prems" False f src show ?thesis by (subst (asm) await_bytes.simps) auto
    next
      case (Cons w ws)
      with "1.prems" False f obtain b hb2 where r: "receive_chunk hb1 = (Inr b, hb2)" "await_bytes hb2 = (Inr u, hb')"
        by (subst (asm) await_bytes.simps) (auto split: prod.splits sum.splits)
      have "clean (hb_source hb2) (hb_source hb')"
        using "1.IH" [OF _ f [symmetric] refl Cons r(1) [symmetric] refl r(2)] False by simp
      with clean_receive [OF r(1)] src show ?thesis by (metis clean_trans)
    qed
  qed
qed

lemma clean_read: "hold_back_read n hb = (Inr bs, hb') \<Longrightarrow> clean (hb_source hb) (hb_source hb')"
  unfolding hold_back_read_def by (auto simp: Let_def split: prod.splits sum.splits dest: clean_await)

lemma clean_scan:
  assumes "reports_failures tar" "run_checker (scan hr policy lim tar st) hb = (Inr u, hb')"
  shows "clean (hb_source hb) (hb_source hb')"
  using assms
proof (induction tar arbitrary: st hb)
  case (TarRead n k)
  have fails: "run_checker (scan hr policy lim (k (Inl err)) st1) hb1 \<noteq> (Inr u, hb')" for err st1 hb1
  proof -
    obtain err' where "k (Inl err) = TarFail err'" using TarRead.prems(1) unfolding reports_failures.simps by blast
    then show ?thesis by simp
  qed
  have "\<not> gu_failed (ss_guard st)" using TarRead.prems(2) fails [of archive_refused st hb] by auto
  moreover obtain r hb1 seen st1 where r: "hold_back_read n hb = (r, hb1)" "guarded hr r st = (seen, st1)" by force
  ultimately have run: "run_checker (scan hr policy lim (k seen) st1) hb1 = (Inr u, hb')" using TarRead.prems(2) by simp
  obtain bs where "r = Inr bs"
  proof (cases r)
    case (Inl err)
    then have "seen = Inl err" using r(2) by (simp add: guarded_def guard_read_def)
    with run fails show ?thesis by blast
  qed (use that in blast)
  with r(1) have "clean (hb_source hb) (hb_source hb1)" by (auto intro: clean_read)
  moreover have "clean (hb_source hb1) (hb_source hb')"
    by (rule TarRead.IH [OF _ _ run]) (use TarRead.prems(1) in auto)
  ultimately show ?case by (rule clean_trans)
next
  case (TarEntry e rest)
  then obtain t links where "validate_entry policy lim e (ss_totals st, ss_links st) = Inr (t, links)"
    by (auto split: sum.splits)
  with TarEntry.prems TarEntry.IH [of "st\<lparr>ss_totals := t, ss_links := links\<rparr>" "hb\<lparr>hb_passed := min U64_MAX (te_position e + te_size e)\<rparr>"]
  show ?case by simp
qed auto

lemma clean_finish: "finish_loop t hb = (Inr u, hb') \<Longrightarrow> clean (hb_source hb) []"
proof (induction t hb rule: finish_loop.induct)
  case (1 t hb)
  let ?rest = "drop (hb_cursor hb) (hb_held hb)" and ?hb = "hb\<lparr>hb_cursor := length (hb_held hb)\<rparr>"
  have ok: "\<not> list_ex (\<lambda>b. byte b \<noteq> 0) ?rest" "\<not> t + length ?rest > TRAILER_LIMIT_BYTES"
    using "1.prems" by (auto simp: finish_loop.simps [of t hb] Let_def split: if_splits)
  show ?case
  proof (cases "hb_source hb")
    case (Cons w ws)
    obtain x hb2 where x: "receive_chunk ?hb = (x, hb2)" by force
    with "1.prems" ok Cons obtain b where b: "x = Inr b" "finish_loop (t + length ?rest) hb2 = (Inr u, hb')"
      by (subst (asm) finish_loop.simps) (auto simp: Let_def split: sum.splits)
    have "clean (hb_source hb2) []"
      using "1.IH" [OF refl refl ok refl _ x [symmetric] b(1) b(2), of w ws] Cons by simp
    with clean_receive [of ?hb b hb2] x b(1) show ?thesis using clean_trans [of "hb_source hb" "hb_source hb2" "[]"] by simp
  qed simp
qed

lemma relay_success:
  assumes "reports_failures crate" "relay_run hr crate lim source room = (Inr (), hb)"
  shows "clean source []" and "0 < hb_room hb \<Longrightarrow> concat (hb_out hb) = stream_bytes source"
proof -
  obtain hb1 where run: "run_checker (scan hr CopyPolicy lim crate (scan_new CopyPolicy)) (hold_back_new source room) = (Inr (), hb1)"
      and fin: "finish_loop 0 hb1 = (Inr (), hb)"
    using assms(2) by (auto simp: relay_run_def split: prod.splits sum.splits)
  have "clean source (hb_source hb1)" using clean_scan [OF assms(1) run] by (simp add: hold_back_new_def)
  with clean_finish [OF fin] show "clean source []" by (rule clean_trans [rotated])
  have "hold_back_inv source hb1" using run_checker_inv [OF hold_back_inv_new] run by (metis snd_conv)
  then have "hold_back_inv source hb" using finish_inv fin by (metis snd_conv)
  then show "0 < hb_room hb \<Longrightarrow> concat (hb_out hb) = stream_bytes source"
    using hold_back_inv_prefix(3) finish_outcome [OF fin] by auto
qed

lemma transmit_ok:
  assumes "transmit sc tar path room = (chunks, Inr ())"
  shows "\<exists>src writes. tar src = (writes, Inr ()) \<and> concat chunks = concat writes"
proof -
  obtain src writes r w where w: "tar src = (writes, r)"
      "pack_writes writes r \<lparr>cw_sent = [], cw_buf = [], cw_room = room\<rparr> = (Inr (), w)" "chunks = cw_sent w"
  proof (cases "locate sc path")
    case (Inr located)
    with assms obtain src where "gs_is_symlink sc located = Inr False" "contained sc located = Inr src"
        "gs_is_dir sc src \<or> gs_is_file sc src"
      unfolding transmit_def by (simp split: sum.splits bool.splits if_splits)
    with assms Inr that [of src] show ?thesis unfolding transmit_def by (simp split: prod.splits)
  qed (use assms in \<open>simp add: transmit_def\<close>)
  have "writer_inv [] \<lparr>cw_sent = [], cw_buf = [], cw_room = room\<rparr>" by (simp add: writer_inv_def CHUNK_BYTES_def)
  from pack_writes_inv [OF this w(2)] have "r = Inr ()" "concat (cw_sent w) @ cw_buf w = concat writes" "cw_buf w = []"
    unfolding writer_inv_def append_Nil by blast+
  then have "r = Inr ()" "concat (cw_sent w) = concat writes" by simp_all
  with w(1,3) show ?thesis by blast
qed

lemma stream_bytes_chunks: "stream_bytes (map WaitChunk cs) = concat cs"
  by (simp add: comp_def)

text \<open>A cut connection never looks like a finished one: only the closing frame ends the stream cleanly.\<close>

lemma clean_cut:
  assumes "codec (set (get_events (chunks, outcome))) encode decode"
    and "list_all (\<lambda>ev. fits (encode ev)) (get_events (chunks, outcome))"
    and "clean (relay_archive decode (take n (write_events encode (get_events (chunks, outcome))))) []"
  shows "length (write_events encode (get_events (chunks, outcome))) \<le> n"
  using assms
proof (induction chunks arbitrary: n)
  case Nil
  let ?ev = "finish_event outcome"
  have fit: "fits (encode ?ev)" using Nil.prems(2) by (simp add: get_events_def)
  have w: "write_events encode (get_events ([], outcome)) = to_be_bytes (length (encode ?ev)) @ encode ?ev @ []"
    using fit write_events_fits [of encode ?ev "[]"] by (simp add: get_events_def)
  show ?case
  proof (rule ccontr)
    assume "\<not> ?case"
    then have "n < 4 + length (encode ?ev)" unfolding w by simp
    from read_cut [OF fit this, of "[]"] Nil.prems(3) show False unfolding w
      by (subst (asm) relay_archive.simps) (auto simp: same_frames clean_def split: if_splits)
  qed
next
  case (Cons c chunks)
  let ?ev = "Some (EvArchiveChunk c)" and ?rest = "write_events encode (get_events (chunks, outcome))"
  have fit: "fits (encode ?ev)" using Cons.prems(2) by (simp add: get_events_def)
  have w: "write_events encode (get_events (c # chunks, outcome)) = to_be_bytes (length (encode ?ev)) @ encode ?ev @ ?rest"
    using fit write_events_fits [of encode ?ev "get_events (chunks, outcome)"] by (simp add: get_events_def)
  have dec: "decode (encode ?ev) = Some ?ev" using Cons.prems(1) by (simp add: get_events_def codec_def)
  show ?case
  proof (cases "n < 4 + length (encode ?ev)")
    case True
    from read_cut [OF fit this, of ?rest] Cons.prems(3) show ?thesis unfolding w
      by (subst (asm) relay_archive.simps) (auto simp: same_frames clean_def split: if_splits)
  next
    case False
    then have t: "take n (to_be_bytes (length (encode ?ev)) @ encode ?ev @ ?rest) =
        to_be_bytes (length (encode ?ev)) @ encode ?ev @ take (n - 4 - length (encode ?ev)) ?rest" by simp
    have "relay_archive decode (take n (write_events encode (get_events (c # chunks, outcome)))) =
        WaitChunk c # relay_archive decode (take (n - 4 - length (encode ?ev)) ?rest)"
      unfolding w t by (subst relay_archive.simps) (simp add: same_frames read_written [OF fit] dec)
    with Cons.prems(3) have "clean (relay_archive decode (take (n - 4 - length (encode ?ev)) ?rest)) []"
      unfolding clean_def by (auto simp: Cons_eq_map_conv)
    then have "length ?rest \<le> n - 4 - length (encode ?ev)"
      by (rule Cons.IH [rotated 2]) (use Cons.prems in \<open>auto simp: get_events_def codec_def\<close>)
    with False show ?thesis unfolding w by simp
  qed
qed

text \<open>
  C16: A copy out of a sandbox that reports success gave the client exactly the bytes the packer wrote in
  the guest, through the agent's chunks, the frames, the daemon and the checked relay. A packer that failed
  half way, or a connection that was cut, is never reported as a success.
\<close>

theorem copy_out_complete:
  assumes "codec (set (get_events (transmit sc tar path queue))) encode decode"
    and "list_all (\<lambda>ev. fits (encode ev)) (get_events (transmit sc tar path queue))"
    and "reports_failures crate"
    and "relay_run hr crate lim
      (relay_archive decode (take received (write_events encode (get_events (transmit sc tar path queue))))) room = (Inr (), hb)"
    and "0 < hb_room hb"
  shows "\<exists>src writes. tar src = (writes, Inr ()) \<and> concat (hb_out hb) = concat writes"
proof -
  obtain chunks outcome where t: "transmit sc tar path queue = (chunks, outcome)" by force
  let ?tail = "case outcome of Inr _ \<Rightarrow> [] | Inl err \<Rightarrow> [WaitError (agent_failure (snd err) (error_kind err))]"
  have "clean (relay_archive decode (take received (write_events encode (get_events (transmit sc tar path queue))))) []"
    by (rule relay_success(1) [OF assms(3,4)])
  with clean_cut [OF assms(1,2) [unfolded t]] have "length (write_events encode (get_events (chunks, outcome))) \<le> received"
    by (simp add: t)
  then have source: "relay_archive decode (take received (write_events encode (get_events (transmit sc tar path queue)))) =
      map WaitChunk chunks @ ?tail"
    using relay_archive_events [OF assms(1,2) [unfolded t]] by (simp add: t)
  from relay_success [OF assms(3,4)] assms(5) source
  have 1: "clean (map WaitChunk chunks @ ?tail) []" "concat (hb_out hb) = stream_bytes (map WaitChunk chunks @ ?tail)" by auto
  have ok: "outcome = Inr ()"
  proof (cases outcome)
    case (Inl err)
    with 1(1) obtain cs where "map WaitChunk chunks @ [WaitError (agent_failure (snd err) (error_kind err))] = map WaitChunk cs"
      by (auto simp: clean_def)
    then have "WaitError (agent_failure (snd err) (error_kind err)) \<in> set (map WaitChunk cs)" by (metis in_set_conv_decomp)
    then show ?thesis by auto
  qed simp
  with 1(2) have "concat (hb_out hb) = concat chunks" using stream_bytes_chunks by simp
  with transmit_ok [of sc tar path queue chunks] t ok show ?thesis by auto
qed

definition demo_scope :: guest_scope where
  "demo_scope =
     \<lparr>gs_root = [RootDir], gs_canonicalize = (\<lambda>cs. Inr (concat (map normal_part cs))), gs_is_dir = (\<lambda>_. True),
      gs_is_file = (\<lambda>_. False), gs_is_symlink = (\<lambda>_. Inr False)\<rparr>"

definition demo_pack :: "string list \<Rightarrow> bytes list \<times> unit io" where
  "demo_pack src = ([''a'', ''b''], Inr ())"

definition demo_archive_encode :: "event \<Rightarrow> bytes" where
  "demo_archive_encode ev = (case ev of Some (EvArchiveChunk data) \<Rightarrow> CHR ''c'' # data | _ \<Rightarrow> ''!'')"

definition demo_archive_decode :: "bytes \<Rightarrow> event option" where
  "demo_archive_decode bs =
     (case bs of c # data \<Rightarrow> if c = CHR ''c'' then Some (Some (EvArchiveChunk data)) else Some (Some EvArchiveDone) | [] \<Rightarrow> None)"

definition demo_crate :: tar_program where
  "demo_crate = TarRead 2 (\<lambda>r. case r of Inl err \<Rightarrow> TarFail err | Inr _ \<Rightarrow> TarEnd)"

lemma demo_transmit: "transmit demo_scope demo_pack ''/a'' 2 = ([''ab''], Inr ())"
  by (simp add: transmit_def locate_def contained_def demo_scope_def demo_pack_def is_absolute_def starts_with_def
      components_def part_component_def Let_def chunk_write_def slices.simps chunk_flush_def CHUNK_BYTES_def)

lemma demo_source:
  "relay_archive demo_archive_decode
     (take 100 (write_events demo_archive_encode (get_events (transmit demo_scope demo_pack ''/a'' 2)))) = [WaitChunk ''ab'']"
  "codec (set (get_events (transmit demo_scope demo_pack ''/a'' 2))) demo_archive_encode demo_archive_decode"
  "list_all (\<lambda>ev. fits (demo_archive_encode ev)) (get_events (transmit demo_scope demo_pack ''/a'' 2))"
proof -
  show c: "codec (set (get_events (transmit demo_scope demo_pack ''/a'' 2))) demo_archive_encode demo_archive_decode"
    by (simp add: demo_transmit get_events_def finish_event_def codec_def demo_archive_encode_def demo_archive_decode_def)
  show f: "list_all (\<lambda>ev. fits (demo_archive_encode ev)) (get_events (transmit demo_scope demo_pack ''/a'' 2))"
    by (simp add: demo_transmit get_events_def finish_event_def demo_archive_encode_def MAX_FRAME_BYTES_def)
  have "length (write_events demo_archive_encode (get_events ([''ab''], Inr ()))) \<le> 100"
    by (simp add: get_events_def finish_event_def demo_archive_encode_def write_frame_def MAX_FRAME_BYTES_def)
  then show "relay_archive demo_archive_decode
     (take 100 (write_events demo_archive_encode (get_events (transmit demo_scope demo_pack ''/a'' 2)))) = [WaitChunk ''ab'']"
    using relay_archive_events [OF c [unfolded demo_transmit] f [unfolded demo_transmit]] by (simp add: demo_transmit)
qed

lemma demo_copy: "\<exists>hb. relay_run demo_header_reader demo_crate demo_archive_limits [WaitChunk ''ab''] 5 = (Inr (), hb) \<and>
    hb_out hb = [''ab''] \<and> 0 < hb_room hb"
  by (simp add: demo_crate_def relay_eval finish_loop.simps TRAILER_LIMIT_BYTES_def)

theorem copy_out_complete_witness:
  "\<exists>hb src writes. relay_run demo_header_reader demo_crate demo_archive_limits
       (relay_archive demo_archive_decode
         (take 100 (write_events demo_archive_encode (get_events (transmit demo_scope demo_pack ''/a'' 2))))) 5 = (Inr (), hb) \<and>
     demo_pack src = (writes, Inr ()) \<and> concat (hb_out hb) = concat writes"
proof -
  obtain hb where hb: "relay_run demo_header_reader demo_crate demo_archive_limits
       (relay_archive demo_archive_decode
         (take 100 (write_events demo_archive_encode (get_events (transmit demo_scope demo_pack ''/a'' 2))))) 5 = (Inr (), hb)"
     "0 < hb_room hb" using demo_copy unfolding demo_source(1) by auto
  have "reports_failures demo_crate" by (auto simp: demo_crate_def split: sum.splits)
  from copy_out_complete [OF demo_source(2,3) this hb] hb(1) show ?thesis by blast
qed

section \<open>Copies in\<close>

lemma send_requests_fits:
  "fits (encode rq) \<Longrightarrow> send_requests encode (rq # rqs) =
     (to_be_bytes (length (encode rq)) @ encode rq @ fst (send_requests encode rqs), snd (send_requests encode rqs))"
  using write_frame_ok [of "encode rq" "to_be_bytes (length (encode rq)) @ encode rq"]
  by (simp add: same_frames case_prod_beta)

abbreviation upload :: "bytes list \<Rightarrow> request list" where
  "upload pieces \<equiv> map (\<lambda>piece. Some (RqArchiveChunk piece)) pieces @ [Some RqArchiveEnd]"

lemma feed_upload:
  assumes "codec (set (upload pieces)) encode decode" "list_all (\<lambda>rq. fits (encode rq)) (upload pieces)"
    and "length pieces \<le> room"
  shows "feed decode room (fst (send_requests encode (upload pieces))) = (pieces, Inr ()) \<and>
    snd (send_requests encode (upload pieces)) = Inr ()"
  using assms
proof (induction pieces arbitrary: room)
  case Nil
  then have "fits (encode (Some RqArchiveEnd))" "decode (encode (Some RqArchiveEnd)) = Some (Some RqArchiveEnd)"
    by (auto simp: codec_def)
  then show ?case using send_requests_fits [of encode "Some RqArchiveEnd" "[]"]
    by (subst feed.simps) (simp add: read_written [where rest = "[]", simplified] decode_request_def)
next
  case (Cons p pieces)
  let ?rq = "Some (RqArchiveChunk p)"
  have rq: "fits (encode ?rq)" "decode (encode ?rq) = Some ?rq" using Cons.prems by (auto simp: codec_def)
  have "feed decode (room - 1) (fst (send_requests encode (upload pieces))) = (pieces, Inr ()) \<and>
      snd (send_requests encode (upload pieces)) = Inr ()"
    by (rule Cons.IH) (use Cons.prems in \<open>auto simp: codec_def\<close>)
  with rq Cons.prems(3) send_requests_fits [of encode ?rq "upload pieces"] show ?case
    by (subst feed.simps) (simp add: read_written decode_request_def)
qed

text \<open>
  The agent's side of the connection: it reads the opening frame and answers. The unpacker takes every chunk.
\<close>

definition agent_answers ::
  "guest_scope \<Rightarrow> (string list \<Rightarrow> bytes list \<Rightarrow> archive_error + unit) \<Rightarrow> (bytes \<Rightarrow> request option) \<Rightarrow> nat \<Rightarrow>
   (event \<Rightarrow> bytes) \<Rightarrow> bytes \<Rightarrow> bytes" where
  "agent_answers sc unpack decode room encode s =
     (case read_frame s of
        Inr (Some (frame, rest)) \<Rightarrow>
          (case decode_request decode frame of
             Inr (Some (RqPutArchive path)) \<Rightarrow> write_events encode [agent_put sc unpack decode room path rest]
           | _ \<Rightarrow> [])
      | _ \<Rightarrow> [])"

lemma copy_in_exact:
  assumes rq: "codec (set (put_requests path chunks)) encode_rq decode_rq"
      "list_all (\<lambda>rq. fits (encode_rq rq)) (put_requests path chunks)"
    and ev: "decode_ev (encode_ev (Some EvArchiveDone)) = Some (Some EvArchiveDone)"
      "\<And>msg kind. decode_ev (encode_ev (Some (EvArchiveError msg kind))) \<noteq> Some (Some EvArchiveDone)"
    and room: "length (concat (map (slices ARCHIVE_CHUNK_BYTES) chunks)) \<le> room"
    and ok: "put_archive encode_rq decode_ev (agent_answers sc unpack decode_rq room encode_ev) path chunks = Inr ()"
  shows "\<exists>dest pieces. destination sc path = Inr dest \<and> unpack dest pieces = Inr () \<and> concat pieces = concat chunks"
proof -
  let ?pieces = "concat (map (slices ARCHIVE_CHUNK_BYTES) chunks)" and ?open = "Some (RqPutArchive path)"
  have "0 < ARCHIVE_CHUNK_BYTES" by (simp add: ARCHIVE_CHUNK_BYTES_def)
  then have "concat ?pieces = concat chunks" by (induction chunks) (simp_all add: slices_concat)
  have up: "feed decode_rq room (fst (send_requests encode_rq (upload ?pieces))) = (?pieces, Inr ())"
      "snd (send_requests encode_rq (upload ?pieces)) = Inr ()"
    using feed_upload [of ?pieces encode_rq decode_rq room] rq room by (auto simp: put_requests_def codec_def)
  have first: "fits (encode_rq ?open)" "decode_rq (encode_rq ?open) = Some ?open"
    using rq by (auto simp: put_requests_def codec_def)
  let ?sent = "to_be_bytes (length (encode_rq ?open)) @ encode_rq ?open @ fst (send_requests encode_rq (upload ?pieces))"
  have sent: "send_requests encode_rq (put_requests path chunks) = (?sent, Inr ())"
    unfolding put_requests_def using send_requests_fits [of encode_rq ?open "upload ?pieces"] first(1) up(2) by simp
  let ?answer = "agent_put sc unpack decode_rq room path (fst (send_requests encode_rq (upload ?pieces)))"
  have "agent_answers sc unpack decode_rq room encode_ev ?sent = write_events encode_ev [?answer]"
    unfolding agent_answers_def using first by (simp add: read_written decode_request_def)
  with ok sent have "read_ack ''PutArchive'' decode_ev (write_events encode_ev [?answer]) = Inr ()"
    by (simp add: put_archive_def)
  then have acked: "decode_ev (encode_ev ?answer) = Some (Some EvArchiveDone)"
    unfolding read_ack_def same_frames
    by (cases "fits (encode_ev ?answer)")
      (auto simp: write_events_fits read_written [where rest = "[]", simplified] write_frame_def
        split: if_splits option.splits event_kind.splits)
  have "?answer = Some EvArchiveDone"
  proof -
    have "?answer = Some EvArchiveDone \<or> (\<exists>msg kind. ?answer = Some (EvArchiveError msg kind))"
      by (auto simp: agent_put_def finish_event_def Let_def split: sum.splits prod.splits)
    with acked ev(2) show ?thesis by auto
  qed
  then show ?thesis using up(1) \<open>concat ?pieces = concat chunks\<close>
    by (auto simp: agent_put_def finish_event_def split: sum.splits)
qed

end
