(* ===== verification/Packing.thy ===== *)
theory Packing
  imports Archive
begin

unbundle bit_operations_syntax

text \<open>
  Packing a directory into a tar and unpacking a tar into a directory, \<open>ward-archive/src/lib.rs\<close>. The file
  system is what its calls answer: for packing a tree of what the walk finds, for unpacking a record of calls.
  The \<open>tar\<close> builder and \<open>unpack_in\<close> are parameters.
\<close>

section \<open>Packing\<close>

text \<open>
  What the walk meets for one name of a listing: a directory with what listing it gives, a symbolic link, a
  regular file, something it skips (a socket, a fifo, a device, or a name that vanished or changed its type
  before it was opened), or a call that fails.
\<close>

datatype node =
    NodeDir u32 "(string \<times> node) list"
  | NodeSymlink bytes
  | NodeFile u32 nat
  | NodeSkipped
  | NodeError io_error

text \<open>One call of the builder: the entry name, its type, mode, size and link target.\<close>

record appended =
  ap_name :: bytes
  ap_type :: entry_type
  ap_mode :: u32
  ap_size :: nat
  ap_link :: "bytes option"

definition SYMLINK_MODE :: u32 where "SYMLINK_MODE = 511"

record pack_caps =
  pc_entries :: nat
  pc_bytes :: nat
  pc_depth :: nat

record walk =
  wk_entries :: nat
  wk_bytes :: nat

definition admit :: "pack_caps \<Rightarrow> nat \<Rightarrow> walk \<Rightarrow> archive_error + walk" where
  "admit caps n wk =
     (let wk = \<lparr>wk_entries = wk_entries wk + 1, wk_bytes = min U64_MAX (wk_bytes wk + n)\<rparr>
      in if wk_entries wk > pc_entries caps then Inl (LimitExceeded ''entry count'' (pc_entries caps))
         else if wk_bytes wk > pc_bytes caps then Inl (LimitExceeded ''total size'' (pc_bytes caps))
         else Inr wk)"

text \<open>The walk: the entries appended so far and its totals. \<open>append_tree\<close> is the loop over a listing.\<close>

type_synonym packed = "archive_error + appended list \<times> walk"

fun append_tree :: "pack_caps \<Rightarrow> bytes \<Rightarrow> nat \<Rightarrow> (string \<times> node) list \<Rightarrow> walk \<Rightarrow> packed" where
  "append_tree caps name depth [] wk = Inr ([], wk)"
| "append_tree caps name depth ((child, NodeDir mode children) # rest) wk =
     (let entry_name = join_path name child
      in if depth \<ge> pc_depth caps then Inl (LimitExceeded ''path depth'' (pc_depth caps))
         else and_then (admit caps 0 wk) (\<lambda>wk.
              and_then (append_tree caps entry_name (depth + 1) children wk) (\<lambda>(es, wk).
              and_then (append_tree caps name depth rest wk) (\<lambda>(es', wk).
              Inr (\<lparr>ap_name = entry_name, ap_type = Directory, ap_mode = mode, ap_size = 0, ap_link = None\<rparr> # es @ es', wk)))))"
| "append_tree caps name depth ((child, NodeSymlink target) # rest) wk =
     and_then (admit caps 0 wk) (\<lambda>wk.
     and_then (append_tree caps name depth rest wk) (\<lambda>(es, wk).
     Inr (\<lparr>ap_name = join_path name child, ap_type = Symlink, ap_mode = SYMLINK_MODE, ap_size = 0,
           ap_link = Some target\<rparr> # es, wk)))"
| "append_tree caps name depth ((child, NodeFile mode len) # rest) wk =
     and_then (admit caps len wk) (\<lambda>wk.
     and_then (append_tree caps name depth rest wk) (\<lambda>(es, wk).
     Inr (\<lparr>ap_name = join_path name child, ap_type = Regular, ap_mode = mode, ap_size = len, ap_link = None\<rparr> # es, wk)))"
| "append_tree caps name depth ((child, NodeSkipped) # rest) wk = append_tree caps name depth rest wk"
| "append_tree caps name depth ((child, NodeError err) # rest) wk = Inl (ArchiveIo err)"

text \<open>\<open>pack_dir\<close>: a root that is missing or no directory gives an empty archive.\<close>

definition pack_dir_with :: "pack_caps \<Rightarrow> node \<Rightarrow> archive_error + appended list" where
  "pack_dir_with caps root =
     (case root of
        NodeDir mode children \<Rightarrow>
          and_then (append_tree caps ''.'' 0 children \<lparr>wk_entries = 0, wk_bytes = 0\<rparr>) (\<lambda>(es, _).
            Inr (\<lparr>ap_name = ''.'', ap_type = Directory, ap_mode = mode, ap_size = 0, ap_link = None\<rparr> # es))
      | NodeError err \<Rightarrow> Inl (ArchiveIo err)
      | _ \<Rightarrow> Inr [])"

definition pack_dir :: "node \<Rightarrow> archive_error + appended list" where
  "pack_dir root =
     pack_dir_with \<lparr>pc_entries = SNAPSHOT_MAX_ENTRIES, pc_bytes = SNAPSHOT_MAX_TOTAL_BYTES, pc_depth = SNAPSHOT_MAX_DEPTH\<rparr> root"

definition pack_file :: "bytes \<Rightarrow> node \<Rightarrow> archive_error + appended list" where
  "pack_file name nd =
     (case nd of
        NodeFile mode len \<Rightarrow> Inr [\<lparr>ap_name = name, ap_type = Regular, ap_mode = mode, ap_size = len, ap_link = None\<rparr>]
      | NodeError err \<Rightarrow> Inl (ArchiveIo err)
      | _ \<Rightarrow> Inl (ArchiveIo (io_err KInvalidInput ''not a regular file: {}'' [])))"

text \<open>\<open>ExactReader\<close>: the body of a file is exactly the size in its header, or the pack fails.\<close>

definition exact_read :: "bytes io \<Rightarrow> nat \<Rightarrow> nat \<Rightarrow> bytes io \<times> nat" where
  "exact_read got left buf_len =
     (case got of
        Inl err \<Rightarrow> (Inl err, left)
      | Inr bs \<Rightarrow>
          (let bs = take (min left buf_len) bs; left' = left - length bs
           in if bs = [] \<and> left' > 0 \<and> buf_len > 0
              then (Inl (io_err KUnexpectedEof ''file shrank while it was packed: {}'' []), left')
              else (Inr bs, left')))"

section \<open>What is packed can be copied\<close>

definition proper_name :: "string \<Rightarrow> bool" where
  "proper_name n \<longleftrightarrow> n \<noteq> [] \<and> CHR ''/'' \<notin> set n \<and> n \<noteq> ''.'' \<and> n \<noteq> ''..''"

lemma components_join:
  assumes "name \<noteq> []" "\<not> ends_with name ''/''" "proper_name child"
  shows "components (join_path name child) = components name @ [Normal child]"
    and "join_path name child \<noteq> []" "\<not> ends_with (join_path name child) ''/''"
proof -
  have c: "child \<noteq> []" "CHR ''/'' \<notin> set child" "child \<noteq> ''.''" "child \<noteq> ''..''"
    using assms(3) by (auto simp: proper_name_def)
  have "\<not> starts_with child ''/''" using c(2) by (cases child) (auto simp: starts_with_def)
  then have j: "join_path name child = name @ CHR ''/'' # child" using assms by (simp add: join_path_def)
  have split: "split_on (CHR ''/'') (name @ CHR ''/'' # child) = split_on (CHR ''/'') name @ [child]"
    using split_on_single [OF c(2)] by (simp add: split_on_join_tail)
  have "starts_with (name @ CHR ''/'' # child) ''/'' = starts_with name ''/''"
    using assms(1) by (cases name) (auto simp: starts_with_def)
  then show "components (join_path name child) = components name @ [Normal child]"
    unfolding j components_def split Let_def using c by (simp add: part_component_def hd_append)
  show "join_path name child \<noteq> []" by (simp add: j)
  show "\<not> ends_with (join_path name child) ''/''"
    unfolding j ends_with_iff using c(1,2) by (cases child rule: rev_cases) (auto simp: suffix_def)
qed

text \<open>A listing as a file system gives it, with names that stay apart when case is ignored, and no setuid bits.\<close>

fun node_ok :: "archive_limits \<Rightarrow> node \<Rightarrow> bool" where
  "node_ok lim (NodeDir mode children) =
     (mode AND SETID_MODE_BITS = 0 \<and> distinct (map (\<lambda>c. to_ascii_lowercase (fst c)) children) \<and>
      (\<forall>c \<in> set children. proper_name (fst c) \<and> node_ok lim (snd c)))"
| "node_ok lim (NodeFile mode len) = (mode AND SETID_MODE_BITS = 0 \<and> len \<le> al_max_file_bytes lim)"
| "node_ok lim _ = True"

abbreviation listing_ok :: "archive_limits \<Rightarrow> (string \<times> node) list \<Rightarrow> bool" where
  "listing_ok lim children \<equiv>
     distinct (map (\<lambda>c. to_ascii_lowercase (fst c)) children) \<and>
     (\<forall>c \<in> set children. proper_name (fst c) \<and> node_ok lim (snd c))"

abbreviation base_ok :: "bytes \<Rightarrow> bool" where
  "base_ok name \<equiv> name \<noteq> [] \<and> \<not> ends_with name ''/'' \<and> list_all is_contained (components name)"

definition folded :: "bytes \<Rightarrow> string list" where
  "folded name = fold_case (normal_components name)"

lemma folded_join:
  "name \<noteq> [] \<Longrightarrow> \<not> ends_with name ''/'' \<Longrightarrow> proper_name child \<Longrightarrow>
     folded (join_path name child) = folded name @ [to_ascii_lowercase child]"
  by (simp add: folded_def fold_case_def normal_components_def components_join)

text \<open>What holds of every entry a walk below \<open>name\<close> appends.\<close>

definition packed_below :: "archive_limits \<Rightarrow> bytes \<Rightarrow> (string \<times> node) list \<Rightarrow> appended \<Rightarrow> bool" where
  "packed_below lim name children e \<longleftrightarrow>
     base_ok (ap_name e) \<and> ap_mode e AND SETID_MODE_BITS = 0 \<and> ap_size e \<le> al_max_file_bytes lim \<and>
     ap_type e \<in> {Directory, Symlink, Regular} \<and>
     (\<exists>c \<in> set children. \<exists>t. folded (ap_name e) = folded name @ to_ascii_lowercase (fst c) # t)"

lemma packed_belowE:
  assumes "list_all (packed_below lim name children) es" "e \<in> set es"
  obtains c t where "c \<in> set children" "folded (ap_name e) = folded name @ to_ascii_lowercase (fst c) # t"
proof -
  have "packed_below lim name children e" using assms by (simp add: list_all_iff)
  then show ?thesis unfolding packed_below_def using that by blast
qed

lemma packed_below_mono: "packed_below lim name rest e \<Longrightarrow> packed_below lim name (c # rest) e"
  unfolding packed_below_def by auto

lemma packed_below_up:
  assumes "packed_below lim n children e" "folded n = folded name @ [to_ascii_lowercase child]"
  shows "packed_below lim name ((child, nd) # rest) e"
proof -
  obtain c t where "folded (ap_name e) = folded n @ to_ascii_lowercase (fst c) # t"
    using assms(1) unfolding packed_below_def by auto
  with assms show ?thesis unfolding packed_below_def by auto
qed

lemma packed_below_new:
  assumes "base_ok (ap_name e)" "ap_mode e AND SETID_MODE_BITS = 0" "ap_size e \<le> al_max_file_bytes lim"
    "ap_type e \<in> {Directory, Symlink, Regular}" "folded (ap_name e) = folded name @ [to_ascii_lowercase child]"
  shows "packed_below lim name ((child, nd) # rest) e"
  using assms unfolding packed_below_def by auto

lemma append_tree_below:
  assumes "append_tree caps name depth children wk = Inr (es, wk')" "base_ok name" "listing_ok lim children"
  shows "list_all (packed_below lim name children) es"
  using assms
proof (induction caps name depth children wk arbitrary: es wk' rule: append_tree.induct)
  case (2 caps name depth child mode children rest wk)
  let ?n = "join_path name child"
  from "2.prems"(1) obtain wk1 es1 wk2 es2 where w: "admit caps 0 wk = Inr wk1" "\<not> depth \<ge> pc_depth caps"
      "append_tree caps ?n (depth + 1) children wk1 = Inr (es1, wk2)" "append_tree caps name depth rest wk2 = Inr (es2, wk')"
      "es = \<lparr>ap_name = ?n, ap_type = Directory, ap_mode = mode, ap_size = 0, ap_link = None\<rparr> # es1 @ es2"
    by (auto simp: Let_def split: if_splits)
  have n: "base_ok ?n" "folded ?n = folded name @ [to_ascii_lowercase child]"
    using "2.prems"(2,3) components_join [of name child] folded_join [of name child] by auto
  have "list_all (packed_below lim ?n children) es1" using "2.IH"(1) w(1-3) n(1) "2.prems"(3) by auto
  moreover have "list_all (packed_below lim name rest) es2" using "2.IH"(2) w "2.prems"(2,3) by auto
  moreover have "packed_below lim name ((child, NodeDir mode children) # rest) (hd es)"
    unfolding w(5) by (rule packed_below_new) (use n "2.prems"(3) in auto)
  ultimately show ?case unfolding w(5) list_all_iff
    using packed_below_up [OF _ n(2)] packed_below_mono by (auto simp: w(5))
next
  case (3 caps name depth child target rest wk)
  have n: "base_ok (join_path name child)" "folded (join_path name child) = folded name @ [to_ascii_lowercase child]"
    using "3.prems"(2,3) components_join [of name child] folded_join [of name child] by auto
  from "3.prems"(1) obtain wk1 es2 where w: "admit caps 0 wk = Inr wk1" "append_tree caps name depth rest wk1 = Inr (es2, wk')"
      "es = \<lparr>ap_name = join_path name child, ap_type = Symlink, ap_mode = SYMLINK_MODE, ap_size = 0, ap_link = Some target\<rparr> # es2"
    by auto
  have "list_all (packed_below lim name rest) es2" using "3.IH" w "3.prems"(2,3) by auto
  moreover have "packed_below lim name ((child, NodeSymlink target) # rest) (hd es)"
    unfolding w(3) by (rule packed_below_new) (use n in \<open>auto simp: SYMLINK_MODE_def SETID_MODE_BITS_def\<close>)
  ultimately show ?case using packed_below_mono unfolding list_all_iff by (auto simp: w(3))
next
  case (4 caps name depth child mode len rest wk)
  have n: "base_ok (join_path name child)" "folded (join_path name child) = folded name @ [to_ascii_lowercase child]"
    using "4.prems"(2,3) components_join [of name child] folded_join [of name child] by auto
  from "4.prems"(1) obtain wk1 es2 where w: "admit caps len wk = Inr wk1" "append_tree caps name depth rest wk1 = Inr (es2, wk')"
      "es = \<lparr>ap_name = join_path name child, ap_type = Regular, ap_mode = mode, ap_size = len, ap_link = None\<rparr> # es2"
    by auto
  have "list_all (packed_below lim name rest) es2" using "4.IH" w "4.prems"(2,3) by auto
  moreover have "packed_below lim name ((child, NodeFile mode len) # rest) (hd es)"
    unfolding w(3) by (rule packed_below_new) (use n "4.prems"(3) in auto)
  ultimately show ?case using packed_below_mono unfolding list_all_iff by (auto simp: w(3))
next
  case (5 caps name depth child rest wk)
  have "list_all (packed_below lim name rest) es" using 5 by auto
  then show ?case using packed_below_mono unfolding list_all_iff by auto
qed auto

lemma apart: "l \<noteq> l' \<Longrightarrow> \<not> strict_prefix (p @ l # t) (p @ l' # t')"
  by (auto simp: strict_prefix_def)

abbreviation unlinked :: "appended list \<Rightarrow> appended list \<Rightarrow> bool" where
  "unlinked es es' \<equiv>
     \<forall>e \<in> set es. \<forall>e' \<in> set es'. ap_type e = Symlink \<longrightarrow> \<not> strict_prefix (folded (ap_name e)) (folded (ap_name e'))"

text \<open>Entries below different names of one listing are apart.\<close>

lemma unlinked_siblings:
  assumes "list_all (packed_below lim name A) es" "list_all (packed_below lim name B) es'"
    and "\<forall>a \<in> set A. \<forall>b \<in> set B. to_ascii_lowercase (fst a) \<noteq> to_ascii_lowercase (fst b)"
  shows "unlinked es es'" "unlinked es' es"
proof -
  have "\<not> strict_prefix (folded (ap_name e)) (folded (ap_name e')) \<and> \<not> strict_prefix (folded (ap_name e')) (folded (ap_name e))"
    if e: "e \<in> set es" "e' \<in> set es'" for e e'
  proof -
    obtain a t where a: "a \<in> set A" "folded (ap_name e) = folded name @ to_ascii_lowercase (fst a) # t"
      by (rule packed_belowE [OF assms(1) e(1)])
    obtain b u where b: "b \<in> set B" "folded (ap_name e') = folded name @ to_ascii_lowercase (fst b) # u"
      by (rule packed_belowE [OF assms(2) e(2)])
    from assms(3) a(1) b(1) have "to_ascii_lowercase (fst a) \<noteq> to_ascii_lowercase (fst b)" by blast
    then show ?thesis unfolding a(2) b(2) using apart by metis
  qed
  then show "unlinked es es'" "unlinked es' es" by blast+
qed

lemma unlinked_append: "unlinked A A \<Longrightarrow> unlinked B B \<Longrightarrow> unlinked A B \<Longrightarrow> unlinked B A \<Longrightarrow> unlinked (A @ B) (A @ B)"
  by auto

lemma append_tree_unlinked:
  assumes "append_tree caps name depth children wk = Inr (es, wk')" "base_ok name" "listing_ok lim children"
  shows "unlinked es es"
  using assms
proof (induction caps name depth children wk arbitrary: es wk' rule: append_tree.induct)
  case (2 caps name depth child mode children rest wk)
  let ?n = "join_path name child" and ?c = "(child, NodeDir mode children)"
  from "2.prems"(1) obtain wk1 es1 wk2 es2 where w: "admit caps 0 wk = Inr wk1" "\<not> depth \<ge> pc_depth caps"
      "append_tree caps ?n (depth + 1) children wk1 = Inr (es1, wk2)" "append_tree caps name depth rest wk2 = Inr (es2, wk')"
      "es = \<lparr>ap_name = ?n, ap_type = Directory, ap_mode = mode, ap_size = 0, ap_link = None\<rparr> # es1 @ es2"
    by (auto simp: Let_def split: if_splits)
  let ?d = "\<lparr>ap_name = ?n, ap_type = Directory, ap_mode = mode, ap_size = 0, ap_link = None\<rparr>"
  have n: "base_ok ?n" "folded ?n = folded name @ [to_ascii_lowercase child]"
    using "2.prems"(2,3) components_join [of name child] folded_join [of name child] by auto
  have b1: "list_all (packed_below lim ?n children) es1" by (rule append_tree_below [OF w(3) n(1)]) (use "2.prems"(3) in auto)
  have b2: "list_all (packed_below lim name rest) es2" by (rule append_tree_below [OF w(4) "2.prems"(2)]) (use "2.prems"(3) in auto)
  have "packed_below lim name [?c] ?d" by (rule packed_below_new) (use n "2.prems"(3) in auto)
  moreover have "list_all (packed_below lim name [?c]) es1" using b1 packed_below_up [OF _ n(2)] by (auto simp: list_all_iff)
  ultimately have "list_all (packed_below lim name [?c]) (?d # es1)" by simp
  from unlinked_siblings [OF this b2] "2.prems"(3) have across: "unlinked (?d # es1) es2" "unlinked es2 (?d # es1)"
    by (auto simp: image_iff)
  have "unlinked es1 es1" using "2.IH"(1) w(1-3) n(1) "2.prems"(3) by auto
  moreover have "unlinked es2 es2" using "2.IH"(2) w "2.prems"(2,3) by auto
  moreover have "\<not> strict_prefix (folded (ap_name e)) (folded ?n)" if "e \<in> set es1" for e
    by (rule packed_belowE [OF b1 that]) (auto simp: strict_prefix_def prefix_def)
  ultimately show ?case unfolding w(5) using across by auto
next
  case (3 caps name depth child target rest wk)
  from "3.prems"(1) obtain wk1 es2 where w: "admit caps 0 wk = Inr wk1" "append_tree caps name depth rest wk1 = Inr (es2, wk')"
      "es = \<lparr>ap_name = join_path name child, ap_type = Symlink, ap_mode = SYMLINK_MODE, ap_size = 0, ap_link = Some target\<rparr> # es2"
    by auto
  have "folded (join_path name child) = folded name @ [to_ascii_lowercase child]" "base_ok (join_path name child)"
    using "3.prems"(2,3) components_join [of name child] folded_join [of name child] by auto
  then have "list_all (packed_below lim name [(child, NodeSymlink target)]) [hd es]"
    unfolding w(3) by (auto intro!: packed_below_new simp: SYMLINK_MODE_def SETID_MODE_BITS_def)
  moreover have "list_all (packed_below lim name rest) es2"
    by (rule append_tree_below [OF w(2) "3.prems"(2)]) (use "3.prems"(3) in auto)
  ultimately have across: "unlinked [hd es] es2" "unlinked es2 [hd es]"
    using unlinked_siblings [of lim name "[(child, NodeSymlink target)]" "[hd es]" rest es2] "3.prems"(3) by (auto simp: image_iff)
  have "unlinked es2 es2" using "3.IH" w "3.prems"(2,3) by auto
  with across show ?case unfolding w(3) by auto
next
  case (4 caps name depth child mode len rest wk)
  from "4.prems"(1) obtain wk1 es2 where w: "admit caps len wk = Inr wk1" "append_tree caps name depth rest wk1 = Inr (es2, wk')"
      "es = \<lparr>ap_name = join_path name child, ap_type = Regular, ap_mode = mode, ap_size = len, ap_link = None\<rparr> # es2"
    by auto
  have "folded (join_path name child) = folded name @ [to_ascii_lowercase child]" "base_ok (join_path name child)"
    using "4.prems"(2,3) components_join [of name child] folded_join [of name child] by auto
  then have "list_all (packed_below lim name [(child, NodeFile mode len)]) [hd es]"
    unfolding w(3) using "4.prems"(3) by (auto intro!: packed_below_new)
  moreover have "list_all (packed_below lim name rest) es2"
    by (rule append_tree_below [OF w(2) "4.prems"(2)]) (use "4.prems"(3) in auto)
  ultimately have across: "unlinked es2 [hd es]"
    using unlinked_siblings [of lim name "[(child, NodeFile mode len)]" "[hd es]" rest es2] "4.prems"(3) by (auto simp: image_iff)
  have "unlinked es2 es2" using "4.IH" w "4.prems"(2,3) by auto
  with across show ?case unfolding w(3) by auto
qed auto

lemma validate_entries_ok:
  assumes "list_all (\<lambda>e. entry_fits policy lim e \<and> te_type e \<noteq> HardLink) es"
    and "tt_entries t + length es \<le> al_max_entries lim" "tt_bytes t + sum_list (map te_size es) \<le> al_max_total_bytes lim"
    and "\<forall>e \<in> set es. \<forall>l \<in> links. \<not> strict_prefix l (folded (te_path e))"
    and "\<forall>e \<in> set es. \<forall>e' \<in> set es. te_type e = Symlink \<longrightarrow> \<not> strict_prefix (folded (te_path e)) (folded (te_path e'))"
  shows "\<exists>st. validate_entries policy lim es (t, links) = Inr st"
  using assms
proof (induction es arbitrary: t links)
  case (Cons e es)
  define t' where "t' = \<lparr>tt_entries = tt_entries t + 1, tt_bytes = min U64_MAX (tt_bytes t + te_size e)\<rparr>"
  define links' where "links' = (if te_type e = Symlink then insert (folded (te_path e)) links else links)"
  have "check_entry e policy lim t = Inr t'"
    unfolding check_entry_Inr t'_def using Cons.prems(1-3) by (auto simp: min_def)
  moreover have "\<not> crosses_symlink (normal_components (te_path e)) links"
    unfolding crosses_symlink_iff using Cons.prems(4) by (auto simp: folded_def)
  then have "trail_check e links = Inr links'"
    unfolding trail_check_def links'_def using Cons.prems(1)
    by (auto simp: Let_def folded_def split: entry_type.splits)
  moreover have "\<exists>st. validate_entries policy lim es (t', links') = Inr st"
    by (rule Cons.IH) (use Cons.prems in \<open>auto simp: t'_def links'_def min_def\<close>)
  ultimately show ?case by (auto simp: validate_entry_def)
qed simp

text \<open>
  What a reader of the tar reports of an appended entry: the path as the \<open>tar\<close> crate stored it and the offset
  of the body.
\<close>

definition read_back :: "(bytes \<Rightarrow> bytes) \<Rightarrow> (appended \<Rightarrow> nat) \<Rightarrow> appended \<Rightarrow> tar_entry" where
  "read_back stored pos a =
     \<lparr>te_path = stored (ap_name a), te_type = ap_type a, te_size = ap_size a, te_link = ap_link a,
      te_mode = Inr (ap_mode a), te_position = pos a\<rparr>"

lemma pack_dir_entries:
  assumes "pack_dir root = Inr es" "node_ok lim root"
  shows "list_all (\<lambda>a. base_ok (ap_name a) \<and> ap_mode a AND SETID_MODE_BITS = 0 \<and> ap_size a \<le> al_max_file_bytes lim \<and>
      ap_type a \<in> {Directory, Symlink, Regular}) es \<and> unlinked es es"
proof (cases root)
  case (NodeDir mode children)
  let ?d = "\<lparr>ap_name = ''.'', ap_type = Directory, ap_mode = mode, ap_size = 0, ap_link = None\<rparr>"
  obtain caps es1 wk where es: "append_tree caps ''.'' 0 children \<lparr>wk_entries = 0, wk_bytes = 0\<rparr> = Inr (es1, wk)" "es = ?d # es1"
    using assms(1) unfolding pack_dir_def pack_dir_with_def NodeDir by auto
  have dot: "base_ok ''.''" "folded ''.'' = []"
    by (simp_all add: components_def part_component_def starts_with_def ends_with_def folded_def normal_components_def
        fold_case_def)
  have ok: "listing_ok lim children" "mode AND SETID_MODE_BITS = 0" using assms(2) NodeDir by simp_all
  have "list_all (packed_below lim ''.'' children) es1" by (rule append_tree_below [OF es(1) dot(1) ok(1)])
  then have "list_all (\<lambda>a. base_ok (ap_name a) \<and> ap_mode a AND SETID_MODE_BITS = 0 \<and> ap_size a \<le> al_max_file_bytes lim \<and>
      ap_type a \<in> {Directory, Symlink, Regular}) es1"
    unfolding packed_below_def by (simp add: list_all_iff)
  moreover have "unlinked es1 es1" by (rule append_tree_unlinked [OF es(1) dot(1) ok(1)])
  ultimately show ?thesis unfolding es(2) using dot ok(2) by auto
qed (use assms in \<open>auto simp: pack_dir_def pack_dir_with_def\<close>)

text \<open>
  C17: A directory tree whose names stay apart without case and that has no setuid or setgid bits passes the
  checks of the copy policy once packed, as long as it is within their limits: what a sandbox packs can be
  copied out of it.
\<close>

theorem packed_tree_accepted:
  assumes "pack_dir root = Inr es" "node_ok lim root"
    and "\<And>n. list_all is_contained (components n) \<Longrightarrow>
      normal_components (stored n) = normal_components n \<and> list_all is_contained (components (stored n))"
    and "length es \<le> al_max_entries lim" "sum_list (map ap_size es) \<le> al_max_total_bytes lim"
    and "list_all (\<lambda>a. length (stored (ap_name a)) \<le> al_max_path_len lim \<and>
      length (normal_components (ap_name a)) \<le> al_max_depth lim) es"
  shows "\<exists>st. validate_entries CopyPolicy lim (map (read_back stored pos) es) (no_totals, {}) = Inr st"
proof (rule validate_entries_ok)
  note es = pack_dir_entries [OF assms(1,2)]
  have path: "folded (stored (ap_name a)) = folded (ap_name a)" if "a \<in> set es" for a
    using es assms(3) [of "ap_name a"] that by (auto simp: folded_def list_all_iff)
  show "list_all (\<lambda>e. entry_fits CopyPolicy lim e \<and> te_type e \<noteq> HardLink) (map (read_back stored pos) es)"
    using es assms(3,6) by (auto simp: list_all_iff entry_fits_def read_back_def is_plain_type_def)
  show "tt_entries no_totals + length (map (read_back stored pos) es) \<le> al_max_entries lim"
    using assms(4) by (simp add: no_totals_def)
  show "tt_bytes no_totals + sum_list (map te_size (map (read_back stored pos) es)) \<le> al_max_total_bytes lim"
    using assms(5) by (simp add: no_totals_def read_back_def comp_def)
  show "\<forall>e \<in> set (map (read_back stored pos) es). \<forall>l \<in> {}. \<not> strict_prefix l (folded (te_path e))" by simp
  show "\<forall>e \<in> set (map (read_back stored pos) es). \<forall>e' \<in> set (map (read_back stored pos) es).
      te_type e = Symlink \<longrightarrow> \<not> strict_prefix (folded (te_path e)) (folded (te_path e'))"
    using es path by (auto simp: read_back_def)
qed

definition demo_tree :: node where
  "demo_tree = NodeDir 493 [(''a'', NodeDir 493 [(''f'', NodeFile 420 5)]), (''l'', NodeSymlink ''/run'')]"

lemma demo_packed:
  "\<exists>es. pack_dir demo_tree = Inr es \<and> length es = 4 \<and> sum_list (map ap_size es) = 5 \<and>
     list_all (\<lambda>a. length (ap_name a) \<le> 9 \<and> length (normal_components (ap_name a)) \<le> 2) es"
  by (simp add: demo_tree_def pack_dir_def pack_dir_with_def admit_def Let_def SNAPSHOT_MAX_ENTRIES_def
      SNAPSHOT_MAX_TOTAL_BYTES_def SNAPSHOT_MAX_DEPTH_def U64_MAX_def join_path_def starts_with_def ends_with_def
      normal_components_def components_def part_component_def)

theorem packed_tree_accepted_witness:
  "\<exists>es st. pack_dir demo_tree = Inr es \<and>
     validate_entries CopyPolicy
       \<lparr>al_max_entries = 4, al_max_file_bytes = 5, al_max_total_bytes = 5, al_max_path_len = 9, al_max_depth = 2\<rparr>
       (map (read_back (\<lambda>n. n) (\<lambda>_. 0)) es) (no_totals, {}) = Inr st"
proof -
  let ?lim = "\<lparr>al_max_entries = 4, al_max_file_bytes = 5, al_max_total_bytes = 5, al_max_path_len = 9, al_max_depth = 2\<rparr>"
  obtain es where es: "pack_dir demo_tree = Inr es" "length es = 4" "sum_list (map ap_size es) = 5"
      "list_all (\<lambda>a. length (ap_name a) \<le> 9 \<and> length (normal_components (ap_name a)) \<le> 2) es"
    using demo_packed by blast
  have "node_ok ?lim demo_tree"
    by (simp add: demo_tree_def SETID_MODE_BITS_def proper_name_def to_ascii_lowercase_def to_ascii_lowercase_char_def
        text_defs byte_def)
  from packed_tree_accepted [OF es(1) this, of "\<lambda>n. n" "\<lambda>_. 0"] es show ?thesis by auto
qed

section \<open>Unpacking\<close>

text \<open>
  The calls unpacking makes below the destination: \<open>unpack_in\<close> of the \<open>tar\<close> crate, which says whether it
  wrote the entry, \<open>canonicalize\<close>, \<open>set_permissions\<close>, and a directory opened without following a symbolic
  link, by its device and inode, with \<open>fchmod\<close> on it.
\<close>

record 'f unpack_calls =
  uc_unpack_in :: "tar_entry \<Rightarrow> 'f \<Rightarrow> bool io \<times> 'f"
  uc_canonicalize :: "component list \<Rightarrow> 'f \<Rightarrow> string list io"
  uc_set_mode :: "bytes \<Rightarrow> u32 \<Rightarrow> 'f \<Rightarrow> unit io \<times> 'f"
  uc_open_dir :: "bytes \<Rightarrow> 'f \<Rightarrow> (nat \<times> nat) io"
  uc_fchmod :: "nat \<times> nat \<Rightarrow> u32 \<Rightarrow> 'f \<Rightarrow> unit io \<times> 'f"

record dir_mode =
  dm_path :: bytes
  dm_mode :: u32
  dm_inode :: "nat \<times> nat"

definition dir_mode_record :: "'f unpack_calls \<Rightarrow> bytes \<Rightarrow> u32 \<Rightarrow> 'f \<Rightarrow> (archive_error + dir_mode) \<times> 'f" where
  "dir_mode_record uc path mode st =
     (case uc_open_dir uc path st of
        Inl err \<Rightarrow> (Inl (ArchiveIo err), st)
      | Inr inode \<Rightarrow>
          (case uc_fchmod uc inode (mode OR OWNER_RWX) st of
             (Inl err, st) \<Rightarrow> (Inl (ArchiveIo err), st)
           | (Inr _, st) \<Rightarrow> (Inr \<lparr>dm_path = path, dm_mode = mode, dm_inode = inode\<rparr>, st)))"

definition dir_mode_apply :: "'f unpack_calls \<Rightarrow> dir_mode \<Rightarrow> 'f \<Rightarrow> (archive_error + unit) \<times> 'f" where
  "dir_mode_apply uc dm st =
     (case uc_open_dir uc (dm_path dm) st of
        Inl err \<Rightarrow> (Inl (ArchiveIo err), st)
      | Inr inode \<Rightarrow>
          if inode \<noteq> dm_inode dm then (Inl (UnsafePath (shown (dm_path dm))), st)
          else (case uc_fchmod uc inode (dm_mode dm) st of
                  (Inl err, st) \<Rightarrow> (Inl (ArchiveIo err), st)
                | (Inr _, st) \<Rightarrow> (Inr (), st)))"

definition check_hardlink_inside :: "'f unpack_calls \<Rightarrow> bytes \<Rightarrow> tar_entry \<Rightarrow> 'f \<Rightarrow> archive_error + unit" where
  "check_hardlink_inside uc dest e st =
     (case te_link e of
        None \<Rightarrow> Inr ()
      | Some target \<Rightarrow>
          (case uc_canonicalize uc (components dest) st of
             Inl err \<Rightarrow> Inl (ArchiveIo err)
           | Inr root \<Rightarrow>
               (case parent_of (components (join_path dest target)) of
                  None \<Rightarrow> Inl (UnsafeLink (shown target))
                | Some parent \<Rightarrow>
                    (case uc_canonicalize uc parent st of
                       Inr resolved \<Rightarrow> err_when (\<not> starts_with resolved root) (UnsafeLink (shown target))
                     | Inl _ \<Rightarrow> Inr ()))))"

definition kept_mode_bits :: "archive_policy \<Rightarrow> u32" where
  "kept_mode_bits policy = (case policy of SnapshotPolicy \<Rightarrow> RESTORED_MODE_BITS | CopyPolicy \<Rightarrow> COPIED_MODE_BITS)"

text \<open>What follows an entry that was written: its mode, now for a file and last for a directory.\<close>

definition after_entry ::
  "'f unpack_calls \<Rightarrow> archive_policy \<Rightarrow> bytes \<Rightarrow> tar_entry \<Rightarrow> u32 \<Rightarrow> 'f \<Rightarrow> (archive_error + dir_mode list) \<times> 'f" where
  "after_entry uc policy target e mode st =
     (if (te_type e = Regular \<or> te_type e = Continuous) \<and> policy = SnapshotPolicy
      then (case uc_set_mode uc target mode st of
              (Inl err, st) \<Rightarrow> (Inl (ArchiveIo err), st)
            | (Inr _, st) \<Rightarrow> (Inr [], st))
      else if te_type e = Directory
      then (case dir_mode_record uc target mode st of
              (Inl err, st) \<Rightarrow> (Inl err, st)
            | (Inr dm, st) \<Rightarrow> (Inr [dm], st))
      else (Inr [], st))"

text \<open>One turn of the loop of \<open>scan\<close> with a destination.\<close>

definition unpack_entry ::
  "'f unpack_calls \<Rightarrow> archive_policy \<Rightarrow> archive_limits \<Rightarrow> bytes \<Rightarrow> tar_entry \<Rightarrow> totals \<Rightarrow> 'f \<Rightarrow>
   (archive_error + totals \<times> dir_mode list) \<times> 'f" where
  "unpack_entry uc policy lim dest e t st =
     (case check_entry e policy lim t of
        Inl err \<Rightarrow> (Inl err, st)
      | Inr t \<Rightarrow>
          (case te_mode e of
             Inl err \<Rightarrow> (Inl (ArchiveIo err), st)
           | Inr field \<Rightarrow>
               (case (if te_type e = HardLink then check_hardlink_inside uc dest e st else Inr ()) of
                  Inl err \<Rightarrow> (Inl err, st)
                | Inr _ \<Rightarrow>
                    (case uc_unpack_in uc e st of
                       (Inl err, st) \<Rightarrow> (Inl (UnpackFailed (shown (te_path e)) err), st)
                     | (Inr False, st) \<Rightarrow> (Inl (UnsafePath (shown (te_path e))), st)
                     | (Inr True, st) \<Rightarrow>
                         (case after_entry uc policy (join_path dest (te_path e)) e (field AND kept_mode_bits policy) st of
                            (Inl err, st) \<Rightarrow> (Inl err, st)
                          | (Inr dms, st) \<Rightarrow> (Inr (t, dms), st))))))"

fun apply_all :: "'f unpack_calls \<Rightarrow> dir_mode list \<Rightarrow> 'f \<Rightarrow> (archive_error + unit) \<times> 'f" where
  "apply_all uc [] st = (Inr (), st)"
| "apply_all uc (dm # dms) st =
     (case dir_mode_apply uc dm st of (Inl err, st) \<Rightarrow> (Inl err, st) | (Inr _, st) \<Rightarrow> apply_all uc dms st)"

fun unpack_entries ::
  "'f unpack_calls \<Rightarrow> archive_policy \<Rightarrow> archive_limits \<Rightarrow> bytes \<Rightarrow> tar_entry list \<Rightarrow> totals \<Rightarrow> dir_mode list \<Rightarrow> 'f \<Rightarrow>
   (archive_error + unit) \<times> 'f" where
  "unpack_entries uc policy lim dest [] t dms st = apply_all uc (rev dms) st"
| "unpack_entries uc policy lim dest (e # es) t dms st =
     (case unpack_entry uc policy lim dest e t st of
        (Inl err, st) \<Rightarrow> (Inl err, st)
      | (Inr (t, new), st) \<Rightarrow> unpack_entries uc policy lim dest es t (dms @ new) st)"

text \<open>
  Whatever the entry calls keep and changes to modes without setuid and setgid bits keep, unpacking keeps: it
  hands over only entries that passed the checks, and never sets one of those bits itself.
\<close>

lemma kept_mode_no_setid:
  "(field AND kept_mode_bits policy) AND SETID_MODE_BITS = 0"
  "((field AND kept_mode_bits policy) OR OWNER_RWX) AND SETID_MODE_BITS = 0"
proof -
  have "kept_mode_bits policy AND SETID_MODE_BITS = 0" "OWNER_RWX AND SETID_MODE_BITS = 0"
    by (cases policy; simp add: kept_mode_bits_def RESTORED_MODE_BITS_def COPIED_MODE_BITS_def SETID_MODE_BITS_def OWNER_RWX_def)+
  then show "(field AND kept_mode_bits policy) AND SETID_MODE_BITS = 0"
      "((field AND kept_mode_bits policy) OR OWNER_RWX) AND SETID_MODE_BITS = 0"
    by (simp_all add: and.assoc bit.conj_disj_distrib2)
qed

definition harmless :: "'f unpack_calls \<Rightarrow> archive_policy \<Rightarrow> archive_limits \<Rightarrow> ('f \<Rightarrow> bool) \<Rightarrow> bool" where
  "harmless uc policy lim P \<longleftrightarrow>
     (\<forall>st e. P st \<and> entry_fits policy lim e \<longrightarrow> P (snd (uc_unpack_in uc e st))) \<and>
     (\<forall>st path mode. P st \<and> mode AND SETID_MODE_BITS = 0 \<longrightarrow> P (snd (uc_set_mode uc path mode st))) \<and>
     (\<forall>st inode mode. P st \<and> mode AND SETID_MODE_BITS = 0 \<longrightarrow> P (snd (uc_fchmod uc inode mode st)))"

abbreviation modes_ok :: "dir_mode list \<Rightarrow> bool" where
  "modes_ok dms \<equiv> list_all (\<lambda>dm. dm_mode dm AND SETID_MODE_BITS = 0) dms"

lemma harmlessD:
  assumes "harmless uc policy lim P" "P st"
  shows "uc_unpack_in uc e st = (r, st') \<Longrightarrow> entry_fits policy lim e \<Longrightarrow> P st'"
    and "uc_set_mode uc path mode st = (s, st') \<Longrightarrow> mode AND SETID_MODE_BITS = 0 \<Longrightarrow> P st'"
    and "uc_fchmod uc inode mode st = (s, st') \<Longrightarrow> mode AND SETID_MODE_BITS = 0 \<Longrightarrow> P st'"
  using assms unfolding harmless_def by (metis snd_conv)+

lemma unpack_entry_keeps:
  assumes h: "harmless uc policy lim P" and P: "P st" and u: "unpack_entry uc policy lim dest e t st = (r, st')"
  shows "P st' \<and> (\<forall>t' new. r = Inr (t', new) \<longrightarrow> modes_ok new)"
proof -
  have "P st' \<and> (\<forall>new. q = Inr new \<longrightarrow> modes_ok new)"
    if "P s" "after_entry uc policy target e (field AND kept_mode_bits policy) s = (q, st')" for s target field q
    using that kept_mode_no_setid harmlessD [OF h \<open>P s\<close>]
    by (auto simp: after_entry_def dir_mode_record_def split: if_splits sum.splits prod.splits)
  moreover have "P s" if "uc_unpack_in uc e st = (q, s)" "check_entry e policy lim t = Inr t'" for q s t'
    using harmlessD(1) [OF h P that(1)] that(2) by (simp add: check_entry_Inr)
  ultimately show ?thesis using u P
    unfolding unpack_entry_def by (auto split: sum.splits prod.splits bool.splits if_splits) metis+
qed

lemma apply_all_keeps:
  assumes "harmless uc policy lim P" "P st" "modes_ok dms"
  shows "P (snd (apply_all uc dms st))"
  using assms(2,3)
proof (induction dms arbitrary: st)
  case (Cons dm dms)
  obtain r s where r: "uc_fchmod uc (dm_inode dm) (dm_mode dm) st = (r, s)" by force
  have "P s" using harmlessD(3) [OF assms(1) Cons.prems(1) r] Cons.prems(2) by simp
  with Cons r show ?case by (simp add: dir_mode_apply_def split: sum.splits)
qed simp

lemma unpack_keeps:
  assumes "harmless uc policy lim P" "P st" "modes_ok dms"
  shows "P (snd (unpack_entries uc policy lim dest es t dms st))"
  using assms(2,3)
proof (induction es arbitrary: t dms st)
  case Nil
  then show ?case using apply_all_keeps [OF assms(1)] by simp
next
  case (Cons e es)
  obtain r st' where r: "unpack_entry uc policy lim dest e t st = (r, st')" by force
  from unpack_entry_keeps [OF assms(1) Cons.prems(1) r] Cons r show ?case by (auto split: sum.splits)
qed

end
