(* ===== verification/GuestUser.thy ===== *)
theory GuestUser
  imports Agent Wire
begin

text \<open>
  Who a process in the guest runs as: \<open>ward-agent/src/user.rs\<close>, and what \<open>ward-agent/src/lib.rs\<close> does with it
  when it starts a process (\<open>load_identity\<close>, \<open>with_group_add\<close>, \<open>spawn_child\<close>). The guest's user and group
  files are the texts the agent reads; the system calls are a parameter. An OS error code is a 32-bit
  word, the high half of which the agent uses to say which call failed.
\<close>

section \<open>User and group files\<close>

datatype user_error = SpecInvalid string | UserNotFound string | GroupNotFound string | FileTooLarge string

definition user_error_text :: "user_error \<Rightarrow> message" where
  "user_error_text err =
     (case err of
        SpecInvalid spec \<Rightarrow> Msg ''invalid user spec {spec:?}'' [S spec]
      | UserNotFound user \<Rightarrow> Msg ''unable to find user {user}: no matching entries in passwd file'' [S user]
      | GroupNotFound g \<Rightarrow> Msg ''unable to find group {group}: no matching entries in group file'' [S g]
      | FileTooLarge f \<Rightarrow> Msg ''{file} file too large'' [S f])"

record identity =
  id_uid :: nat
  id_gid :: nat
  id_groups :: "nat list"
  id_home :: string

definition U32_MAX :: nat where "U32_MAX = 4294967295"

datatype reference = RefId nat | RefName string

definition reference_parse :: "string \<Rightarrow> reference" where
  "reference_parse s = (case parse_unsigned U32_MAX s of Some n \<Rightarrow> RefId n | None \<Rightarrow> RefName s)"

record passwd_entry =
  pw_name :: string
  pw_uid :: nat
  pw_gid :: nat
  pw_home :: string

record group_entry =
  gr_name :: string
  gr_gid :: nat
  gr_members :: string

definition passwd_line :: "string \<Rightarrow> passwd_entry option" where
  "passwd_line line =
     (let fields = split_on (CHR '':'') line
      in if length fields < 6 then None
         else (case (parse_unsigned U32_MAX (fields ! 2), parse_unsigned U32_MAX (fields ! 3)) of
                 (Some uid, Some gid) \<Rightarrow> Some \<lparr>pw_name = fields ! 0, pw_uid = uid, pw_gid = gid, pw_home = fields ! 5\<rparr>
               | _ \<Rightarrow> None))"

definition passwd_entries :: "string \<Rightarrow> passwd_entry list" where
  "passwd_entries passwd = List.map_filter passwd_line (str_lines passwd)"

definition group_line :: "string \<Rightarrow> group_entry option" where
  "group_line line =
     (let fields = split_on (CHR '':'') line
      in if length fields < 3 then None
         else map_option (\<lambda>gid. \<lparr>gr_name = fields ! 0, gr_gid = gid,
                gr_members = (if 3 < length fields then fields ! 3 else [])\<rparr>)
              (parse_unsigned U32_MAX (fields ! 2)))"

definition group_entries :: "string \<Rightarrow> group_entry list" where
  "group_entries groups = List.map_filter group_line (str_lines groups)"

text \<open>A spec is \<open>user\<close> or \<open>user:group\<close>, neither part empty and no second colon.\<close>

definition split_spec :: "string \<Rightarrow> user_error + reference \<times> reference option" where
  "split_spec spec =
     (let parts = (case split_once (CHR '':'') spec of Some (user, g) \<Rightarrow> (user, Some g) | None \<Rightarrow> (spec, None));
          unusable = (\<lambda>part. part = [] \<or> CHR '':'' \<in> set part)
      in if unusable (fst parts) \<or> (case snd parts of Some g \<Rightarrow> unusable g | None \<Rightarrow> False)
         then Inl (SpecInvalid spec)
         else Inr (reference_parse (fst parts), map_option reference_parse (snd parts)))"

definition group_named :: "string \<Rightarrow> string \<Rightarrow> user_error + nat" where
  "group_named groups name =
     (case find (\<lambda>g. gr_name g = name) (group_entries groups) of
        Some g \<Rightarrow> Inr (gr_gid g)
      | None \<Rightarrow> Inl (GroupNotFound name))"

definition push_group :: "nat \<Rightarrow> nat list \<Rightarrow> nat list" where
  "push_group gid gids = (if gid \<in> set gids then gids else gids @ [gid])"

definition lists_member :: "string \<Rightarrow> group_entry \<Rightarrow> bool" where
  "lists_member name g = list_ex (\<lambda>member. member = name) (split_on (CHR '','') (gr_members g))"

definition resolve_identity :: "string \<Rightarrow> string \<Rightarrow> string \<Rightarrow> user_error + identity" where
  "resolve_identity spec passwd groups =
     and_then (split_spec spec) (\<lambda>(user_ref, group_ref).
       let entry = find (\<lambda>e. case user_ref of RefId uid \<Rightarrow> pw_uid e = uid | RefName name \<Rightarrow> pw_name e = name)
                     (passwd_entries passwd)
       in and_then (case (entry, user_ref) of
                      (Some e, _) \<Rightarrow> Inr (pw_uid e, pw_gid e)
                    | (None, RefId uid) \<Rightarrow> Inr (uid, 0)
                    | (None, RefName name) \<Rightarrow> Inl (UserNotFound name)) (\<lambda>(uid, default_gid).
          and_then (case group_ref of
                      None \<Rightarrow> Inr default_gid
                    | Some (RefId gid) \<Rightarrow> Inr gid
                    | Some (RefName name) \<Rightarrow> group_named groups name) (\<lambda>gid.
            Inr \<lparr>id_uid = uid, id_gid = gid,
                 id_groups = (case (entry, group_ref) of
                     (Some e, None) \<Rightarrow>
                       fold (\<lambda>g gids. if lists_member (pw_name e) g then push_group (gr_gid g) gids else gids)
                         (group_entries groups) [gid]
                   | _ \<Rightarrow> [gid]),
                 id_home = (case entry of Some e \<Rightarrow> if pw_home e = [] then ''/'' else pw_home e | None \<Rightarrow> ''/'')\<rparr>)))"

definition resolve_group_add :: "string list \<Rightarrow> string \<Rightarrow> user_error + nat list" where
  "resolve_group_add specs groups =
     collect_results (\<lambda>spec. case parse_unsigned U32_MAX spec of Some gid \<Rightarrow> Inr gid | None \<Rightarrow> group_named groups spec) specs"

definition add_groups :: "nat list \<Rightarrow> identity \<Rightarrow> identity" where
  "add_groups extra i = i\<lparr>id_groups := fold push_group extra (id_groups i)\<rparr>"

text \<open>
  \<open>read_user_db\<close>: the file as \<open>read_to_string\<close> leaves it, at most one byte over the limit; a file that
  cannot be opened or is not UTF-8 is an empty text.
\<close>

definition MAX_USER_DB_BYTES :: nat where "MAX_USER_DB_BYTES = 4194304"

definition read_user_db :: "bytes option \<Rightarrow> string \<Rightarrow> user_error + string" where
  "read_user_db content name =
     (case content of
        None \<Rightarrow> Inr []
      | Some bs \<Rightarrow>
          let taken = take (MAX_USER_DB_BYTES + 1) bs;
              txt = (if snd (from_utf8 taken) = None then taken else [])
          in if length txt > MAX_USER_DB_BYTES then Inl (FileTooLarge name) else Inr txt)"

definition load_identity :: "string \<Rightarrow> bytes option \<Rightarrow> bytes option \<Rightarrow> user_error + identity option" where
  "load_identity spec passwd groups =
     (if spec = [] then Inr None
      else and_then (read_user_db passwd ''passwd'') (\<lambda>p.
           and_then (read_user_db groups ''group'') (\<lambda>g.
           and_then (resolve_identity spec p g) (\<lambda>i. Inr (Some i)))))"

definition with_group_add :: "string list \<Rightarrow> bytes option \<Rightarrow> identity option \<Rightarrow> user_error + identity option \<times> nat list" where
  "with_group_add names groups i =
     (if names = [] then Inr (i, [])
      else and_then (read_user_db groups ''group'') (\<lambda>g.
           and_then (resolve_group_add names g) (\<lambda>gids.
             Inr (case i of Some ident \<Rightarrow> (Some (add_groups gids ident), []) | None \<Rightarrow> (None, gids)))))"

section \<open>System calls and their errors\<close>

text \<open>\<open>std::io::Error\<close>: the code of the operating system, or an error of the library's own.\<close>

datatype os_error = OsCode u32 | LibError string

datatype drop_step = SetGroups | SetGid | SetUid | ChangeDir

definition step_number :: "drop_step \<Rightarrow> u32" where
  "step_number st = (case st of SetGroups \<Rightarrow> 1 | SetGid \<Rightarrow> 2 | SetUid \<Rightarrow> 3 | ChangeDir \<Rightarrow> 4)"

definition step_name :: "drop_step \<Rightarrow> string" where
  "step_name st =
     (case st of SetGroups \<Rightarrow> ''setgroups'' | SetGid \<Rightarrow> ''setgid'' | SetUid \<Rightarrow> ''setuid'' | ChangeDir \<Rightarrow> ''chdir'')"

definition ALL_STEPS :: "drop_step list" where "ALL_STEPS = [SetGroups, SetGid, SetUid, ChangeDir]"

definition STEP_SHIFT :: nat where "STEP_SHIFT = 16"

definition ERRNO_MASK :: u32 where "ERRNO_MASK = push_bit STEP_SHIFT 1 - 1"

definition tag :: "drop_step \<Rightarrow> os_error \<Rightarrow> os_error" where
  "tag st err =
     (case err of
        OsCode errno \<Rightarrow> OsCode (push_bit STEP_SHIFT (step_number st) OR errno)
      | LibError msg \<Rightarrow> LibError msg)"

text \<open>The code is an \<open>i32\<close>, so the shift to the right keeps the sign.\<close>

definition untag :: "os_error \<Rightarrow> drop_step option \<times> os_error" where
  "untag err =
     (case err of
        LibError msg \<Rightarrow> (None, err)
      | OsCode code \<Rightarrow>
          (case find (\<lambda>st. step_number st = signed_drop_bit STEP_SHIFT code) ALL_STEPS of
             Some st \<Rightarrow> (Some st, OsCode (code AND ERRNO_MASK))
           | None \<Rightarrow> (None, err)))"

text \<open>
  The calls of the agent when it starts a child (open a terminal and hand over its slave, make the pipes and
  fork) and those of the child before it runs the program; \<open>'k\<close> is the state of the kernel.
\<close>

type_synonym 'k call = "'k \<Rightarrow> os_error option \<times> 'k"

record 'k child_calls =
  cc_open_pty :: "'k call"
  cc_fork :: "'k call"
  cc_join_cgroup :: "'k call"
  cc_setrlimit :: "string \<Rightarrow> nat option \<Rightarrow> nat option \<Rightarrow> 'k call"
  cc_attach_tty :: "'k call"
  cc_set_groups :: "nat list \<Rightarrow> 'k call"
  cc_set_gid :: "nat \<Rightarrow> 'k call"
  cc_set_uid :: "nat \<Rightarrow> 'k call"
  cc_change_dir :: "string \<Rightarrow> 'k call"

text \<open>\<open>a?; b\<close> over calls, and a call whose error is tagged.\<close>

definition then_call :: "'k call \<Rightarrow> 'k call \<Rightarrow> 'k call" where
  "then_call a b k = (case a k of (Some err, k') \<Rightarrow> (Some err, k') | (None, k') \<Rightarrow> b k')"

definition tagged :: "drop_step \<Rightarrow> 'k call \<Rightarrow> 'k call" where
  "tagged st c k = (case c k of (r, k') \<Rightarrow> (map_option (tag st) r, k'))"

definition no_call :: "'k call" where "no_call k = (None, k)"

fun all_calls :: "'k call list \<Rightarrow> 'k call" where
  "all_calls [] = no_call"
| "all_calls (c # cs) = then_call c (all_calls cs)"

definition drop_privileges :: "('k, 'z) child_calls_scheme \<Rightarrow> identity \<Rightarrow> 'k call" where
  "drop_privileges cc i =
     then_call (tagged SetGroups (cc_set_groups cc (id_groups i)))
       (then_call (tagged SetGid (cc_set_gid cc (id_gid i))) (tagged SetUid (cc_set_uid cc (id_uid i))))"

definition enter_as :: "('k, 'z) child_calls_scheme \<Rightarrow> identity \<Rightarrow> string option \<Rightarrow> 'k call" where
  "enter_as cc i workdir =
     then_call (drop_privileges cc i)
       (case workdir of None \<Rightarrow> no_call | Some dir \<Rightarrow> tagged ChangeDir (cc_change_dir cc dir))"

section \<open>Starting a child\<close>

definition kernel_limits :: "guest_ulimit list \<Rightarrow> guest_ulimit list" where
  "kernel_limits limits = filter (\<lambda>l. resource_known (gu_name l)) limits"

definition workdir_of :: "exec_request \<Rightarrow> string option" where
  "workdir_of ex = (if ex_working_dir ex = [] then None else Some (ex_working_dir ex))"

definition child_env :: "exec_request \<Rightarrow> identity option \<Rightarrow> (string \<times> string) list" where
  "child_env ex i =
     (case i of
        Some ident \<Rightarrow> if map_of (ex_env ex) ''HOME'' = None then AList.update ''HOME'' (id_home ident) (ex_env ex) else ex_env ex
      | None \<Rightarrow> ex_env ex)"

text \<open>
  The calls between fork and exec, in the order they run: the library enters the directory when there is no
  user, then come the calls \<open>spawn_child\<close> registers with \<open>pre_exec\<close>. \<open>joined\<close> says the sandbox has a cgroup.
  \<open>run_as\<close> refuses a directory with a NUL byte before the fork, and so does the library for every text
  it hands to the kernel.
\<close>

definition run_as :: "('k, 'z) child_calls_scheme \<Rightarrow> identity option \<Rightarrow> string option \<Rightarrow> os_error + 'k call list" where
  "run_as cc i workdir =
     (case i of
        None \<Rightarrow> Inr []
      | Some ident \<Rightarrow>
          if (case workdir of Some dir \<Rightarrow> CHR 0x00 \<in> set dir | None \<Rightarrow> False)
          then Inl (LibError (''nul byte found in provided data at position: '' @
                 dec (length (takeWhile (\<lambda>c. c \<noteq> CHR 0x00) (the workdir)))))
          else Inr [enter_as cc ident workdir])"

definition has_nul :: "string \<Rightarrow> bool" where "has_nul s \<longleftrightarrow> CHR 0x00 \<in> set s"

definition spawn_calls :: "('k, 'z) child_calls_scheme \<Rightarrow> bool \<Rightarrow> guest_ulimit list \<Rightarrow> nat list \<Rightarrow> identity option \<Rightarrow>
    exec_request \<Rightarrow> os_error + 'k call list" where
  "spawn_calls cc joined limits root_groups i ex =
     and_then (run_as cc i (workdir_of ex)) (\<lambda>drop.
       if list_ex has_nul (ex_command ex) \<or> list_ex (\<lambda>(k, v). has_nul k \<or> has_nul v) (child_env ex i) \<or> has_nul (ex_working_dir ex)
       then Inl (LibError ''nul byte found in provided data'')
       else Inr ((case (i, workdir_of ex) of (None, Some dir) \<Rightarrow> [cc_change_dir cc dir] | _ \<Rightarrow> []) @
            (if joined then [cc_join_cgroup cc] else []) @
            map (\<lambda>l. cc_setrlimit cc (gu_name l) (gu_soft l) (gu_hard l)) (kernel_limits limits) @
            (if root_groups = [] then [] else [cc_set_groups cc root_groups]) @
            (if ex_tty ex then [cc_attach_tty cc] else []) @ drop))"

text \<open>
  The start of a process up to the program: refuse an empty command, resolve the identity, add the groups,
  make the calls. The result is the kernel's state the program is executed in, or why it is not.
\<close>

datatype start_failure =
    EmptyCommand | NoIdentity user_error | NoGroups user_error | NoSpawn "drop_step option" os_error

definition start_child :: "('k, 'z) child_calls_scheme \<Rightarrow> bool \<Rightarrow> guest_ulimit list \<Rightarrow> string list \<Rightarrow> bytes option \<Rightarrow>
    bytes option \<Rightarrow> exec_request \<Rightarrow> 'k \<Rightarrow> start_failure + 'k" where
  "start_child cc joined limits group_add passwd groups ex k =
     (if ex_command ex = [] then Inl EmptyCommand
      else case load_identity (ex_user ex) passwd groups of
        Inl err \<Rightarrow> Inl (NoIdentity err)
      | Inr ident \<Rightarrow>
          (case with_group_add group_add groups ident of
             Inl err \<Rightarrow> Inl (NoGroups err)
           | Inr (ident, root_groups) \<Rightarrow>
               (case (if ex_tty ex then cc_open_pty cc else no_call) k of
                  (Some err, _) \<Rightarrow> Inl (case untag err of (st, e) \<Rightarrow> NoSpawn st e)
                | (None, k1) \<Rightarrow>
                    (case spawn_calls cc joined limits root_groups ident ex of
                       Inl err \<Rightarrow> Inl (case untag err of (st, e) \<Rightarrow> NoSpawn st e)
                     | Inr calls \<Rightarrow>
                         (case all_calls (cc_fork cc # calls) k1 of
                            (Some err, _) \<Rightarrow> Inl (case untag err of (st, e) \<Rightarrow> NoSpawn st e)
                          | (None, k') \<Rightarrow> Inr k')))))"

section \<open>The step in the error code\<close>

lemma small_bits:
  fixes w :: u32
  assumes "unat w < 2 ^ n" "bit w k"
  shows "k < n"
proof -
  have "bit (unat w) k" using assms(2) by (simp add: bit_unsigned_iff bit_imp_possible_bit)
  moreover have "take_bit n (unat w) = unat w" using assms(1) by (simp add: take_bit_nat_eq_self)
  ultimately show ?thesis by (metis bit_take_bit_iff)
qed

lemma step_number_small: "unat (step_number st) < 2 ^ 3"
  by (cases st) (simp_all add: step_number_def)

lemma errno_bits: "unat e < 65536 \<Longrightarrow> 16 \<le> k \<Longrightarrow> \<not> bit (e :: u32) k"
  using small_bits [of e 16 k] by auto

lemma step_bits: "3 \<le> k \<Longrightarrow> \<not> bit (step_number st) k"
  using small_bits [OF step_number_small, of st k] by auto

lemma tagged_shift:
  assumes "unat e < 65536"
  shows "signed_drop_bit STEP_SHIFT (push_bit STEP_SHIFT (step_number st) OR e) = step_number st"
  by (rule bit_word_eqI) (auto simp: bit_simps STEP_SHIFT_def errno_bits [OF assms] step_bits)

lemma tagged_mask:
  assumes "unat e < 65536"
  shows "(push_bit STEP_SHIFT (step_number st) OR e) AND ERRNO_MASK = e"
proof (rule bit_word_eqI)
  have mask: "ERRNO_MASK = mask 16" by (simp add: ERRNO_MASK_def STEP_SHIFT_def mask_eq_exp_minus_1 push_bit_eq_mult)
  fix n assume "n < LENGTH(32)"
  then show "bit ((push_bit STEP_SHIFT (step_number st) OR e) AND ERRNO_MASK) n = bit e n"
    unfolding mask using errno_bits [OF assms, of n] by (cases "n < 16") (auto simp: bit_simps STEP_SHIFT_def)
qed

lemma untag_tag: "unat e < 65536 \<Longrightarrow> untag (tag st (OsCode e)) = (Some st, OsCode e)"
  by (cases st) (simp_all add: untag_def tag_def tagged_shift tagged_mask ALL_STEPS_def,
    simp_all add: step_number_def)

lemma untag_small:
  assumes "unat n < 65536"
  shows "untag (OsCode n) = (None, OsCode n)"
proof -
  have "signed_drop_bit STEP_SHIFT n = (0 :: u32)"
    by (rule bit_word_eqI) (auto simp: bit_simps STEP_SHIFT_def errno_bits [OF assms])
  then show ?thesis by (simp add: untag_def ALL_STEPS_def step_number_def)
qed

section \<open>Well-formed identities\<close>

definition wf_identity :: "identity \<Rightarrow> bool" where
  "wf_identity i \<longleftrightarrow>
     id_uid i \<le> U32_MAX \<and> list_all (\<lambda>n. n \<le> U32_MAX) (id_groups i) \<and> id_groups i \<noteq> [] \<and>
     hd (id_groups i) = id_gid i \<and> distinct (id_groups i) \<and> id_home i \<noteq> []"

lemma wf_identity_gid: "wf_identity i \<Longrightarrow> id_gid i \<le> U32_MAX"
  unfolding wf_identity_def by (cases "id_groups i") auto

lemma passwd_entries_bounds:
  assumes "e \<in> set (passwd_entries passwd)"
  shows "pw_uid e \<le> U32_MAX \<and> pw_gid e \<le> U32_MAX"
  using assms by (auto simp: passwd_entries_def List.map_filter_def passwd_line_def Let_def
      split: if_splits option.splits dest: parse_unsigned_le)

lemma group_entries_bounds:
  assumes "g \<in> set (group_entries groups)"
  shows "gr_gid g \<le> U32_MAX"
  using assms by (auto simp: group_entries_def List.map_filter_def group_line_def Let_def
      split: if_splits option.splits dest: parse_unsigned_le)

lemma find_found: "find P xs = Some x \<Longrightarrow> x \<in> set xs \<and> P x"
  by (induction xs) (auto split: if_splits)

lemma group_named_bounds: "group_named groups name = Inr gid \<Longrightarrow> gid \<le> U32_MAX"
  by (auto simp: group_named_def split: option.splits dest!: find_found group_entries_bounds)

lemma reference_bounds: "reference_parse s = RefId n \<Longrightarrow> n \<le> U32_MAX"
  by (auto simp: reference_parse_def split: option.splits dest: parse_unsigned_le)

lemma push_group_keeps:
  "distinct gids \<Longrightarrow> distinct (push_group n gids)" "set (push_group n gids) = insert n (set gids)"
  "gids \<noteq> [] \<Longrightarrow> push_group n gids \<noteq> [] \<and> hd (push_group n gids) = hd gids"
  by (auto simp: push_group_def)

lemma push_groups_keep:
  assumes "gids \<noteq> []" "distinct gids"
  shows "fold push_group ns gids \<noteq> [] \<and> hd (fold push_group ns gids) = hd gids \<and> distinct (fold push_group ns gids) \<and>
    set (fold push_group ns gids) = set gids \<union> set ns"
  using assms by (induction ns arbitrary: gids) (simp_all add: push_group_keeps insert_commute)

text \<open>The groups of a user are those of the group file that list the user's name.\<close>

lemma member_groups:
  "fold (\<lambda>g gids. if lists_member name g then push_group (gr_gid g) gids else gids) gs gids =
   fold push_group (map gr_gid (filter (lists_member name) gs)) gids"
  by (induction gs arbitrary: gids) simp_all

lemma resolve_group_add_bounds: "resolve_group_add specs groups = Inr gids \<Longrightarrow> list_all (\<lambda>n. n \<le> U32_MAX) gids"
proof (induction specs arbitrary: gids)
  case (Cons spec specs)
  then show ?case
    by (auto simp: resolve_group_add_def and_then_def split: sum.splits option.splits dest: parse_unsigned_le group_named_bounds)
qed (simp add: resolve_group_add_def)

lemma add_groups_wf:
  assumes "wf_identity i" "list_all (\<lambda>n. n \<le> U32_MAX) gids"
  shows "wf_identity (add_groups gids i)"
  using assms push_groups_keep [of "id_groups i" gids] by (auto simp: wf_identity_def add_groups_def list_all_iff)

text \<open>The two parts of a spec, and whether an entry of the user file is the one the user part names.\<close>

definition user_part :: "string \<Rightarrow> string" where
  "user_part spec = takeWhile (\<lambda>c. c \<noteq> CHR '':'') spec"

definition group_part :: "string \<Rightarrow> string" where
  "group_part spec = drop (Suc (length (user_part spec))) spec"

definition names_user :: "string \<Rightarrow> passwd_entry \<Rightarrow> bool" where
  "names_user user e = (case parse_unsigned U32_MAX user of Some uid \<Rightarrow> pw_uid e = uid | None \<Rightarrow> pw_name e = user)"

lemma split_spec_parts:
  assumes "split_spec spec = Inr (u, g)"
  shows "u = reference_parse (user_part spec)"
    "g = (if CHR '':'' \<in> set spec then Some (reference_parse (group_part spec)) else None)"
proof -
  have "u = reference_parse (user_part spec) \<and>
      g = (if CHR '':'' \<in> set spec then Some (reference_parse (group_part spec)) else None)"
  proof (cases "split_once (CHR '':'') spec")
    case None
    then have no: "CHR '':'' \<notin> set spec" by (simp add: split_once_None)
    then have "user_part spec = spec" by (auto simp: user_part_def takeWhile_eq_all_conv)
    with None no assms show ?thesis by (auto simp: split_spec_def Let_def split: if_splits)
  next
    case (Some p)
    obtain a b where p: "p = (a, b)" by (cases p)
    with Some have spec: "spec = a @ CHR '':'' # b" "CHR '':'' \<notin> set a" by (auto simp: split_once_Some)
    then have "user_part spec = a" by (auto simp: user_part_def takeWhile_append)
    moreover from this have "group_part spec = b" using spec by (simp add: group_part_def)
    ultimately show ?thesis using assms Some p spec by (auto simp: split_spec_def Let_def split: if_splits)
  qed
  then show "u = reference_parse (user_part spec)"
    "g = (if CHR '':'' \<in> set spec then Some (reference_parse (group_part spec)) else None)" by simp_all
qed

text \<open>What \<open>resolve_identity\<close> did when it succeeds, from the texts alone.\<close>

definition user_entry :: "string \<Rightarrow> string \<Rightarrow> passwd_entry option" where
  "user_entry spec passwd = find (names_user (user_part spec)) (passwd_entries passwd)"

definition identity_of :: "string \<Rightarrow> string \<Rightarrow> string \<Rightarrow> identity \<Rightarrow> bool" where
  "identity_of spec passwd groups i \<longleftrightarrow>
     (case parse_unsigned U32_MAX (user_part spec) of
        Some uid \<Rightarrow> id_uid i = uid
      | None \<Rightarrow> \<exists>e. user_entry spec passwd = Some e \<and> id_uid i = pw_uid e) \<and>
     id_home i = (case user_entry spec passwd of Some e \<Rightarrow> if pw_home e = [] then ''/'' else pw_home e | None \<Rightarrow> ''/'') \<and>
     (if CHR '':'' \<in> set spec
      then id_groups i = [id_gid i] \<and>
        (case parse_unsigned U32_MAX (group_part spec) of
           Some gid \<Rightarrow> id_gid i = gid
         | None \<Rightarrow> \<exists>g. find (\<lambda>g. gr_name g = group_part spec) (group_entries groups) = Some g \<and> id_gid i = gr_gid g)
      else
        (case user_entry spec passwd of
           Some e \<Rightarrow> id_gid i = pw_gid e \<and> set (id_groups i) =
             insert (pw_gid e) (gr_gid ` {g \<in> set (group_entries groups). lists_member (pw_name e) g})
         | None \<Rightarrow> id_gid i = 0 \<and> id_groups i = [0]))"

lemma names_user_ref:
  "(\<lambda>e. case reference_parse user of RefId uid \<Rightarrow> pw_uid e = uid | RefName name \<Rightarrow> pw_name e = name) = names_user user"
  by (auto simp: fun_eq_iff names_user_def reference_parse_def split: option.split)

lemma group_named_Inr:
  "group_named groups name = Inr gid \<longleftrightarrow>
     (\<exists>g. find (\<lambda>g. gr_name g = name) (group_entries groups) = Some g \<and> gid = gr_gid g)"
  by (auto simp: group_named_def split: option.splits)

lemma resolve_identity_parts:
  assumes "resolve_identity spec passwd groups = Inr i"
  obtains uid dflt where
    "(case user_entry spec passwd of Some e \<Rightarrow> uid = pw_uid e \<and> dflt = pw_gid e
      | None \<Rightarrow> parse_unsigned U32_MAX (user_part spec) = Some uid \<and> dflt = 0)"
    "id_uid i = uid"
    "(if CHR '':'' \<in> set spec
      then (case parse_unsigned U32_MAX (group_part spec) of
              Some gid \<Rightarrow> id_gid i = gid | None \<Rightarrow> group_named groups (group_part spec) = Inr (id_gid i))
      else id_gid i = dflt)"
    "id_groups i = (case user_entry spec passwd of
        Some e \<Rightarrow> if CHR '':'' \<in> set spec then [id_gid i]
          else fold push_group (map gr_gid (filter (lists_member (pw_name e)) (group_entries groups))) [id_gid i]
      | None \<Rightarrow> [id_gid i])"
    "id_home i = (case user_entry spec passwd of Some e \<Rightarrow> if pw_home e = [] then ''/'' else pw_home e | None \<Rightarrow> ''/'')"
proof -
  obtain u g where sp: "split_spec spec = Inr (u, g)" using assms by (auto simp: resolve_identity_def and_then_def split: sum.splits)
  note parts = split_spec_parts [OF sp]
  have entry: "find (\<lambda>e. case u of RefId uid \<Rightarrow> pw_uid e = uid | RefName name \<Rightarrow> pw_name e = name) (passwd_entries passwd) =
      user_entry spec passwd"
    by (simp add: parts(1) names_user_ref user_entry_def)
  show thesis
  proof (cases "user_entry spec passwd")
    case (Some e)
    with assms sp entry parts(2) show thesis
      by (intro that [of "pw_uid e" "pw_gid e"])
        (auto simp: resolve_identity_def and_then_def Let_def member_groups reference_parse_def split: sum.splits option.splits if_splits)
  next
    case None
    then obtain uid where u: "u = RefId uid" using assms sp entry by (cases u) (auto simp: resolve_identity_def and_then_def Let_def)
    then have "parse_unsigned U32_MAX (user_part spec) = Some uid"
      using parts(1) by (auto simp: reference_parse_def split: option.splits)
    with u None assms sp entry parts(2) show thesis
      by (intro that [of uid 0])
        (auto simp: resolve_identity_def and_then_def Let_def reference_parse_def split: sum.splits option.splits if_splits)
  qed
qed

lemma user_entry_found:
  assumes "user_entry spec passwd = Some e"
  shows "e \<in> set (passwd_entries passwd)" "parse_unsigned U32_MAX (user_part spec) = Some uid \<Longrightarrow> pw_uid e = uid"
  using assms find_found [of "names_user (user_part spec)" "passwd_entries passwd" e]
  by (simp_all add: user_entry_def names_user_def)

lemma resolve_identity_of:
  assumes "resolve_identity spec passwd groups = Inr i"
  shows "identity_of spec passwd groups i \<and> wf_identity i"
  using assms
proof (rule resolve_identity_parts)
  fix uid dflt
  assume u: "case user_entry spec passwd of Some e \<Rightarrow> uid = pw_uid e \<and> dflt = pw_gid e
      | None \<Rightarrow> parse_unsigned U32_MAX (user_part spec) = Some uid \<and> dflt = 0" "id_uid i = uid"
    and g: "if CHR '':'' \<in> set spec
      then (case parse_unsigned U32_MAX (group_part spec) of
              Some gid \<Rightarrow> id_gid i = gid | None \<Rightarrow> group_named groups (group_part spec) = Inr (id_gid i))
      else id_gid i = dflt"
    and gs: "id_groups i = (case user_entry spec passwd of
        Some e \<Rightarrow> if CHR '':'' \<in> set spec then [id_gid i]
          else fold push_group (map gr_gid (filter (lists_member (pw_name e)) (group_entries groups))) [id_gid i]
      | None \<Rightarrow> [id_gid i])"
    and h: "id_home i = (case user_entry spec passwd of Some e \<Rightarrow> if pw_home e = [] then ''/'' else pw_home e | None \<Rightarrow> ''/'')"
  have fold: "fold push_group ns [n] \<noteq> [] \<and> hd (fold push_group ns [n]) = n \<and> distinct (fold push_group ns [n]) \<and>
      set (fold push_group ns [n]) = insert n (set ns)" for ns n
    using push_groups_keep [of "[n]" ns] by simp
  have uid: "uid \<le> U32_MAX" "dflt \<le> U32_MAX"
    using u(1) by (auto split: option.splits dest: parse_unsigned_le user_entry_found(1) passwd_entries_bounds)
  then have gid: "id_gid i \<le> U32_MAX"
    using g by (auto split: option.splits if_splits dest: parse_unsigned_le group_named_bounds)
  have "identity_of spec passwd groups i"
    unfolding identity_of_def using u g gs h fold user_entry_found(2)
    by (auto simp: group_named_Inr image_def split: option.splits if_splits)
  moreover have "wf_identity i"
    unfolding wf_identity_def using u(2) uid gid gs h fold group_entries_bounds
    by (auto simp: list_all_iff split: option.splits if_splits)
  ultimately show ?thesis by simp
qed

section \<open>What the calls do\<close>

record credentials =
  cr_uid :: nat
  cr_gid :: nat
  cr_groups :: "nat list"

text \<open>
  What is relied on of the kernel: a call that succeeds sets what it names and no other credential, and the
  calls that are not about credentials leave them alone.
\<close>

definition leaves :: "('k \<Rightarrow> credentials) \<Rightarrow> 'k call \<Rightarrow> (credentials \<Rightarrow> credentials) \<Rightarrow> bool" where
  "leaves cred c f \<longleftrightarrow> (\<forall>k k'. c k = (None, k') \<longrightarrow> cred k' = f (cred k))"

definition lawful :: "('k, 'z) child_calls_scheme \<Rightarrow> ('k \<Rightarrow> credentials) \<Rightarrow> bool" where
  "lawful cc cred \<longleftrightarrow>
     leaves cred (cc_open_pty cc) id \<and> leaves cred (cc_fork cc) id \<and>
     leaves cred (cc_join_cgroup cc) id \<and> (\<forall>r s h. leaves cred (cc_setrlimit cc r s h) id) \<and>
     leaves cred (cc_attach_tty cc) id \<and> (\<forall>dir. leaves cred (cc_change_dir cc dir) id) \<and>
     (\<forall>gs. leaves cred (cc_set_groups cc gs) (cr_groups_update (\<lambda>_. gs))) \<and>
     (\<forall>n. leaves cred (cc_set_gid cc n) (cr_gid_update (\<lambda>_. n))) \<and>
     (\<forall>n. leaves cred (cc_set_uid cc n) (cr_uid_update (\<lambda>_. n)))"

text \<open>
  And of its errors: they are numbers below 65536, and \<open>setgroups\<close>, \<open>setgid\<close> and \<open>setuid\<close> answer \<open>EPERM\<close> only to a
  process that is not root.
\<close>

definition EPERM :: u32 where "EPERM = 1"

definition numbered :: "'k call \<Rightarrow> bool" where
  "numbered c \<longleftrightarrow> (\<forall>k e. fst (c k) = Some e \<longrightarrow> (\<exists>n. e = OsCode n \<and> unat n < 65536))"

definition root_permitted :: "('k \<Rightarrow> credentials) \<Rightarrow> 'k call \<Rightarrow> bool" where
  "root_permitted cred c \<longleftrightarrow> numbered c \<and> (\<forall>k. fst (c k) = Some (OsCode EPERM) \<longrightarrow> cr_uid (cred k) \<noteq> 0)"

definition errno_law :: "('k, 'z) child_calls_scheme \<Rightarrow> ('k \<Rightarrow> credentials) \<Rightarrow> bool" where
  "errno_law cc cred \<longleftrightarrow>
     numbered (cc_open_pty cc) \<and> numbered (cc_fork cc) \<and> numbered (cc_join_cgroup cc) \<and>
     (\<forall>r s h. numbered (cc_setrlimit cc r s h)) \<and> numbered (cc_attach_tty cc) \<and> (\<forall>dir. numbered (cc_change_dir cc dir)) \<and>
     (\<forall>gs. root_permitted cred (cc_set_groups cc gs)) \<and> (\<forall>n. root_permitted cred (cc_set_gid cc n)) \<and>
     (\<forall>n. root_permitted cred (cc_set_uid cc n))"

lemma leaves_then: "leaves cred a f \<Longrightarrow> leaves cred b g \<Longrightarrow> leaves cred (then_call a b) (g \<circ> f)"
  by (auto simp: leaves_def then_call_def split: prod.splits option.splits)

lemma leaves_tagged [simp]: "leaves cred (tagged st c) f \<longleftrightarrow> leaves cred c f"
  by (auto simp: leaves_def tagged_def split: prod.splits)

lemma leaves_no_call [simp]: "leaves cred no_call id"
  by (simp add: leaves_def no_call_def)

lemma then_no_call [simp]: "then_call c no_call = c"
  by (auto simp: fun_eq_iff then_call_def no_call_def split: prod.splits option.splits)

lemma leaves_all: "list_all (\<lambda>c. leaves cred c id) cs \<Longrightarrow> leaves cred (all_calls cs) id"
  by (induction cs) (use leaves_then [of cred _ id _ id] in auto)

lemma all_calls_append: "all_calls (as @ bs) = then_call (all_calls as) (all_calls bs)"
  by (induction as) (auto simp: fun_eq_iff then_call_def no_call_def split: prod.splits option.splits)

lemma leaves_enter_as:
  assumes "lawful cc cred"
  shows "leaves cred (enter_as cc i workdir) (\<lambda>_. \<lparr>cr_uid = id_uid i, cr_gid = id_gid i, cr_groups = id_groups i\<rparr>)"
proof -
  have "leaves cred (drop_privileges cc i) (cr_uid_update (\<lambda>_. id_uid i) \<circ> cr_gid_update (\<lambda>_. id_gid i) \<circ> cr_groups_update (\<lambda>_. id_groups i))"
    unfolding drop_privileges_def using assms by (intro leaves_then) (auto simp: lawful_def)
  moreover have "leaves cred (case workdir of None \<Rightarrow> no_call | Some dir \<Rightarrow> tagged ChangeDir (cc_change_dir cc dir)) id"
    using assms by (cases workdir) (auto simp: lawful_def)
  ultimately have "leaves cred (enter_as cc i workdir)
      (id \<circ> (cr_uid_update (\<lambda>_. id_uid i) \<circ> cr_gid_update (\<lambda>_. id_gid i) \<circ> cr_groups_update (\<lambda>_. id_groups i)))"
    unfolding enter_as_def by (rule leaves_then)
  moreover have "id \<circ> (cr_uid_update (\<lambda>_. id_uid i) \<circ> cr_gid_update (\<lambda>_. id_gid i) \<circ> cr_groups_update (\<lambda>_. id_groups i)) =
      (\<lambda>_. \<lparr>cr_uid = id_uid i, cr_gid = id_gid i, cr_groups = id_groups i\<rparr>)" by auto
  ultimately show ?thesis by simp
qed

text \<open>The credentials a program starts with.\<close>

definition asked_credentials :: "identity option \<Rightarrow> nat list \<Rightarrow> credentials \<Rightarrow> credentials" where
  "asked_credentials i root_groups c =
     (case i of
        Some ident \<Rightarrow> \<lparr>cr_uid = id_uid ident, cr_gid = id_gid ident, cr_groups = id_groups ident\<rparr>
      | None \<Rightarrow> if root_groups = [] then c else c\<lparr>cr_groups := root_groups\<rparr>)"

lemma leaves_spawn_calls:
  assumes "lawful cc cred" "spawn_calls cc joined limits root_groups i ex = Inr calls"
  shows "leaves cred (all_calls calls) (asked_credentials i root_groups)"
proof -
  let ?dir = "case (i, workdir_of ex) of (None, Some dir) \<Rightarrow> [cc_change_dir cc dir] | _ \<Rightarrow> []"
  let ?before = "?dir @ (if joined then [cc_join_cgroup cc] else []) @
    map (\<lambda>l. cc_setrlimit cc (gu_name l) (gu_soft l) (gu_hard l)) (kernel_limits limits)"
  let ?groups = "if root_groups = [] then [] else [cc_set_groups cc root_groups]"
  let ?tty = "if ex_tty ex then [cc_attach_tty cc] else []"
  let ?drop = "case i of None \<Rightarrow> [] | Some ident \<Rightarrow> [enter_as cc ident (workdir_of ex)]"
  have calls: "calls = ?before @ ?groups @ ?tty @ ?drop"
    using assms(2) by (auto simp: spawn_calls_def run_as_def and_then_def split: option.splits if_splits)
  have "leaves cred (all_calls ?before) id"
    using assms(1) by (intro leaves_all) (auto simp: lawful_def list_all_iff split: option.splits)
  moreover have "leaves cred (all_calls ?groups) (if root_groups = [] then id else cr_groups_update (\<lambda>_. root_groups))"
    using assms(1) by (auto simp: lawful_def)
  moreover have "leaves cred (all_calls ?tty) id"
    using assms(1) by (intro leaves_all) (simp add: lawful_def)
  moreover have "leaves cred (all_calls ?drop) (case i of None \<Rightarrow> id | Some ident \<Rightarrow>
      (\<lambda>_. \<lparr>cr_uid = id_uid ident, cr_gid = id_gid ident, cr_groups = id_groups ident\<rparr>))"
    using leaves_enter_as [OF assms(1)] by (cases i) simp_all
  ultimately have "leaves cred (all_calls calls) ((case i of None \<Rightarrow> id | Some ident \<Rightarrow>
      (\<lambda>_. \<lparr>cr_uid = id_uid ident, cr_gid = id_gid ident, cr_groups = id_groups ident\<rparr>)) \<circ> id \<circ>
      (if root_groups = [] then id else cr_groups_update (\<lambda>_. root_groups)) \<circ> id)"
    unfolding calls all_calls_append by (intro leaves_then)
  then show ?thesis by (cases i) (auto simp: leaves_def asked_credentials_def)
qed

text \<open>
  A call of the privilege drop was denied: its error says so. A root process stays root until it drops its
  identity, and until then none of its calls is denied.
\<close>

definition denied :: "os_error option \<Rightarrow> bool" where
  "denied r \<longleftrightarrow> (\<exists>err st. r = Some err \<and> untag err = (Some st, OsCode EPERM) \<and> st \<noteq> ChangeDir)"

definition spared :: "('k \<Rightarrow> credentials) \<Rightarrow> 'k call \<Rightarrow> bool" where
  "spared cred c \<longleftrightarrow> (\<forall>k. cr_uid (cred k) = 0 \<longrightarrow> \<not> denied (fst (c k)))"

definition as_root :: "('k \<Rightarrow> credentials) \<Rightarrow> 'k call \<Rightarrow> bool" where
  "as_root cred c \<longleftrightarrow> spared cred c \<and> (\<forall>k. cr_uid (cred k) = 0 \<and> fst (c k) = None \<longrightarrow> cr_uid (cred (snd (c k))) = 0)"

lemma denied_None [simp]: "\<not> denied None"
  by (simp add: denied_def)

lemma tagged_parts [simp]: "fst (tagged st c k) = map_option (tag st) (fst (c k))" "snd (tagged st c k) = snd (c k)"
  by (simp_all add: tagged_def split_beta)

lemma sparedD:
  assumes "spared cred c" "cr_uid (cred k) = 0" "c k = (Some err, k')" "untag err = (Some st, OsCode EPERM)"
  shows "st = ChangeDir"
proof -
  have "\<not> denied (fst (c k))" using assms(1,2) by (simp add: spared_def)
  with assms(3,4) show ?thesis by (auto simp: denied_def)
qed

lemma as_rootD: "as_root cred c \<Longrightarrow> cr_uid (cred k) = 0 \<Longrightarrow> c k = (None, k') \<Longrightarrow> cr_uid (cred k') = 0"
  unfolding as_root_def by (metis fst_conv snd_conv)

lemma spared_numbered: "numbered c \<Longrightarrow> spared cred c"
  by (fastforce simp: numbered_def spared_def denied_def untag_small)

lemma spared_tagged:
  assumes "numbered c" "st = ChangeDir \<or> root_permitted cred c"
  shows "spared cred (tagged st c)"
  using assms by (fastforce simp: numbered_def root_permitted_def spared_def denied_def untag_tag)

lemma as_root_intro:
  assumes "spared cred c" "leaves cred c f" "\<And>x. cr_uid (f x) = cr_uid x"
  shows "as_root cred c"
  unfolding as_root_def
proof (intro conjI allI impI)
  fix k assume k: "cr_uid (cred k) = 0 \<and> fst (c k) = None"
  then have "c k = (None, snd (c k))" by (simp add: prod_eq_iff)
  then have "cred (snd (c k)) = f (cred k)" using assms(2) unfolding leaves_def by blast
  with k assms(3) show "cr_uid (cred (snd (c k))) = 0" by simp
qed (rule assms(1))

lemma then_call_cases:
  "then_call a b k = (case fst (a k) of None \<Rightarrow> b (snd (a k)) | Some err \<Rightarrow> (Some err, snd (a k)))"
  by (cases "a k") (simp add: then_call_def split: option.split)

lemma spared_then_any:
  assumes "spared cred a" "\<And>k. \<not> denied (fst (b k))"
  shows "spared cred (then_call a b)"
  unfolding spared_def
proof (intro allI impI)
  fix k assume "cr_uid (cred k) = 0"
  then have "\<not> denied (fst (a k))" using assms(1) by (simp add: spared_def)
  with assms(2) show "\<not> denied (fst (then_call a b k))" by (cases "fst (a k)") (simp_all add: then_call_cases)
qed

lemma as_root_before: "as_root cred a \<Longrightarrow> spared cred b \<Longrightarrow> spared cred (then_call a b)"
  unfolding as_root_def spared_def then_call_cases by (auto split: option.split) (metis option.exhaust)+

lemma as_root_then: "as_root cred a \<Longrightarrow> as_root cred b \<Longrightarrow> as_root cred (then_call a b)"
  using as_root_before [of cred a b] unfolding as_root_def then_call_cases by (auto split: option.splits)

lemma as_root_no_call [simp]: "as_root cred no_call"
  by (simp add: as_root_def spared_def no_call_def)

lemma as_root_all: "list_all (as_root cred) cs \<Longrightarrow> as_root cred (all_calls cs)"
  by (induction cs) (auto intro: as_root_then)

lemma root_calls:
  assumes "lawful cc cred" "errno_law cc cred"
  shows "as_root cred (cc_open_pty cc)" "as_root cred (cc_fork cc)" "as_root cred (cc_join_cgroup cc)"
    "as_root cred (cc_setrlimit cc r sl h)" "as_root cred (cc_attach_tty cc)" "as_root cred (cc_change_dir cc dir)"
    "as_root cred (cc_set_groups cc gs)" "as_root cred (tagged SetGroups (cc_set_groups cc gs))"
    "as_root cred (tagged SetGid (cc_set_gid cc n))"
proof -
  note laws = assms(1) [unfolded lawful_def] assms(2) [unfolded errno_law_def]
  have any: "as_root cred c" if "numbered c" "leaves cred c id" for c
    using as_root_intro [OF spared_numbered [OF that(1)] that(2)] by simp
  show "as_root cred (cc_open_pty cc)" "as_root cred (cc_fork cc)" "as_root cred (cc_join_cgroup cc)"
    "as_root cred (cc_setrlimit cc r sl h)" "as_root cred (cc_attach_tty cc)" "as_root cred (cc_change_dir cc dir)"
    using laws by (blast intro: any)+
  have gs: "root_permitted cred (cc_set_groups cc gs)" "numbered (cc_set_groups cc gs)"
    and gid: "root_permitted cred (cc_set_gid cc n)" "numbered (cc_set_gid cc n)"
    using laws by (auto simp: root_permitted_def)
  show "as_root cred (cc_set_groups cc gs)" "as_root cred (tagged SetGroups (cc_set_groups cc gs))"
    by (rule as_root_intro [where f = "cr_groups_update (\<lambda>_. gs)"];
        use laws gs in \<open>simp add: spared_numbered spared_tagged\<close>)+
  show "as_root cred (tagged SetGid (cc_set_gid cc n))"
    by (rule as_root_intro [where f = "cr_gid_update (\<lambda>_. n)"]) (use laws gid in \<open>simp_all add: spared_tagged\<close>)
qed

lemma spared_enter_as:
  assumes "lawful cc cred" "errno_law cc cred"
  shows "spared cred (enter_as cc i workdir)"
proof -
  let ?dir = "case workdir of None \<Rightarrow> no_call | Some dir \<Rightarrow> tagged ChangeDir (cc_change_dir cc dir)"
  have dir: "\<not> denied (fst (?dir k))" for k
  proof (cases workdir)
    case (Some dir)
    have "numbered (cc_change_dir cc dir)" using assms(2) by (simp add: errno_law_def)
    with Some show ?thesis by (fastforce simp: numbered_def denied_def untag_tag)
  qed (simp add: no_call_def)
  have "spared cred (tagged SetUid (cc_set_uid cc (id_uid i)))"
    using assms(2) by (intro spared_tagged) (auto simp: errno_law_def root_permitted_def)
  then have "spared cred (drop_privileges cc i)"
    unfolding drop_privileges_def using root_calls [OF assms] by (intro as_root_before)
  then show ?thesis unfolding enter_as_def using dir by (rule spared_then_any)
qed

lemma spared_spawn:
  assumes "lawful cc cred" "errno_law cc cred" "spawn_calls cc joined limits root_groups i ex = Inr calls"
  shows "spared cred (all_calls (cc_fork cc # calls))"
proof -
  obtain before where calls: "calls = before @ (case i of None \<Rightarrow> [] | Some ident \<Rightarrow> [enter_as cc ident (workdir_of ex)])"
    and "list_all (as_root cred) before"
    using assms(3) root_calls [OF assms(1,2)]
    by (auto simp: spawn_calls_def run_as_def and_then_def list_all_iff split: option.splits if_splits)
  then have "as_root cred (all_calls (cc_fork cc # before))"
    using root_calls(2) [OF assms(1,2)] by (intro as_root_all) simp
  moreover have "spared cred (all_calls (case i of None \<Rightarrow> [] | Some ident \<Rightarrow> [enter_as cc ident (workdir_of ex)]))"
    using spared_enter_as [OF assms(1,2)] by (cases i) (simp_all add: spared_def no_call_def)
  ultimately have "spared cred (all_calls ((cc_fork cc # before) @
      (case i of None \<Rightarrow> [] | Some ident \<Rightarrow> [enter_as cc ident (workdir_of ex)])))"
    unfolding all_calls_append by (rule as_root_before)
  then show ?thesis by (simp add: calls)
qed

section \<open>Properties\<close>

text \<open>
  C19: The program of an exec request runs with exactly the rights that were asked for. For every kernel
  whose calls do what they document, if the program is executed then its user, group and supplementary groups
  are those of the resolved identity, with the groups of \<open>--group-add\<close>, and none of the agent's own groups is
  left; without a user the credentials are the agent's, with the added groups instead of its own. And an
  agent that is root never fails to drop to the identity for want of privilege, when the kernel denies the
  calls to processes that are not root only: their order never gives up a right that a later one needs.
\<close>

theorem child_runs_as_asked:
  assumes "lawful cc cred" "load_identity (ex_user ex) passwd groups = Inr i0"
    "with_group_add group_add groups i0 = Inr (i, root_groups)"
  shows "(start_child cc joined limits group_add passwd groups ex k = Inr k' \<longrightarrow>
      cred k' = asked_credentials i root_groups (cred k)) \<and>
    (errno_law cc cred \<and> cr_uid (cred k) = 0 \<and> st \<in> {SetGroups, SetGid, SetUid} \<longrightarrow>
      start_child cc joined limits group_add passwd groups ex k \<noteq> Inl (NoSpawn (Some st) (OsCode EPERM)))"
proof (intro conjI impI notI)
  assume "start_child cc joined limits group_add passwd groups ex k = Inr k'"
  then obtain k1 calls where c: "(if ex_tty ex then cc_open_pty cc else no_call) k = (None, k1)"
      "spawn_calls cc joined limits root_groups i ex = Inr calls" "all_calls (cc_fork cc # calls) k1 = (None, k')"
    using assms(2,3) by (auto simp: start_child_def split: sum.splits prod.splits option.splits if_splits)
  have laws: "leaves cred (cc_open_pty cc) id" "leaves cred (cc_fork cc) id" using assms(1) by (simp_all add: lawful_def)
  have "cred k1 = cred k" using c(1) laws(1) by (auto simp: leaves_def no_call_def split: if_splits)
  moreover have "leaves cred (all_calls (cc_fork cc # calls)) (asked_credentials i root_groups \<circ> id)"
    using leaves_then [OF laws(2) leaves_spawn_calls [OF assms(1) c(2)]] by simp
  ultimately show "cred k' = asked_credentials i root_groups (cred k)"
    using c(3) unfolding leaves_def by fastforce
next
  assume a: "errno_law cc cred \<and> cr_uid (cred k) = 0 \<and> st \<in> {SetGroups, SetGid, SetUid}"
    and "start_child cc joined limits group_add passwd groups ex k = Inl (NoSpawn (Some st) (OsCode EPERM))"
  then consider err k1 where "(if ex_tty ex then cc_open_pty cc else no_call) k = (Some err, k1)" "untag err = (Some st, OsCode EPERM)"
    | err where "spawn_calls cc joined limits root_groups i ex = Inl err" "untag err = (Some st, OsCode EPERM)"
    | k1 calls err k2 where "(if ex_tty ex then cc_open_pty cc else no_call) k = (None, k1)"
        "spawn_calls cc joined limits root_groups i ex = Inr calls" "all_calls (cc_fork cc # calls) k1 = (Some err, k2)"
        "untag err = (Some st, OsCode EPERM)"
    using assms(2,3) by (auto simp: start_child_def split: sum.splits prod.splits option.splits if_splits)
  moreover have pty: "as_root cred (if ex_tty ex then cc_open_pty cc else no_call)"
    using root_calls(1) [OF assms(1)] a by simp
  moreover have "st \<noteq> ChangeDir" using a by auto
  ultimately show False
  proof cases
    case 1
    with sparedD [of cred _ k] pty a \<open>st \<noteq> ChangeDir\<close> show False unfolding as_root_def by blast
  next
    case 2
    then show False by (auto simp: spawn_calls_def run_as_def and_then_def untag_def split: option.splits if_splits)
  next
    case 3
    have "cr_uid (cred k1) = 0" using as_rootD [OF pty _ 3(1)] a by simp
    moreover have "spared cred (all_calls (cc_fork cc # calls))" using spared_spawn [OF assms(1) _ 3(2)] a by simp
    ultimately show False using sparedD [of cred "all_calls (cc_fork cc # calls)" k1] 3(3,4) \<open>st \<noteq> ChangeDir\<close> by blast
  qed
qed

text \<open>A kernel that keeps only the credentials and lets root do everything.\<close>

definition demo_priv :: "(credentials \<Rightarrow> credentials) \<Rightarrow> credentials call" where
  "demo_priv f c = (if cr_uid c = 0 then (None, f c) else (Some (OsCode 1), c))"

definition demo_calls :: "credentials child_calls" where
  "demo_calls =
     \<lparr>cc_open_pty = no_call, cc_fork = no_call,
      cc_join_cgroup = no_call, cc_setrlimit = (\<lambda>_ _ _. no_call), cc_attach_tty = no_call,
      cc_set_groups = (\<lambda>gs. demo_priv (cr_groups_update (\<lambda>_. gs))), cc_set_gid = (\<lambda>n. demo_priv (cr_gid_update (\<lambda>_. n))),
      cc_set_uid = (\<lambda>n. demo_priv (cr_uid_update (\<lambda>_. n))), cc_change_dir = (\<lambda>_. no_call)\<rparr>"

lemma demo_calls_lawful: "lawful demo_calls id" "errno_law demo_calls id"
  by (auto simp: lawful_def errno_law_def numbered_def root_permitted_def demo_calls_def leaves_def no_call_def demo_priv_def
      split: if_splits)

definition demo_as :: exec_request where
  "demo_as = \<lparr>ex_command = [''id''], ex_working_dir = ''/srv'', ex_env = [], ex_tty = False, ex_user = ''7'', ex_raw = True\<rparr>"

lemma demo_as_identity:
  "load_identity ''7'' None None = Inr (Some \<lparr>id_uid = 7, id_gid = 0, id_groups = [0], id_home = ''/''\<rparr>)"
  by (simp add: load_identity_def read_user_db_def and_then_def resolve_identity_def split_spec_def reference_parse_def
      passwd_entries_def str_lines_def List.map_filter_def U32_MAX_def text_defs byte_def Let_def)

theorem child_runs_as_asked_witness:
  "errno_law demo_calls id \<and>
   (\<exists>c. start_child demo_calls True [] [''5''] None None demo_as \<lparr>cr_uid = 0, cr_gid = 0, cr_groups = [0, 1, 2]\<rparr> = Inr c \<and>
     cr_uid c = 7 \<and> cr_groups c = [0, 5])"
proof -
  let ?i = "\<lparr>id_uid = 7, id_gid = 0, id_groups = [0], id_home = ''/''\<rparr>"
  let ?k = "\<lparr>cr_uid = 0, cr_gid = 0, cr_groups = [0, 1, 2]\<rparr>"
  have id: "load_identity (ex_user demo_as) None None = Inr (Some ?i)" using demo_as_identity by (simp add: demo_as_def)
  have gr: "with_group_add [''5''] None (Some ?i) = Inr (Some (?i\<lparr>id_groups := [0, 5]\<rparr>), [])"
    by (simp add: with_group_add_def read_user_db_def and_then_def resolve_group_add_def add_groups_def push_group_def
        U32_MAX_def text_defs byte_def)
  obtain c where c: "start_child demo_calls True [] [''5''] None None demo_as ?k = Inr c"
    using id gr by (simp add: start_child_def demo_as_def spawn_calls_def run_as_def workdir_of_def child_env_def has_nul_def
        and_then_def kernel_limits_def demo_calls_def no_call_def then_call_def enter_as_def drop_privileges_def tagged_def demo_priv_def)
  from child_runs_as_asked [OF demo_calls_lawful(1) id gr, of True "[]" ?k c] c demo_calls_lawful(2) show ?thesis
    by (simp add: asked_credentials_def)
qed

text \<open>
  C20: A spec that resolves gives the identity the guest's files say. A numeric user is that user id, a name the
  id of the first line of the user file with the name; the home is that line's, or \<open>/\<close>. A group in the spec,
  numeric or the first of that name in the group file, is the only group. Without one the group is that of
  the user's line, or 0 when a number has none, and the groups are it and exactly those of the group file that
  list the user's name. Whatever the files hold, ids fit 32 bits, the group comes first in a list without
  repeats and the home is not empty. Adding groups keeps all that and never changes the user or the group.
\<close>

theorem identity_well_formed:
  assumes "resolve_identity spec passwd groups = Inr i" "resolve_group_add names groups = Inr gids"
  shows "identity_of spec passwd groups i \<and> wf_identity i \<and> wf_identity (add_groups gids i) \<and>
    id_uid (add_groups gids i) = id_uid i \<and> id_gid (add_groups gids i) = id_gid i \<and>
    set (id_groups (add_groups gids i)) = set (id_groups i) \<union> set gids"
proof -
  have ok: "identity_of spec passwd groups i" "wf_identity i" using resolve_identity_of [OF assms(1)] by simp_all
  then have "set (id_groups (add_groups gids i)) = set (id_groups i) \<union> set gids"
    using push_groups_keep [of "id_groups i" gids] by (simp add: wf_identity_def add_groups_def)
  with ok add_groups_wf [OF ok(2) resolve_group_add_bounds [OF assms(2)]] show ?thesis
    by (simp add: add_groups_def)
qed

theorem identity_well_formed_witness:
  "\<exists>i. resolve_identity ''app'' ''app:x:7:8::/srv:/bin/sh'' ''web:x:9:app'' = Inr i \<and> id_uid i = 7 \<and> id_gid i = 8 \<and>
     id_home i = ''/srv'' \<and> set (id_groups i) = {8, 9} \<and> wf_identity (add_groups [5] i)"
proof -
  have pw: "passwd_entries ''app:x:7:8::/srv:/bin/sh'' = [\<lparr>pw_name = ''app'', pw_uid = 7, pw_gid = 8, pw_home = ''/srv''\<rparr>]"
    by (simp add: passwd_entries_def passwd_line_def str_lines_def List.map_filter_def U32_MAX_def text_defs byte_def Let_def)
  have gr: "group_entries ''web:x:9:app'' = [\<lparr>gr_name = ''web'', gr_gid = 9, gr_members = ''app''\<rparr>]"
    by (simp add: group_entries_def group_line_def str_lines_def List.map_filter_def U32_MAX_def text_defs byte_def Let_def)
  have num: "parse_unsigned U32_MAX ''app'' = None" "parse_unsigned U32_MAX ''5'' = Some 5"
    by (simp_all add: U32_MAX_def text_defs byte_def)
  obtain i where i: "resolve_identity ''app'' ''app:x:7:8::/srv:/bin/sh'' ''web:x:9:app'' = Inr i"
    by (simp add: and_then_def resolve_identity_def split_spec_def reference_parse_def num pw Let_def)
  have user: "user_part ''app'' = ''app''" by (simp add: user_part_def)
  have e: "user_entry ''app'' ''app:x:7:8::/srv:/bin/sh'' = Some \<lparr>pw_name = ''app'', pw_uid = 7, pw_gid = 8, pw_home = ''/srv''\<rparr>"
    by (simp add: user_entry_def user names_user_def num pw)
  have "resolve_group_add [''5''] ''web:x:9:app'' = Inr [5]"
    by (simp add: resolve_group_add_def and_then_def num)
  from identity_well_formed [OF i this] i show ?thesis
    by (auto simp: identity_of_def e user num gr lists_member_def)
qed

text \<open>The call of each step.\<close>

definition step_call :: "('k, 'z) child_calls_scheme \<Rightarrow> identity \<Rightarrow> string option \<Rightarrow> drop_step \<Rightarrow> 'k call" where
  "step_call cc i workdir st =
     (case st of
        SetGroups \<Rightarrow> cc_set_groups cc (id_groups i)
      | SetGid \<Rightarrow> cc_set_gid cc (id_gid i)
      | SetUid \<Rightarrow> cc_set_uid cc (id_uid i)
      | ChangeDir \<Rightarrow> (case workdir of Some dir \<Rightarrow> cc_change_dir cc dir | None \<Rightarrow> no_call))"

lemma tagged_no_call [simp]: "tagged st no_call = no_call"
  by (simp add: fun_eq_iff tagged_def no_call_def)

lemma then_call_assoc: "then_call (then_call a b) c = then_call a (then_call b c)"
  by (auto simp: fun_eq_iff then_call_def split: prod.splits option.splits)

lemma enter_as_steps: "enter_as cc i workdir = all_calls (map (\<lambda>st. tagged st (step_call cc i workdir st)) ALL_STEPS)"
  by (cases workdir) (simp_all add: enter_as_def drop_privileges_def ALL_STEPS_def step_call_def then_call_assoc)

lemma all_calls_error:
  assumes "all_calls cs k = (Some err, k')"
  shows "\<exists>c k1. c \<in> set cs \<and> c k1 = (Some err, k')"
  using assms
proof (induction cs arbitrary: k)
  case (Cons c cs)
  obtain r k1 where c: "c k = (r, k1)" by fastforce
  with Cons show ?case by (cases r) (auto simp: then_call_def)
qed (simp add: no_call_def)

text \<open>
  C21: When a call on the way into the identity fails, the one 32-bit code that reaches the agent tells both
  which call it was and the kernel's own error number, for every error number below 65536: the two never
  run into each other, also under the shift that keeps the sign.
\<close>

theorem drop_failure_named:
  assumes "enter_as cc i workdir k = (Some err, k')"
    and errnos: "\<And>st k1 e k2. step_call cc i workdir st k1 = (Some e, k2) \<Longrightarrow> \<exists>n. e = OsCode n \<and> unat n < 65536"
  shows "\<exists>st n k1. untag err = (Some st, OsCode n) \<and> step_call cc i workdir st k1 = (Some (OsCode n), k')"
proof -
  obtain st k1 where "tagged st (step_call cc i workdir st) k1 = (Some err, k')"
    using all_calls_error [of _ k err k'] assms(1) unfolding enter_as_steps by fastforce
  then obtain e where e: "step_call cc i workdir st k1 = (Some e, k')" "err = tag st e"
    by (cases "step_call cc i workdir st k1") (auto simp: tagged_def)
  from errnos [OF e(1)] obtain n where "e = OsCode n" "unat n < 65536" by blast
  with untag_tag [of n st] e show ?thesis by blast
qed

theorem drop_failure_named_witness:
  "\<exists>st n. untag (the (fst (enter_as demo_calls \<lparr>id_uid = 7, id_gid = 0, id_groups = [0], id_home = ''/''\<rparr> None
      \<lparr>cr_uid = 3, cr_gid = 0, cr_groups = []\<rparr>))) = (Some st, OsCode n)"
proof -
  let ?i = "\<lparr>id_uid = 7, id_gid = 0, id_groups = [0], id_home = ''/''\<rparr>" and ?k = "\<lparr>cr_uid = 3, cr_gid = 0, cr_groups = []\<rparr>"
  have "enter_as demo_calls ?i None ?k = (Some (tag SetGroups (OsCode 1)), ?k)"
    by (simp add: enter_as_def drop_privileges_def then_call_def tagged_def demo_calls_def demo_priv_def)
  moreover have "\<exists>n. e = OsCode n \<and> unat n < 65536" if "step_call demo_calls ?i None st k1 = (Some e, k2)" for st k1 e k2
    using that by (cases st) (auto simp: step_call_def demo_calls_def demo_priv_def no_call_def split: if_splits)
  ultimately show ?thesis using drop_failure_named [of demo_calls ?i None ?k "tag SetGroups (OsCode 1)" ?k] by auto
qed

end
