(* ===== verification/Spec2Isabelle.thy ===== *)
theory Spec2Isabelle
  imports Prelude Protocol Addr Validate Broker Egress Channels OutputBuf Store Events Restart Health Volume
    Manager Lifecycle Sections RestartLimit Interleaving Reachable Progress Printing Guest Agent Utf8 Wire Cgroup Update Archive Relay FileTransfer Packing GuestUser
begin

text \<open>
  Verification of the ward control plane: the daemon that runs sandboxes as microVMs
  (\<open>ward-core\<close>), the agent inside each guest (\<open>ward-agent\<close>), the tar checks both use
  (\<open>ward-archive\<close>) and the messages between them (\<open>proto/ward_agent.proto\<close>).

  \<^bold>\<open>The program.\<close> A client asks the daemon to create, start, stop, pause, update or remove a sandbox, to run
  programs in it and to copy files. A request is validated (\<open>validate.rs\<close>, \<open>guest_options.rs\<close> and its
  neighbours), then the sandbox manager (\<open>sandbox/manager.rs\<close>) changes its table of sandboxes, the records on
  disk (\<open>sandbox/store.rs\<close>), the volumes (\<open>volume/manager.rs\<close>), the message broker (\<open>comms/broker.rs\<close>) and
  the event log (\<open>sandbox/events.rs\<close>), and drives the VM through a backend (\<open>backend/krunvm.rs\<close>). The backend
  talks to the agent in frames over a socket (\<open>backend/agent.rs\<close>, \<open>ward-agent/src/lib.rs\<close>). Traffic out of a
  sandbox passes the egress proxy (\<open>egress/proxy.rs\<close>).

  \<^bold>\<open>Conventions.\<close> A Rust struct is a record, an enum a datatype, a function a definition with the same name
  (with a prefix where names clash). A \<open>Result\<close> is a sum with the error on the left, a string its bytes, a hash
  map a map or an association list. Integers keep their width as words where the code's arithmetic depends on
  it and are naturals with the bound written out elsewhere. Code under a lock is a function on the state.
  Errors keep the format text and its arguments.

  \<^bold>\<open>Vocabulary.\<close>
  \<^item> \<open>Prelude\<close>: results, text functions of the standard library, and the locales \<open>bounded_log\<close> (audit rows,
    egress log, event history, health log) and \<open>invariant_system\<close> (broker, volumes, output feeds, event
    readers, health checks, the manager).
  \<^item> \<open>Addr\<close> and \<open>Printing\<close>: IP addresses and numbers as they are parsed and printed, with the round trips.
    \<open>Utf8\<close>: UTF-8 decoding and \<open>utf8.rs\<close>; decoding in chunks is decoding at once.
  \<^item> \<open>Protocol\<close>: the types of \<open>protocol.rs\<close>, the merge of updates, restart policies and signals.

  \<^bold>\<open>Requests.\<close>
  \<^item> \<open>Validate\<close>: the validators of \<open>validate.rs\<close>. Accepted mounts stay under the allowed roots, names are
    never ids, ports keep their numbers.
  \<^item> \<open>Guest\<close> and \<open>Agent\<close>: the guest options, the agent arguments they become and the agent's reading of them
    (\<open>guest_options.rs\<close>, \<open>guest_limits.rs\<close>, \<open>guest_network.rs\<close>, \<open>ward-agent/src/lib.rs\<close>, \<open>guest_mounts.rs\<close>): what
    is accepted is read back as stored and can be mounted.

  \<^bold>\<open>The daemon's parts.\<close>
  \<^item> \<open>Broker\<close> (\<open>comms/broker.rs\<close>): delivery only between sandboxes that may communicate, bounded audit rows.
  \<^item> \<open>Egress\<close> (\<open>egress/proxy.rs\<close>, \<open>egress/blocked.rs\<close>): the policy, the address classifier against its table of
    blocks, the CONNECT handler, the idle timeout, the table of blocked hosts.
  \<^item> \<open>Channels\<close>, \<open>OutputBuf\<close>, \<open>Events\<close>: broadcast receivers, the bounded output of a main process and its
    live feeds, the event log. Nothing is lost without being announced.
  \<^item> \<open>Store\<close> (\<open>sandbox/store.rs\<close>): records over a file system that may crash between any two calls.
  \<^item> \<open>Restart\<close> and \<open>Health\<close> (\<open>restart.rs\<close>, \<open>health.rs\<close>, \<open>health_monitor.rs\<close>): when a sandbox is restarted,
    and the status its checks give it.
  \<^item> \<open>Volume\<close> (\<open>volume/manager.rs\<close>): volumes, claims and their records under any order of operations. A removal
    is four steps, between which claims are taken and dropped; a claim keeps a volume from removals that have
    not yet passed their check.

  \<^bold>\<open>The sandbox manager.\<close>
  \<^item> \<open>Manager\<close> has the state and what runs under one lock. \<open>Lifecycle\<close> has the operations as tasks with a
    program counter; a section is what runs between two points where the code waits, and a step of the system
    runs one section of one task, adds a task or lets a main process end.
  \<^item> \<open>Sections\<close> says what each section does to names, permits and states; \<open>Interleaving\<close> has the invariant and
    that every step keeps it; \<open>RestartLimit\<close> counts the restarts of a failing sandbox; \<open>Reachable\<close> starts from
    restored records, whose names may repeat, and has the properties: the limit on sandboxes, references that
    find their sandbox, one transition at a time.
  \<^item> \<open>Progress\<close> has a measure every section lowers except where a task waits for a main process, so in every run
    in which a task keeps getting its turn it ends or waits for a process that lives on, and that stopping a
    paused sandbox never thaws it.
  \<^item> \<open>Update\<close> (\<open>manager/update.rs\<close> down to the guest's cgroup): an update that is reported done holds in the
    record and the guest; what its undo leaves out.

  \<^bold>\<open>Daemon and guest.\<close>
  \<^item> \<open>Wire\<close>: frames, messages, the agent's run of one process and the daemon's reading of it.
  \<^item> \<open>Cgroup\<close> (\<open>limits.rs\<close>, \<open>cgroup_limits.rs\<close>, \<open>cgroup.rs\<close>, \<open>freezer.rs\<close>): the files the agent writes; a change
    of limits is made whole or not at all.
  \<^item> \<open>GuestUser\<close> (\<open>user.rs\<close> and the start of a child in \<open>lib.rs\<close>): identities from the user and group files,
    the privilege drop, and the 32-bit code that tells which call failed.
  \<^item> \<open>Archive\<close>, \<open>Packing\<close> (\<open>ward-archive/src/lib.rs\<close>): the checks on tar entries, packing and unpacking.
    \<open>Relay\<close> (\<open>sandbox/copy.rs\<close>): the client only gets bytes the checks have passed. \<open>FileTransfer\<close>
    (\<open>ward-agent/src/archive.rs\<close>, \<open>backend/agent.rs\<close>): a copy that reports success is complete.

  \<^bold>\<open>Parameters.\<close> The protobuf codec (relied on: decoding inverts encoding), the \<open>tar\<close> crate (any program
  that reads bytes and yields entries), the guest kernel and file system (what a call that succeeds did), the
  file system of the host, the name resolver, the backend's answers, the clock and the generators of ids and
  pids (never the same twice). Each property that relies on a law of one of them has an instance in which the law
  holds.

  \<^bold>\<open>Bounds and termination.\<close> All definitions are total. Loops are structural or have a measure, so no
  property is limited by fuel: the header guard consumes bytes, the decoder consumes its chunk, the relay runs
  along the program of the tar crate. The re-reads of the OOM counters are bounded by the code's own constant. A
  section of the manager makes its calls and returns; that these calls return and that a lock is given to
  whoever waits for it is not shown.

  \<^bold>\<open>Not modelled.\<close>
  \<^item> Of the manager: exec sessions, attach, logs, statistics, process lists, waiting and listing. They read the
    state or pass bytes on; the invariants do not depend on them.
  \<^item> Of the agent protocol: the ping, top, statistics, secrets and freeze calls (the same frames), ptys, forking
    and the vsock listener.
  \<^item> Image pulls, layers, commits and diffs, which are file system trees and registry calls through third-party
    crates; booting a VM, which is libkrun; the smoltcp network, whose stack is a third-party crate.
  \<^item> The gRPC server, the command line client, the MCP server, the SDKs, configuration files, bundling and
    scripts: conversions to and from generated messages, printing and process start.
\<close>

end
